(* ===== verification/Prelude.thy ===== *)
theory Prelude
  imports Main "HOL-Library.Word"
begin

unbundle bit_operations_syntax

section \<open>Shared vocabulary of the model\<close>

text \<open>
  What every component of the model uses: the machine integers of the source, the outcome
  of a Rust computation (a value, an error value or a panic), indexing and slicing as Rust
  does it, big-endian fields of a byte buffer, and the collections of rules the components
  add to.
  \<^item> \<open>res\<close> is the outcome of a function. \<open>Ok\<close> and \<open>Err\<close> are the constructors of Rust's
    \<open>Result\<close>; a function that returns \<open>Option\<close> and uses the question mark on it has the
    error type \<^typ>\<open>unit\<close>, and \<open>Nothing\<close> stands for Rust's \<open>None\<close>. \<open>Panic\<close> is a failed
    index, slice or copy, so that panic freedom is a theorem and not a convention.
  \<^item> \<open>attempt r k\<close> is the question mark operator followed by the rest of the function.
  \<^item> \<open>idx\<close>, \<open>slice\<close> and \<open>copy_at\<close> are \<open>xs[i]\<close>, \<open>&xs[a..b]\<close> and \<open>copy_from_slice\<close>.
  \<^item> \<open>usize\<close> is \<^typ>\<open>nat\<close>: the sums of offsets in the source are bounded by a few times
    \<open>2 ^ 16\<close>.
\<close>

named_theorems panic_free \<open>outcomes that are not a panic\<close>
named_theorems field_simps16 \<open>reading back big-endian fields\<close>

subsection \<open>Machine integers\<close>

type_synonym u8 = "8 word"
type_synonym byte = "8 word"
type_synonym u16 = "16 word"
type_synonym u32 = "32 word"
type_synonym u64 = "64 word"

subsection \<open>Outcomes\<close>

datatype ('a, 'e) res = Ok 'a | Err 'e | Panic

abbreviation Nothing :: "('a, unit) res" where
  "Nothing \<equiv> Err ()"

fun attempt :: "('a, 'e) res \<Rightarrow> ('a \<Rightarrow> ('b, 'e) res) \<Rightarrow> ('b, 'e) res" where
  "attempt (Ok a) k = k a"
| "attempt (Err e) k = Err e"
| "attempt Panic k = Panic"

fun map_err :: "('e \<Rightarrow> 'f) \<Rightarrow> ('a, 'e) res \<Rightarrow> ('a, 'f) res" where
  "map_err f (Ok a) = Ok a"
| "map_err f (Err e) = Err (f e)"
| "map_err f Panic = Panic"

fun ok_or :: "'a option \<Rightarrow> 'e \<Rightarrow> ('a, 'e) res" where
  "ok_or (Some a) e = Ok a"
| "ok_or None e = Err e"

fun is_ok :: "('a, 'e) res \<Rightarrow> bool" where
  "is_ok (Ok a) = True"
| "is_ok (Err e) = False"
| "is_ok Panic = False"

fun ok_value :: "('a, 'e) res \<Rightarrow> 'a option" where
  "ok_value (Ok a) = Some a"
| "ok_value (Err e) = None"
| "ok_value Panic = None"

lemma attempt_cong [fundef_cong]:
  "r = r' \<Longrightarrow> (\<And>a. r' = Ok a \<Longrightarrow> k a = k' a) \<Longrightarrow> attempt r k = attempt r' k'"
  by (cases r') auto

lemma attempt_eq_Ok: "attempt r k = Ok b \<longleftrightarrow> (\<exists>a. r = Ok a \<and> k a = Ok b)"
  by (cases r) auto

lemma attempt_eq_Panic: "attempt r k = Panic \<longleftrightarrow> r = Panic \<or> (\<exists>a. r = Ok a \<and> k a = Panic)"
  by (cases r) auto

lemma attempt_eq_Err: "attempt r k = Err e \<longleftrightarrow> r = Err e \<or> (\<exists>a. r = Ok a \<and> k a = Err e)"
  by (cases r) auto

lemma map_err_eq [simp]:
  "map_err f r = Ok a \<longleftrightarrow> r = Ok a"
  "map_err f r = Panic \<longleftrightarrow> r = Panic"
  by (cases r; simp)+

lemma ok_or_eq [simp]:
  "ok_or v e = Ok a \<longleftrightarrow> v = Some a"
  "ok_or v e = Err e' \<longleftrightarrow> v = None \<and> e' = e"
  "ok_or v e \<noteq> Panic"
  by (cases v; auto)+

lemma is_ok_iff: "is_ok r \<longleftrightarrow> (\<exists>a. r = Ok a)"
  by (cases r) auto

lemma ok_value_eq [simp]: "ok_value r = Some a \<longleftrightarrow> r = Ok a"
  by (cases r) auto

lemma attempt_no_panic [panic_free]:
  "r \<noteq> Panic \<Longrightarrow> (\<And>a. r = Ok a \<Longrightarrow> k a \<noteq> Panic) \<Longrightarrow> attempt r k \<noteq> Panic"
  by (cases r) auto

subsection \<open>Indexing, slicing, copying\<close>

definition idx :: "'a list \<Rightarrow> nat \<Rightarrow> ('a \<Rightarrow> ('b, 'e) res) \<Rightarrow> ('b, 'e) res" where
  "idx xs i k = (if i < length xs then k (xs ! i) else Panic)"

definition slice :: "'a list \<Rightarrow> nat \<Rightarrow> nat \<Rightarrow> ('a list \<Rightarrow> ('b, 'e) res) \<Rightarrow> ('b, 'e) res" where
  "slice xs a b k = (if a \<le> b \<and> b \<le> length xs then k (take (b - a) (drop a xs)) else Panic)"

definition patch :: "'a list \<Rightarrow> nat \<Rightarrow> 'a list \<Rightarrow> 'a list" where
  "patch xs a ys = take a xs @ ys @ drop (a + length ys) xs"

definition copy_at :: "'a list \<Rightarrow> nat \<Rightarrow> 'a list \<Rightarrow> ('a list \<Rightarrow> ('b, 'e) res) \<Rightarrow> ('b, 'e) res" where
  "copy_at xs a ys k = (if a + length ys \<le> length xs then k (patch xs a ys) else Panic)"

definition get_at :: "'a list \<Rightarrow> nat \<Rightarrow> 'a option" where
  "get_at xs i = (if i < length xs then Some (xs ! i) else None)"

lemma idx_in [simp]: "i < length xs \<Longrightarrow> idx xs i k = k (xs ! i)"
  by (simp add: idx_def)

lemma slice_in [simp]: "a \<le> b \<Longrightarrow> b \<le> length xs \<Longrightarrow> slice xs a b k = k (take (b - a) (drop a xs))"
  by (simp add: slice_def)

lemma copy_at_in [simp]: "a + length ys \<le> length xs \<Longrightarrow> copy_at xs a ys k = k (patch xs a ys)"
  by (simp add: copy_at_def)

lemma idx_cong [fundef_cong]:
  "xs = xs' \<Longrightarrow> i = i' \<Longrightarrow> (\<And>x. i' < length xs' \<Longrightarrow> x = xs' ! i' \<Longrightarrow> k x = k' x) \<Longrightarrow> idx xs i k = idx xs' i' k'"
  by (simp add: idx_def)

lemma get_at_eq_Some: "get_at xs i = Some x \<longleftrightarrow> i < length xs \<and> xs ! i = x"
  by (auto simp: get_at_def)

lemma get_at_eq_None: "get_at xs i = None \<longleftrightarrow> length xs \<le> i"
  by (auto simp: get_at_def)

lemma length_patch [simp]: "a + length ys \<le> length xs \<Longrightarrow> length (patch xs a ys) = length xs"
  by (simp add: patch_def)

lemma nth_patch:
  assumes "a + length ys \<le> length xs" and "i < length xs"
  shows "patch xs a ys ! i = (if a \<le> i \<and> i < a + length ys then ys ! (i - a) else xs ! i)"
  using assms by (auto simp: patch_def nth_append min_def)

lemma nth_patch_inside: "a + length ys \<le> length xs \<Longrightarrow> j < length ys \<Longrightarrow> patch xs a ys ! (a + j) = ys ! j"
  by (simp add: nth_patch)

lemma nth_patch_outside:
  "a + length ys \<le> length xs \<Longrightarrow> i < length xs \<Longrightarrow> i < a \<or> a + length ys \<le> i \<Longrightarrow> patch xs a ys ! i = xs ! i"
  by (auto simp: nth_patch)

lemma patch_same: "a + n \<le> length xs \<Longrightarrow> patch xs a (take n (drop a xs)) = xs"
  by (simp add: patch_def min_def) (metis add.commute append_take_drop_id drop_drop)

lemma patch_patch: "a + length ys \<le> length xs \<Longrightarrow> length zs = length ys \<Longrightarrow> patch (patch xs a ys) a zs = patch xs a zs"
  by (simp add: patch_def)

lemma patch_append: "patch (xs @ ys) (length xs + a) zs = xs @ patch ys a zs"
  by (simp add: patch_def)

lemma take_patch:
  "a + length ys \<le> n \<Longrightarrow> n \<le> length xs \<Longrightarrow> take n (patch xs a ys) = patch (take n xs) a ys"
  by (auto simp: patch_def min_def drop_take le_iff_add)

lemma take_patch_before: "n \<le> a \<Longrightarrow> a \<le> length xs \<Longrightarrow> take n (patch xs a ys) = take n xs"
  by (simp add: patch_def min_def)

lemma drop_patch: "n \<le> a \<Longrightarrow> a \<le> length xs \<Longrightarrow> drop n (patch xs a ys) = patch (drop n xs) (a - n) ys"
  by (simp add: patch_def drop_take)

lemma drop_patch_after: "a + length ys \<le> n \<Longrightarrow> a \<le> length xs \<Longrightarrow> drop n (patch xs a ys) = drop n xs"
  by (simp add: patch_def)

lemma nth_field: "a \<le> i \<Longrightarrow> i < a + n \<Longrightarrow> i < length xs \<Longrightarrow> take n (drop a xs) ! (i - a) = xs ! i"
  by simp

text \<open>Two buffers of one length that agree outside a set of positions.\<close>

definition same_except :: "nat set \<Rightarrow> 'a list \<Rightarrow> 'a list \<Rightarrow> bool" where
  "same_except S xs ys \<longleftrightarrow>
     length ys = length xs \<and> (\<forall>i < length xs. i \<notin> S \<longrightarrow> ys ! i = xs ! i)"

lemma same_except_len: "same_except S xs ys \<Longrightarrow> length ys = length xs"
  by (simp add: same_except_def)

lemma same_except_nth: "same_except S xs ys \<Longrightarrow> i < length xs \<Longrightarrow> i \<notin> S \<Longrightarrow> ys ! i = xs ! i"
  by (simp add: same_except_def)

lemma same_except_patch:
  "a + length ys \<le> length xs \<Longrightarrow> same_except {a..<a + length ys} xs (patch xs a ys)"
  by (auto simp: same_except_def nth_patch)

lemma same_except_trans:
  "same_except S xs ys \<Longrightarrow> same_except T ys zs \<Longrightarrow> S \<subseteq> U \<Longrightarrow> T \<subseteq> U \<Longrightarrow> same_except U xs zs"
  unfolding same_except_def subset_iff by metis

lemma patch_cong_same:
  "same_except {a..<a + length zs} xs ys \<Longrightarrow> a + length zs \<le> length xs \<Longrightarrow> patch ys a zs = patch xs a zs"
  by (rule nth_equalityI) (auto simp: same_except_def nth_patch)

lemma list_eq_patch:
  assumes "length xs = length zs" and "a + length ys \<le> length xs"
    and "\<And>i. i < length xs \<Longrightarrow> i < a \<or> a + length ys \<le> i \<Longrightarrow> zs ! i = xs ! i"
    and "\<And>j. j < length ys \<Longrightarrow> zs ! (a + j) = ys ! j"
  shows "zs = patch xs a ys"
proof (rule nth_equalityI)
  show "length zs = length (patch xs a ys)" using assms by simp
next
  fix i assume "i < length zs"
  then show "zs ! i = patch xs a ys ! i"
    using assms(1,2) assms(3)[of i] assms(4)[of "i - a"] by (auto simp: nth_patch)
qed

subsection \<open>Big-endian fields\<close>

definition from_be16 :: "byte \<Rightarrow> byte \<Rightarrow> u16" where
  "from_be16 a b = push_bit 8 (ucast a) OR ucast b"

definition to_be16 :: "u16 \<Rightarrow> byte list" where
  "to_be16 w = [ucast (drop_bit 8 w), ucast w]"

definition be16_at :: "byte list \<Rightarrow> nat \<Rightarrow> u16" where
  "be16_at xs i = from_be16 (xs ! i) (xs ! (i + 1))"

lemma length_to_be16 [simp]: "length (to_be16 w) = 2"
  by (simp add: to_be16_def)

lemma from_to_be16: "from_be16 (ucast (drop_bit 8 w)) (ucast w) = w"
  by (rule bit_word_eqI) (auto simp: from_be16_def bit_simps)

lemma to_from_be16 [simp]: "to_be16 (from_be16 a b) = [a, b]"
proof -
  have "ucast (drop_bit 8 (from_be16 a b)) = a"
    by (rule bit_word_eqI) (auto simp: from_be16_def bit_simps dest: bit_imp_le_length)
  moreover have "ucast (from_be16 a b) = b"
    by (rule bit_word_eqI) (auto simp: from_be16_def bit_simps)
  ultimately show ?thesis by (simp add: to_be16_def)
qed

lemma be16_append: "be16_at (xs @ to_be16 w @ ys) (length xs) = w"
  by (simp add: be16_at_def nth_append to_be16_def from_to_be16)

lemma unat_byte_less: "unat (b :: byte) < 256"
  using unsigned_less [of b, where ?'a = nat] by simp

lemma unat_from_be16: "unat (from_be16 a b) = unat a * 256 + unat b"
proof -
  have "push_bit 8 (ucast a :: u16) AND ucast b = 0"
    by (rule bit_word_eqI) (auto simp: bit_simps dest: bit_imp_le_length)
  then have "from_be16 a b = push_bit 8 (ucast a) + ucast b"
    by (simp add: from_be16_def disjunctive_add_eq_or)
  moreover have "unat (push_bit 8 (ucast a :: u16)) = unat a * 256"
    using unat_byte_less [of a]
    by (simp add: push_bit_eq_mult unat_word_ariths unsigned_ucast_eq take_bit_eq_mod)
  moreover have "unat (ucast b :: u16) = unat b"
    using unat_byte_less [of b] by (simp add: unsigned_ucast_eq take_bit_eq_mod)
  ultimately show ?thesis
    using unat_byte_less [of a] unat_byte_less [of b] by (simp add: unat_word_ariths)
qed

text \<open>
  A field of a packet buffer: a reader that looks at \<open>width\<close> bytes from its offset, and the
  bytes that are written for a value. What a packet rewrite needs of its fields is proved here
  once: a written field reads back as the value, and a write elsewhere does not change it.
\<close>

locale packet_field =
  fixes rd :: "byte list \<Rightarrow> nat \<Rightarrow> 'v"
    and enc :: "'v \<Rightarrow> byte list"
    and width :: nat
  assumes length_enc: "length (enc v) = width"
    and rd_local: "(\<And>j. j < width \<Longrightarrow> xs ! (a + j) = ys ! (b + j)) \<Longrightarrow> rd xs a = rd ys b"
    and rd_enc: "rd (enc v) 0 = v"
    and enc_rd: "a + width \<le> length xs \<Longrightarrow> enc (rd xs a) = take width (drop a xs)"
begin

lemma rd_patch_same: "a + width \<le> length xs \<Longrightarrow> rd (patch xs a (enc v)) a = v"
  by (subst rd_local [where ys = "enc v" and b = 0])
    (simp_all add: length_enc nth_patch_inside rd_enc)

lemma rd_patch_other:
  "b + length ys \<le> length xs \<Longrightarrow> a + width \<le> length xs \<Longrightarrow>
    a + width \<le> b \<or> b + length ys \<le> a \<Longrightarrow> rd (patch xs b ys) a = rd xs a"
  by (rule rd_local) (auto simp: nth_patch_outside)

lemma rd_same_except:
  "same_except S xs ys \<Longrightarrow> a + width \<le> length xs \<Longrightarrow> S \<inter> {a..<a + width} = {} \<Longrightarrow> rd ys a = rd xs a"
  by (rule rd_local, rule same_except_nth [of S xs ys]) (auto simp: disjoint_iff)

lemma write_back: "a + width \<le> length xs \<Longrightarrow> patch xs a (enc (rd xs a)) = xs"
  by (simp add: enc_rd patch_same)

end

interpretation be16: packet_field be16_at to_be16 2
proof unfold_locales
  fix xs ys :: "byte list" and a b :: nat
  assume eq: "xs ! (a + j) = ys ! (b + j)" if "j < 2" for j
  show "be16_at xs a = be16_at ys b"
    using eq [of 0] eq [of 1] by (simp add: be16_at_def)
next
  fix v show "be16_at (to_be16 v) 0 = v"
    by (simp add: be16_at_def to_be16_def from_to_be16)
next
  fix xs :: "byte list" and a assume "a + 2 \<le> length xs"
  then show "to_be16 (be16_at xs a) = take 2 (drop a xs)"
    by (simp add: be16_at_def numeral_2_eq_2 take_Suc_conv_app_nth flip: Cons_nth_drop_Suc)
qed simp

end
