(* ===== verification/Rust_Str.thy ===== *)
theory Rust_Str
  imports Prelude
begin

section \<open>Strings of the Rust standard library\<close>

text \<open>
  A \<open>str\<close> is the list of its Unicode scalar values; its bytes are the UTF-8 encoding, which
  \<open>as_bytes\<close> computes and \<open>from_utf8\<close> checks and inverts, as \<open>std::str::from_utf8\<close> does
  (overlong forms, surrogates and values past 10FFFF are rejected). \<open>from_utf8_lossy\<close>
  replaces each maximal invalid piece by U+FFFD. The other functions are the ones the program
  calls: \<open>trim\<close>, \<open>lines\<close>, \<open>split_once\<close>, \<open>split\<close> on a character, ASCII case folding and
  the parsing and printing of unsigned integers.
\<close>

type_synonym str = "nat list"

definition lit :: "string \<Rightarrow> str" where
  "lit s = map of_char s"

definition ascii :: "string \<Rightarrow> byte list" where
  "ascii s = map of_char s"

subsection \<open>UTF-8\<close>

definition scalar_value :: "nat \<Rightarrow> bool" where
  "scalar_value c \<longleftrightarrow> c < 55296 \<or> 57344 \<le> c \<and> c < 1114112"

definition encode_char :: "nat \<Rightarrow> byte list" where
  "encode_char c = map word_of_nat
     (if c < 128 then [c]
      else if c < 2048 then [192 + c div 64, 128 + c mod 64]
      else if c < 65536 then [224 + c div 4096, 128 + c div 64 mod 64, 128 + c mod 64]
      else [240 + c div 262144, 128 + c div 4096 mod 64, 128 + c div 64 mod 64, 128 + c mod 64])"

definition as_bytes :: "str \<Rightarrow> byte list" where
  "as_bytes s = concat (map encode_char s)"

definition str_len :: "str \<Rightarrow> nat" where
  "str_len s = length (as_bytes s)"

definition in_range :: "byte \<Rightarrow> nat \<Rightarrow> nat \<Rightarrow> bool" where
  "in_range b lo hi \<longleftrightarrow> lo \<le> unat b \<and> unat b \<le> hi"

text \<open>
  One character: the first byte and what follows it. The result is the scalar value, or
  \<open>None\<close> for an invalid piece, with the bytes after it.
\<close>

definition utf8_next :: "byte \<Rightarrow> byte list \<Rightarrow> nat option \<times> byte list" where
  "utf8_next b0 r0 =
     (let x = unat b0 in
      if x < 128 then (Some x, r0)
      else if 194 \<le> x \<and> x < 224 then
        (case r0 of
           [] \<Rightarrow> (None, r0)
         | b1 # r1 \<Rightarrow>
             if in_range b1 128 191 then (Some ((x - 192) * 64 + (unat b1 - 128)), r1)
             else (None, r0))
      else if 224 \<le> x \<and> x < 240 then
        (case r0 of
           [] \<Rightarrow> (None, r0)
         | b1 # r1 \<Rightarrow>
             if \<not> in_range b1 (if x = 224 then 160 else 128) (if x = 237 then 159 else 191)
             then (None, r0)
             else (case r1 of
                 [] \<Rightarrow> (None, r1)
               | b2 # r2 \<Rightarrow>
                   if in_range b2 128 191
                   then (Some ((x - 224) * 4096 + (unat b1 - 128) * 64 + (unat b2 - 128)), r2)
                   else (None, r1)))
      else if 240 \<le> x \<and> x < 245 then
        (case r0 of
           [] \<Rightarrow> (None, r0)
         | b1 # r1 \<Rightarrow>
             if \<not> in_range b1 (if x = 240 then 144 else 128) (if x = 244 then 143 else 191)
             then (None, r0)
             else (case r1 of
                 [] \<Rightarrow> (None, r1)
               | b2 # r2 \<Rightarrow>
                   if \<not> in_range b2 128 191 then (None, r1)
                   else (case r2 of
                       [] \<Rightarrow> (None, r2)
                     | b3 # r3 \<Rightarrow>
                         if in_range b3 128 191
                         then (Some ((x - 240) * 262144 + (unat b1 - 128) * 4096
                                 + (unat b2 - 128) * 64 + (unat b3 - 128)), r3)
                         else (None, r2))))
      else (None, r0))"

lemma utf8_next_shorter: "length (snd (utf8_next b bs)) \<le> length bs"
  by (auto simp: utf8_next_def Let_def split: list.splits)

function from_utf8 :: "byte list \<Rightarrow> str option" where
  "from_utf8 [] = Some []"
| "from_utf8 (b # bs) =
     (case fst (utf8_next b bs) of
        None \<Rightarrow> None
      | Some c \<Rightarrow> map_option ((#) c) (from_utf8 (snd (utf8_next b bs))))"
  by pat_completeness auto
termination
  by (relation "measure length") (auto simp: less_Suc_eq_le utf8_next_shorter)

function from_utf8_lossy :: "byte list \<Rightarrow> str" where
  "from_utf8_lossy [] = []"
| "from_utf8_lossy (b # bs) =
     (case fst (utf8_next b bs) of None \<Rightarrow> 65533 | Some c \<Rightarrow> c)
     # from_utf8_lossy (snd (utf8_next b bs))"
  by pat_completeness auto
termination
  by (relation "measure length") (auto simp: less_Suc_eq_le utf8_next_shorter)

text \<open>What an accepted character looks like: the four forms of the encoding.\<close>

lemma utf8_next_cases:
  assumes "utf8_next b bs = (Some c, r)"
  obtains (one) "unat b < 128" "c = unat b" "bs = r"
  | (two) b1 k m where "bs = b1 # r" "unat b = 192 + k" "unat b1 = 128 + m"
      "2 \<le> k" "k < 32" "m < 64" "c = k * 64 + m"
  | (three) b1 b2 k m n where "bs = b1 # b2 # r" "unat b = 224 + k" "unat b1 = 128 + m"
      "unat b2 = 128 + n" "k < 16" "m < 64" "n < 64" "k \<noteq> 0 \<or> 32 \<le> m" "k \<noteq> 13 \<or> m < 32"
      "c = k * 4096 + m * 64 + n"
  | (four) b1 b2 b3 k m n p where "bs = b1 # b2 # b3 # r" "unat b = 240 + k"
      "unat b1 = 128 + m" "unat b2 = 128 + n" "unat b3 = 128 + p" "k < 5" "m < 64" "n < 64"
      "p < 64" "k \<noteq> 0 \<or> 16 \<le> m" "k \<noteq> 4 \<or> m < 16"
      "c = k * 262144 + m * 4096 + n * 64 + p"
proof -
  note defs = utf8_next_def Let_def in_range_def
  consider "unat b < 128" | "194 \<le> unat b" "unat b < 224" | "224 \<le> unat b" "unat b < 240"
    | "240 \<le> unat b" "unat b < 245"
    using assms by (force simp: defs split: if_splits)
  then show thesis
  proof cases
    case 1
    with assms show thesis by (intro one) (auto simp: defs)
  next
    case 2
    with assms obtain b1 where "bs = b1 # r" "128 \<le> unat b1" "unat b1 \<le> 191"
      "c = (unat b - 192) * 64 + (unat b1 - 128)"
      by (auto simp: defs split: if_splits list.splits)
    with 2 show thesis by (intro two [of b1 "unat b - 192" "unat b1 - 128"]) auto
  next
    case 3
    with assms obtain b1 b2 where "bs = b1 # b2 # r" "128 \<le> unat b1" "unat b1 \<le> 191"
      "unat b \<noteq> 224 \<or> 160 \<le> unat b1" "unat b \<noteq> 237 \<or> unat b1 \<le> 159"
      "128 \<le> unat b2" "unat b2 \<le> 191"
      "c = (unat b - 224) * 4096 + (unat b1 - 128) * 64 + (unat b2 - 128)"
      by (auto simp: defs split: if_splits list.splits)
    with 3 show thesis
      by (intro three [of b1 b2 "unat b - 224" "unat b1 - 128" "unat b2 - 128"]) (simp_all, arith+)
  next
    case 4
    with assms obtain b1 b2 b3 where "bs = b1 # b2 # b3 # r" "128 \<le> unat b1" "unat b1 \<le> 191"
      "unat b \<noteq> 240 \<or> 144 \<le> unat b1" "unat b \<noteq> 244 \<or> unat b1 \<le> 143"
      "128 \<le> unat b2" "unat b2 \<le> 191" "128 \<le> unat b3" "unat b3 \<le> 191"
      "c = (unat b - 240) * 262144 + (unat b1 - 128) * 4096 + (unat b2 - 128) * 64
         + (unat b3 - 128)"
      by (auto simp: defs split: if_splits list.splits)
    with 4 show thesis
      by (intro four [of b1 b2 b3 "unat b - 240" "unat b1 - 128" "unat b2 - 128" "unat b3 - 128"])
        (simp_all, arith+)
  qed
qed

lemma base64_digits:
  assumes "m < 64" "n < 64" "p < (64 :: nat)"
  shows "(k * 64 + m) div 64 = k" "(k * 64 + m) mod 64 = m"
    and "(k * 4096 + m * 64 + n) div 4096 = k" "(k * 4096 + m * 64 + n) div 64 mod 64 = m"
    and "(k * 4096 + m * 64 + n) mod 64 = n"
    and "(k * 262144 + m * 4096 + n * 64 + p) div 262144 = k"
    and "(k * 262144 + m * 4096 + n * 64 + p) div 4096 mod 64 = m"
    and "(k * 262144 + m * 4096 + n * 64 + p) div 64 mod 64 = n"
    and "(k * 262144 + m * 4096 + n * 64 + p) mod 64 = p"
proof -
  have two: "(a * 64 + b) div 64 = a" "(a * 64 + b) mod 64 = b" if "b < 64" for a b :: nat
    using that by simp_all
  show "(k * 64 + m) div 64 = k" "(k * 64 + m) mod 64 = m" using assms by (simp_all add: two)
  have e3: "k * 4096 + m * 64 + n = (k * 64 + m) * 64 + n" by simp
  have d3: "(4096 :: nat) = 64 * 64" by simp
  show "(k * 4096 + m * 64 + n) div 4096 = k" "(k * 4096 + m * 64 + n) div 64 mod 64 = m"
    "(k * 4096 + m * 64 + n) mod 64 = n"
    unfolding e3 unfolding d3 div_mult2_eq using assms by (simp_all only: two)
  have e4: "k * 262144 + m * 4096 + n * 64 + p = ((k * 64 + m) * 64 + n) * 64 + p" by simp
  have d4: "(262144 :: nat) = 64 * 64 * 64" by simp
  show "(k * 262144 + m * 4096 + n * 64 + p) div 262144 = k"
    "(k * 262144 + m * 4096 + n * 64 + p) div 4096 mod 64 = m"
    "(k * 262144 + m * 4096 + n * 64 + p) div 64 mod 64 = n"
    "(k * 262144 + m * 4096 + n * 64 + p) mod 64 = p"
    unfolding e4 unfolding d4 d3 div_mult2_eq using assms by (simp_all only: two)
qed

lemma base64_join:
  "c = c div 64 * 64 + c mod (64 :: nat)"
  "c = c div 4096 * 4096 + c div 64 mod 64 * 64 + c mod (64 :: nat)"
  "c = c div 262144 * 262144 + c div 4096 mod 64 * 4096 + c div 64 mod 64 * 64 + c mod (64 :: nat)"
proof -
  show a: "d = d div 64 * 64 + d mod 64" for d :: nat by simp
  have b: "c div 4096 = c div 64 div 64" "c div 262144 = c div 64 div 64 div 64"
    by (simp_all flip: div_mult2_eq)
  show b': "c = c div 4096 * 4096 + c div 64 mod 64 * 64 + c mod 64"
    unfolding b using a [of "c div 64"] a [of c] by linarith
  show "c = c div 262144 * 262144 + c div 4096 mod 64 * 4096 + c div 64 mod 64 * 64 + c mod 64"
    unfolding b using a [of "c div 64 div 64"] a [of "c div 64"] a [of c] by linarith
qed

lemma byte_of_unat: "unat b = n \<Longrightarrow> word_of_nat n = (b :: byte)"
  by auto

lemma utf8_next_encode:
  assumes "utf8_next b bs = (Some c, r)"
  shows "b # bs = encode_char c @ r"
  using assms
proof (cases rule: utf8_next_cases)
  case one
  then show ?thesis by (simp add: encode_char_def)
next
  case (two b1 k m)
  then have "128 \<le> c" "c < 2048" by auto
  with two base64_digits(1,2) [of m 0 0 k] show ?thesis
    by (simp add: encode_char_def byte_of_unat del: of_nat_add)
next
  case (three b1 b2 k m n)
  then have "2048 \<le> c" "c < 65536" by auto
  with three base64_digits(3-5) [of m n 0 k] show ?thesis
    by (simp add: encode_char_def byte_of_unat del: of_nat_add)
next
  case (four b1 b2 b3 k m n p)
  then have "65536 \<le> c" by auto
  with four base64_digits(6-9) [of m n p k] show ?thesis
    by (simp add: encode_char_def byte_of_unat del: of_nat_add)
qed

lemma utf8_next_scalar: "utf8_next b bs = (Some c, r) \<Longrightarrow> scalar_value c"
  unfolding scalar_value_def
proof (erule utf8_next_cases, goal_cases)
  case (3 b1 b2 k m n)
  then consider "k < 13" | "k = 13" "m < 32" | "14 \<le> k" by linarith
  then show ?case using 3 by cases auto
next
  case (4 b1 b2 b3 k m n p)
  then consider "k = 0" "16 \<le> m" | "1 \<le> k" "k < 4" | "k = 4" "m < 16" by linarith
  then show ?case using 4 by cases auto
qed auto

text \<open>Text that was decoded has exactly the bytes it was decoded from.\<close>

lemma as_bytes_from_utf8: "from_utf8 bs = Some s \<Longrightarrow> as_bytes s = bs"
proof (induction bs arbitrary: s rule: from_utf8.induct)
  case 1
  then show ?case by (simp add: as_bytes_def)
next
  case (2 b bs)
  obtain v r where n: "utf8_next b bs = (v, r)" by fastforce
  with "2.prems" obtain c t where "v = Some c" "from_utf8 r = Some t" "s = c # t"
    by (auto split: option.splits)
  with "2.IH" n show ?case by (simp add: as_bytes_def utf8_next_encode [of b bs c r])
qed

text \<open>And every text is decoded from its own bytes.\<close>

lemma unat_byte_of_nat: "n < 256 \<Longrightarrow> unat (word_of_nat n :: byte) = n"
  by (simp add: unat_of_nat)

lemma utf8_next_of_encode:
  assumes "scalar_value c"
  shows "\<exists>b bs. encode_char c = b # bs \<and> (\<forall>r. utf8_next b (bs @ r) = (Some c, r))"
proof -
  note defs = encode_char_def utf8_next_def Let_def in_range_def unat_byte_of_nat
  have c: "c < 55296 \<or> 57344 \<le> c" "c < 1114112" using assms by (auto simp: scalar_value_def)
  consider "c < 128" | "128 \<le> c" "c < 2048" | "2048 \<le> c" "c < 65536" | "65536 \<le> c" by linarith
  then show ?thesis
  proof cases
    case 1
    then show ?thesis by (simp add: defs)
  next
    case 2
    define k m where "k = c div 64" and "m = c mod 64"
    with 2 have "c = k * 64 + m" "2 \<le> k" "k < 32" "m < 64" by auto
    with 2 show ?thesis by (simp add: defs del: of_nat_add)
  next
    case 3
    define k m n where "k = c div 4096" and "m = c div 64 mod 64" and "n = c mod 64"
    have km: "c = k * 4096 + m * 64 + n" "m < 64" "n < 64"
      unfolding k_def m_def n_def by (rule base64_join) simp_all
    have "k < 16" using 3 km by linarith
    moreover have "32 \<le> m" if "k = 0" using that 3 km by linarith
    moreover have "m \<le> 31" if "k = 13" using that c(1) km by linarith
    ultimately have b: "k < 16" "k = 0 \<longrightarrow> 32 \<le> m" "k = 13 \<longrightarrow> m \<le> 31" by blast+
    have e: "encode_char c = map word_of_nat [224 + k, 128 + m, 128 + n]"
      using 3 by (simp add: encode_char_def k_def m_def n_def)
    have u: "unat (word_of_nat (224 + k) :: byte) = 224 + k" "unat (word_of_nat (128 + m) :: byte) = 128 + m"
      "unat (word_of_nat (128 + n) :: byte) = 128 + n"
      using km b by (simp_all only: unat_byte_of_nat)
    have "utf8_next (word_of_nat (224 + k)) ([word_of_nat (128 + m), word_of_nat (128 + n)] @ r) = (Some c, r)" for r
      using km(2,3) b by (simp add: utf8_next_def in_range_def Let_def u km(1) del: of_nat_add)
    then show ?thesis unfolding e list.map by blast
  next
    case 4
    define k m n p where "k = c div 262144" and "m = c div 4096 mod 64"
      and "n = c div 64 mod 64" and "p = c mod 64"
    have km: "c = k * 262144 + m * 4096 + n * 64 + p" "m < 64" "n < 64" "p < 64"
      unfolding k_def m_def n_def p_def by (rule base64_join) simp_all
    have "k < 5" using c(2) km by linarith
    moreover have "16 \<le> m" if "k = 0" using that 4 km by linarith
    moreover have "m \<le> 15" if "k = 4" using that c(2) km by linarith
    ultimately have b: "k < 5" "k = 0 \<longrightarrow> 16 \<le> m" "k = 4 \<longrightarrow> m \<le> 15" by blast+
    have e: "encode_char c = map word_of_nat [240 + k, 128 + m, 128 + n, 128 + p]"
      using 4 by (simp add: encode_char_def k_def m_def n_def p_def)
    have u: "unat (word_of_nat (240 + k) :: byte) = 240 + k" "unat (word_of_nat (128 + m) :: byte) = 128 + m"
      "unat (word_of_nat (128 + n) :: byte) = 128 + n" "unat (word_of_nat (128 + p) :: byte) = 128 + p"
      using km b by (simp_all only: unat_byte_of_nat)
    have "utf8_next (word_of_nat (240 + k))
        ([word_of_nat (128 + m), word_of_nat (128 + n), word_of_nat (128 + p)] @ r) = (Some c, r)" for r
      using km(2-4) b by (simp add: utf8_next_def in_range_def Let_def u km(1) del: of_nat_add)
    then show ?thesis unfolding e list.map by blast
  qed
qed

lemma from_utf8_as_bytes: "list_all scalar_value s \<Longrightarrow> from_utf8 (as_bytes s) = Some s"
proof (induction s)
  case Nil
  then show ?case by (simp add: as_bytes_def)
next
  case (Cons c s)
  then obtain b bs where "encode_char c = b # bs" "utf8_next b (bs @ as_bytes s) = (Some c, as_bytes s)"
    using utf8_next_of_encode [of c] by auto
  with Cons show ?case by (simp add: as_bytes_def)
qed

lemma from_utf8_scalar: "from_utf8 bs = Some s \<Longrightarrow> list_all scalar_value s"
proof (induction bs arbitrary: s rule: from_utf8.induct)
  case (2 b bs)
  obtain v r where n: "utf8_next b bs = (v, r)" by fastforce
  with "2.prems" obtain c t where "v = Some c" "from_utf8 r = Some t" "s = c # t"
    by (auto split: option.splits)
  with "2.IH" n utf8_next_scalar [of b bs c r] show ?case by simp
qed simp

subsection \<open>Characters, trimming, splitting\<close>

definition is_whitespace :: "nat \<Rightarrow> bool" where
  "is_whitespace c \<longleftrightarrow> 9 \<le> c \<and> c \<le> 13 \<or> c = 32 \<or> c = 133 \<or> c = 160 \<or> c = 5760
     \<or> 8192 \<le> c \<and> c \<le> 8202 \<or> c = 8232 \<or> c = 8233 \<or> c = 8239 \<or> c = 8287 \<or> c = 12288"

definition to_ascii_lowercase :: "str \<Rightarrow> str" where
  "to_ascii_lowercase s = map (\<lambda>c. if 65 \<le> c \<and> c \<le> 90 then c + 32 else c) s"

definition eq_ignore_ascii_case :: "str \<Rightarrow> str \<Rightarrow> bool" where
  "eq_ignore_ascii_case s t \<longleftrightarrow> to_ascii_lowercase s = to_ascii_lowercase t"

definition starts_with :: "'a list \<Rightarrow> 'a list \<Rightarrow> bool" where
  "starts_with s p \<longleftrightarrow> take (length p) s = p"

definition ends_with :: "'a list \<Rightarrow> 'a list \<Rightarrow> bool" where
  "ends_with s p \<longleftrightarrow> length p \<le> length s \<and> drop (length s - length p) s = p"

definition trim :: "str \<Rightarrow> str" where
  "trim s = rev (dropWhile is_whitespace (rev (dropWhile is_whitespace s)))"

definition split_once :: "nat \<Rightarrow> str \<Rightarrow> (str \<times> str) option" where
  "split_once c s =
     (case dropWhile (\<lambda>x. x \<noteq> c) s of
        [] \<Rightarrow> None
      | _ # rest \<Rightarrow> Some (takeWhile (\<lambda>x. x \<noteq> c) s, rest))"

definition strip_cr :: "str \<Rightarrow> str" where
  "strip_cr l = (if l \<noteq> [] \<and> last l = 13 then butlast l else l)"

lemma split_once_None: "split_once c s = None \<longleftrightarrow> c \<notin> set s"
proof (cases "dropWhile (\<lambda>x. x \<noteq> c) s")
  case Nil
  moreover from Nil have "\<forall>x\<in>set s. x \<noteq> c" by (simp only: dropWhile_eq_Nil_conv)
  ultimately show ?thesis by (auto simp only: split_once_def list.case)
next
  case (Cons x xs)
  then have "\<exists>x\<in>set s. x = c" using dropWhile_eq_Nil_conv [of "\<lambda>x. x \<noteq> c" s] by auto
  with Cons show ?thesis by (simp add: split_once_def)
qed

lemma split_once_Some: "split_once c s = Some (a, b) \<longleftrightarrow> s = a @ c # b \<and> c \<notin> set a"
proof
  assume "split_once c s = Some (a, b)"
  then obtain d where d: "dropWhile (\<lambda>x. x \<noteq> c) s = d # b" and a: "a = takeWhile (\<lambda>x. x \<noteq> c) s"
    by (auto simp: split_once_def split: list.splits)
  from d have "d = c" using hd_dropWhile [of "\<lambda>x. x \<noteq> c" s] by simp
  with d a show "s = a @ c # b \<and> c \<notin> set a"
    using takeWhile_dropWhile_id [of "\<lambda>x. x \<noteq> c" s] by (auto dest: set_takeWhileD)
next
  assume "s = a @ c # b \<and> c \<notin> set a"
  then have s: "s = a @ c # b" and "\<forall>x\<in>set a. x \<noteq> c" by auto
  then show "split_once c s = Some (a, b)"
    by (simp add: split_once_def s)
qed

lemma split_once_shorter: "split_once c s = Some (a, b) \<Longrightarrow> length a < length s \<and> length b < length s"
  by (auto simp: split_once_Some)

text \<open>\<open>str::lines\<close>: the pieces that end in a line feed, without it and without a carriage
return before it; a last piece without a line feed is kept as it is.\<close>

function lines :: "str \<Rightarrow> str list" where
  "lines s =
     (if s = [] then []
      else case split_once 10 s of
          None \<Rightarrow> [s]
        | Some (l, rest) \<Rightarrow> strip_cr l # lines rest)"
  by pat_completeness auto
termination
  by (relation "measure length") (auto dest: split_once_shorter)

text \<open>\<open>str::split\<close> on a character: at least one piece.\<close>

function split_char :: "nat \<Rightarrow> str \<Rightarrow> str list" where
  "split_char c s =
     (case split_once c s of
        None \<Rightarrow> [s]
      | Some (l, rest) \<Rightarrow> l # split_char c rest)"
  by pat_completeness auto
termination
  by (relation "measure (\<lambda>(c, s). length s)") (auto dest: split_once_shorter)

declare lines.simps [simp del] split_char.simps [simp del]

lemma split_char_none: "c \<notin> set s \<Longrightarrow> split_char c s = [s]"
  by (simp add: split_char.simps [of c s] split_once_None [THEN iffD2])

lemma split_char_cons: "c \<notin> set a \<Longrightarrow> split_char c (a @ c # b) = a # split_char c b"
  by (simp add: split_char.simps [of c "a @ c # b"] split_once_Some [THEN iffD2])

lemma lines_cons: "10 \<notin> set l \<Longrightarrow> lines (l @ 10 # rest) = strip_cr l # lines rest"
  by (simp add: lines.simps [of "l @ 10 # rest"] split_once_Some [THEN iffD2])

lemma lines_last: "10 \<notin> set l \<Longrightarrow> lines l = (if l = [] then [] else [l])"
  by (simp add: lines.simps [of l] split_once_None [THEN iffD2])

lemma trim_plain:
  "s = [] \<or> \<not> is_whitespace (hd s) \<and> \<not> is_whitespace (last s) \<Longrightarrow> trim s = s"
proof (cases s rule: rev_cases)
  case (snoc t x)
  assume "s = [] \<or> \<not> is_whitespace (hd s) \<and> \<not> is_whitespace (last s)"
  with snoc have "\<not> is_whitespace (hd s)" "\<not> is_whitespace x" by auto
  moreover from this have "dropWhile is_whitespace s = s" using snoc by (cases t) auto
  ultimately show ?thesis using snoc by (simp add: trim_def)
qed (simp add: trim_def)

subsection \<open>Unsigned integers\<close>

text \<open>\<open>Display\<close> of an unsigned integer, and \<open>FromStr\<close>: an optional plus sign, then at least
one digit, then nothing else, and the value below the bound of the type.\<close>

fun show_nat :: "nat \<Rightarrow> str" where
  "show_nat n = (if n < 10 then [48 + n] else show_nat (n div 10) @ [48 + n mod 10])"

declare show_nat.simps [simp del]

fun digits_value :: "nat \<Rightarrow> str \<Rightarrow> nat option" where
  "digits_value acc [] = Some acc"
| "digits_value acc (c # s) =
     (if 48 \<le> c \<and> c \<le> 57 then digits_value (acc * 10 + (c - 48)) s else None)"

definition parse_uint :: "nat \<Rightarrow> str \<Rightarrow> nat option" where
  "parse_uint bound s =
     (let d = (if s \<noteq> [] \<and> hd s = 43 then tl s else s)
      in if d = [] then None
         else case digits_value 0 d of
             None \<Rightarrow> None
           | Some n \<Rightarrow> if n < bound then Some n else None)"

lemma digits_value_append:
  "digits_value a (s @ t) = (case digits_value a s of None \<Rightarrow> None | Some v \<Rightarrow> digits_value v t)"
  by (induction a s rule: digits_value.induct) auto

lemma digits_value_show: "digits_value 0 (show_nat n) = Some n"
proof (induction n rule: show_nat.induct)
  case (1 n)
  then show ?case
    by (cases "n < 10") (simp_all add: show_nat.simps [of n] digits_value_append)
qed

lemma show_nat_digits: "c \<in> set (show_nat n) \<Longrightarrow> 48 \<le> c \<and> c \<le> 57"
proof (induction n rule: show_nat.induct)
  case (1 n)
  then show ?case
    by (cases "n < 10") (auto simp: show_nat.simps [of n])
qed

lemma show_nat_nonempty [simp]: "show_nat n \<noteq> []"
  by (simp add: show_nat.simps [of n])

lemma show_nat_hd: "48 \<le> hd (show_nat n) \<and> hd (show_nat n) \<le> 57"
  by (rule show_nat_digits [of _ n]) simp

lemma show_nat_last: "48 \<le> last (show_nat n) \<and> last (show_nat n) \<le> 57"
  by (rule show_nat_digits [of _ n]) simp

lemma show_nat_hd_zero: "hd (show_nat n) = 48 \<longleftrightarrow> n = 0"
proof (induction n rule: show_nat.induct)
  case (1 n)
  then show ?case by (cases "n < 10") (auto simp: show_nat.simps [of n])
qed

lemma length_show_nat: "n < 1000 \<Longrightarrow> length (show_nat n) \<le> 3"
  by (simp add: show_nat.simps [of n] show_nat.simps [of "n div 10"] show_nat.simps [of "n div 10 div 10"])

lemma parse_show [simp]: "n < bound \<Longrightarrow> parse_uint bound (show_nat n) = Some n"
  using show_nat_hd [of n] by (simp add: parse_uint_def digits_value_show Let_def)

lemma parse_uint_bound: "parse_uint bound s = Some n \<Longrightarrow> n < bound"
  by (auto simp: parse_uint_def Let_def split: option.splits if_splits)

lemma inj_show_nat: "show_nat m = show_nat n \<longleftrightarrow> m = n"
  by (metis digits_value_show option.inject)

text \<open>ASCII is encoded as it is.\<close>

lemma utf8_ascii: "list_all (\<lambda>c. c < 128) s \<Longrightarrow> from_utf8_lossy (map word_of_nat s) = s"
  by (induction s) (simp_all add: utf8_next_def unsigned_of_nat take_bit_nat_eq_self Let_def)

end
