(* ===== verification/Rust_Net.thy ===== *)
theory Rust_Net
  imports Rust_Str
begin

section \<open>Addresses of the Rust standard library\<close>

text \<open>
  \<open>std::net\<close> as the program uses it. An \<open>Ipv4Addr\<close> is its four octets, \<open>u32_of_ipv4\<close> is
  \<open>u32::from\<close> (big-endian); an \<open>Ipv6Addr\<close> is its 128 bits. The classification predicates
  are those of the standard library (\<open>is_private\<close>, \<open>is_loopback\<close>, \<open>is_link_local\<close>,
  \<open>is_multicast\<close>, \<open>is_unspecified\<close>), and \<open>show_ip\<close> is \<open>Display\<close>. A \<open>SocketAddr\<close> is an
  address and a port; flow label and scope are not used by the program.
\<close>

unbundle bit_operations_syntax

datatype ipv4addr = Ipv4Addr byte byte byte byte

datatype ipv6addr = Ipv6Addr "128 word"

datatype ip_addr = V4 ipv4addr | V6 ipv6addr

record socket_addr =
  sa_ip :: ip_addr
  sa_port :: u16

fun octets :: "ipv4addr \<Rightarrow> byte list" where
  "octets (Ipv4Addr a b c d) = [a, b, c, d]"

fun octets6 :: "ipv6addr \<Rightarrow> byte list" where
  "octets6 (Ipv6Addr w) = map (\<lambda>i. ucast (drop_bit (8 * i) w)) (rev [0..<16])"

fun segments6 :: "ipv6addr \<Rightarrow> u16 list" where
  "segments6 (Ipv6Addr w) = map (\<lambda>i. ucast (drop_bit (16 * i) w)) (rev [0..<8])"

fun u32_of_ipv4 :: "ipv4addr \<Rightarrow> u32" where
  "u32_of_ipv4 (Ipv4Addr a b c d) =
     push_bit 24 (ucast a) OR push_bit 16 (ucast b) OR push_bit 8 (ucast c) OR ucast d"

definition ipv4_of_u32 :: "u32 \<Rightarrow> ipv4addr" where
  "ipv4_of_u32 w =
     Ipv4Addr (ucast (drop_bit 24 w)) (ucast (drop_bit 16 w)) (ucast (drop_bit 8 w)) (ucast w)"

definition ipv6_of_octets :: "byte list \<Rightarrow> ipv6addr" where
  "ipv6_of_octets xs = Ipv6Addr (foldl (\<lambda>w b. push_bit 8 w OR ucast b) 0 xs)"

lemma next_octet: "push_bit 8 (drop_bit (8 + m) w) OR ucast (ucast (drop_bit m w) :: byte) = drop_bit m w" for w :: "128 word"
proof (rule bit_word_eqI)
  fix i assume "i < LENGTH(128)"
  show "bit (push_bit 8 (drop_bit (8 + m) w) OR ucast (ucast (drop_bit m w) :: byte)) i = bit (drop_bit m w) i"
  proof (cases "i < 8")
    case False
    then obtain k where "i = 8 + k" using le_Suc_ex not_less by blast
    then show ?thesis by (auto simp: bit_simps ac_simps dest: bit_imp_le_length)
  qed (auto simp: bit_simps)
qed

lemma foldl_octets:
  "foldl (\<lambda>w b. push_bit 8 w OR ucast b) (drop_bit (8 * n) w)
     (map (\<lambda>i. ucast (drop_bit (8 * i) w) :: byte) (rev [0..<n])) = (w :: 128 word)"
proof (induction n)
  case (Suc n)
  have "push_bit 8 (drop_bit (8 * Suc n) w) OR ucast (ucast (drop_bit (8 * n) w) :: byte) = drop_bit (8 * n) w"
    using next_octet [of "8 * n" w] by simp
  with Suc show ?case by simp
qed simp

lemma octets6_inverse [simp]: "ipv6_of_octets (octets6 ip) = ip"
proof (cases ip)
  case (Ipv6Addr w)
  have "drop_bit (8 * 16) w = 0" by (rule bit_word_eqI) (auto simp: bit_simps dest: bit_imp_le_length)
  with foldl_octets [of 16 w] Ipv6Addr show ?thesis
    by (simp only: ipv6_of_octets_def octets6.simps)
qed

subsection \<open>Classification\<close>

definition broadcast4 :: ipv4addr where
  "broadcast4 = Ipv4Addr 255 255 255 255"

fun is_private4 :: "ipv4addr \<Rightarrow> bool" where
  "is_private4 (Ipv4Addr a b c d) \<longleftrightarrow>
     a = 10 \<or> a = 172 \<and> 16 \<le> b \<and> b \<le> 31 \<or> a = 192 \<and> b = 168"

fun is_loopback4 :: "ipv4addr \<Rightarrow> bool" where
  "is_loopback4 (Ipv4Addr a b c d) \<longleftrightarrow> a = 127"

fun is_link_local4 :: "ipv4addr \<Rightarrow> bool" where
  "is_link_local4 (Ipv4Addr a b c d) \<longleftrightarrow> a = 169 \<and> b = 254"

fun is_multicast4 :: "ipv4addr \<Rightarrow> bool" where
  "is_multicast4 (Ipv4Addr a b c d) \<longleftrightarrow> 224 \<le> a \<and> a \<le> 239"

fun is_unspecified4 :: "ipv4addr \<Rightarrow> bool" where
  "is_unspecified4 (Ipv4Addr a b c d) \<longleftrightarrow> a = 0 \<and> b = 0 \<and> c = 0 \<and> d = 0"

fun is_multicast6 :: "ipv6addr \<Rightarrow> bool" where
  "is_multicast6 (Ipv6Addr w) \<longleftrightarrow> drop_bit 120 w = 255"

fun is_loopback6 :: "ipv6addr \<Rightarrow> bool" where
  "is_loopback6 (Ipv6Addr w) \<longleftrightarrow> w = 1"

fun is_unicast_link_local6 :: "ipv6addr \<Rightarrow> bool" where
  "is_unicast_link_local6 (Ipv6Addr w) \<longleftrightarrow> drop_bit 118 w = 1018"

definition is_ipv4 :: "socket_addr \<Rightarrow> bool" where
  "is_ipv4 a = (case sa_ip a of V4 _ \<Rightarrow> True | V6 _ \<Rightarrow> False)"

subsection \<open>Printing and parsing\<close>

fun show_ipv4 :: "ipv4addr \<Rightarrow> str" where
  "show_ipv4 (Ipv4Addr a b c d) =
     show_nat (unat a) @ lit ''.'' @ show_nat (unat b) @ lit ''.'' @
     show_nat (unat c) @ lit ''.'' @ show_nat (unat d)"

fun show_hex :: "nat \<Rightarrow> str" where
  "show_hex n = (let d = n mod 16; c = (if d < 10 then 48 + d else 87 + d)
                 in if n < 16 then [c] else show_hex (n div 16) @ [c])"

declare show_hex.simps [simp del]

text \<open>The longest run of zero segments, the first one on a tie, as a pair of start and
length; the scan carries the current run.\<close>

fun zero_run :: "nat \<Rightarrow> u16 list \<Rightarrow> nat \<times> nat \<Rightarrow> nat \<times> nat \<Rightarrow> nat \<times> nat" where
  "zero_run i [] cur longest = longest"
| "zero_run i (s # ss) cur longest =
     (if s = 0
      then let cur' = (if snd cur = 0 then i else fst cur, Suc (snd cur))
           in zero_run (Suc i) ss cur' (if snd longest < snd cur' then cur' else longest)
      else zero_run (Suc i) ss (0, 0) longest)"

fun show_segments :: "u16 list \<Rightarrow> str" where
  "show_segments [] = []"
| "show_segments [s] = show_hex (unat s)"
| "show_segments (s # ss) = show_hex (unat s) @ lit '':'' @ show_segments ss"

definition show_ipv6 :: "ipv6addr \<Rightarrow> str" where
  "show_ipv6 ip =
     (let segs = segments6 ip; os = octets6 ip in
      if take 6 segs = [0, 0, 0, 0, 0, 65535]
      then lit ''::ffff:'' @ show_ipv4 (Ipv4Addr (os ! 12) (os ! 13) (os ! 14) (os ! 15))
      else let (start, n) = zero_run 0 segs (0, 0) (0, 0) in
           if 1 < n
           then show_segments (take start segs) @ lit ''::'' @ show_segments (drop (start + n) segs)
           else show_segments segs)"

fun show_ip :: "ip_addr \<Rightarrow> str" where
  "show_ip (V4 ip) = show_ipv4 ip"
| "show_ip (V6 ip) = show_ipv6 ip"

text \<open>\<open>Ipv4Addr::from_str\<close>: four decimal octets of one to three digits without a leading zero.\<close>

definition parse_octet :: "str \<Rightarrow> byte option" where
  "parse_octet s =
     (if s = [] \<or> 3 < length s \<or> (1 < length s \<and> hd s = 48) then None
      else case digits_value 0 s of
          None \<Rightarrow> None
        | Some n \<Rightarrow> if n < 256 then Some (word_of_nat n) else None)"

definition parse_ipv4 :: "str \<Rightarrow> ipv4addr option" where
  "parse_ipv4 s =
     (case map parse_octet (split_char 46 s) of
        [Some a, Some b, Some c, Some d] \<Rightarrow> Some (Ipv4Addr a b c d)
      | _ \<Rightarrow> None)"

subsection \<open>Lemmas\<close>

lemma ipv4_of_u32_of_ipv4 [simp]: "ipv4_of_u32 (u32_of_ipv4 ip) = ip"
proof (cases ip)
  case (Ipv4Addr a b c d)
  have "ucast (drop_bit 24 (u32_of_ipv4 ip)) = a" "ucast (drop_bit 16 (u32_of_ipv4 ip)) = b"
    "ucast (drop_bit 8 (u32_of_ipv4 ip)) = c" "ucast (u32_of_ipv4 ip) = d"
    by (rule bit_word_eqI; auto simp: Ipv4Addr bit_simps dest: bit_imp_le_length)+
  then show ?thesis by (simp add: ipv4_of_u32_def Ipv4Addr)
qed

lemma u32_of_ipv4_of_u32 [simp]: "u32_of_ipv4 (ipv4_of_u32 w) = w"
proof (rule bit_word_eqI)
  fix n assume "n < LENGTH(32)"
  then consider "n < 8" | "8 \<le> n" "n < 16" | "16 \<le> n" "n < 24" | "24 \<le> n" "n < 32" by fastforce
  then show "bit (u32_of_ipv4 (ipv4_of_u32 w)) n = bit w n"
    by cases (auto simp: ipv4_of_u32_def bit_simps)
qed

lemma u32_of_ipv4_inject [simp]: "u32_of_ipv4 x = u32_of_ipv4 y \<longleftrightarrow> x = y"
  by (metis ipv4_of_u32_of_ipv4)

lemma length_octets [simp]: "length (octets ip) = 4"
  by (cases ip) simp

lemma length_octets6 [simp]: "length (octets6 ip) = 16"
  by (cases ip) simp

lemma parse_octet_show [simp]: "parse_octet (show_nat (unat a)) = Some a"
proof -
  have "length (show_nat (unat a)) \<le> 3"
    using unat_byte_less [of a] by (intro length_show_nat) simp
  moreover have "\<not> (1 < length (show_nat (unat a)) \<and> hd (show_nat (unat a)) = 48)"
    using show_nat_hd_zero [of "unat a"] by (auto simp: show_nat.simps [of 0])
  ultimately show ?thesis
    using unat_byte_less [of a] by (simp add: parse_octet_def digits_value_show)
qed

lemma digits_no_dot [simp]: "46 \<notin> set (show_nat n)"
  using show_nat_digits [of 46 n] by auto

lemma parse_show_ipv4 [simp]: "parse_ipv4 (show_ipv4 ip) = Some ip"
proof (cases ip)
  case (Ipv4Addr a b c d)
  have "split_char 46 (show_ipv4 ip) =
      [show_nat (unat a), show_nat (unat b), show_nat (unat c), show_nat (unat d)]"
    by (simp add: Ipv4Addr lit_def split_char_cons split_char_none)
  then show ?thesis by (simp add: parse_ipv4_def Ipv4Addr)
qed

text \<open>Addresses are ordered as their octets are, which is the order of the integers.\<close>

instantiation ipv4addr :: linorder
begin

definition less_eq_ipv4addr :: "ipv4addr \<Rightarrow> ipv4addr \<Rightarrow> bool" where
  "x \<le> y \<longleftrightarrow> u32_of_ipv4 x \<le> u32_of_ipv4 y"

definition less_ipv4addr :: "ipv4addr \<Rightarrow> ipv4addr \<Rightarrow> bool" where
  "x < y \<longleftrightarrow> u32_of_ipv4 x < u32_of_ipv4 y"

instance
  by standard (auto simp: less_eq_ipv4addr_def less_ipv4addr_def order.strict_iff_order)

end

text \<open>An IPv4 address as a field of a packet buffer.\<close>

definition ipv4_at :: "byte list \<Rightarrow> nat \<Rightarrow> ipv4addr" where
  "ipv4_at xs i = Ipv4Addr (xs ! i) (xs ! (i + 1)) (xs ! (i + 2)) (xs ! (i + 3))"

interpretation ipv4: packet_field ipv4_at octets 4
proof unfold_locales
  fix xs ys :: "byte list" and a b :: nat
  assume eq: "xs ! (a + j) = ys ! (b + j)" if "j < 4" for j
  show "ipv4_at xs a = ipv4_at ys b"
    using eq [of 0] eq [of 1] eq [of 2] eq [of 3] by (simp add: ipv4_at_def)
next
  fix v show "ipv4_at (octets v) 0 = v"
    by (cases v) (simp add: ipv4_at_def)
next
  fix xs :: "byte list" and a assume "a + 4 \<le> length xs"
  then show "octets (ipv4_at xs a) = take 4 (drop a xs)"
    by (intro nth_equalityI) (auto simp: ipv4_at_def nth_Cons' less_Suc_eq numeral_eq_Suc)
qed simp

end
