(* ===== verification/Config.thy ===== *)
theory Config
  imports Rust_Net
begin

section \<open>Configuration (src/src/config.rs)\<close>

text \<open>
  The typed configuration and its validation, field by field and check by check, and the
  parsing of the outbound proxy URI. \<open>Url::parse\<close> belongs to the \<open>url\<close> crate: it is the
  argument \<open>parse_url\<close>, and the parts of a URL that the code reads are the record \<open>url\<close>.
  The lemmas characterise when a configuration is accepted and what a parsed proxy URI
  guarantees.
\<close>

datatype config_error = Invalid str

datatype dns_mode = Forward | Gateway

datatype hotspot_band = Auto | TwoGhz | FiveGhz

datatype proxy_kind = Direct | Socks5 | HttpConnect | HttpsConnect

datatype tcp_policy = TcpProxy | TcpDirect | TcpDrop

datatype dns_policy = DnsProxy | DnsDirect | DnsDrop

datatype udp_policy = DnsNtpDirectElseDrop | UdpDrop

record proxy_preflight_config =
  pf_enabled :: bool
  pf_target :: socket_addr
  pf_timeout_ms :: u64

record dns_config =
  dns_upstream :: socket_addr
  dns_timeout_ms :: u64
  dns_mode_of :: dns_mode

record hotspot_config =
  hs_ssid :: str
  hs_password :: str
  hs_band :: hotspot_band

record host_endpoint =
  ep_host :: str
  ep_port :: u16

record proxy_config =
  px_kind :: proxy_kind
  px_endpoint :: "host_endpoint option"
  px_username :: "str option"
  px_password :: "str option"
  px_tls_skip_verify :: bool

record transparent_policy =
  pol_tcp :: tcp_policy
  pol_dns :: dns_policy
  pol_udp :: udp_policy
  block_quic_udp_443 :: bool
  bypass_private_lan :: bool
  upstream_proxy_ip :: "ip_addr option"

record local_ports =
  transparent_tcp :: u16
  dns_proxy :: u16

record app_config =
  cfg_hotspot :: hotspot_config
  cfg_outbound_proxy :: proxy_config
  cfg_proxy_preflight :: proxy_preflight_config
  cfg_dns :: dns_config
  cfg_policy :: transparent_policy
  cfg_ports :: local_ports

subsection \<open>Defaults\<close>

definition dns_config_default :: dns_config where
  "dns_config_default =
     \<lparr>dns_upstream = \<lparr>sa_ip = V4 (Ipv4Addr 1 1 1 1), sa_port = 53\<rparr>,
      dns_timeout_ms = 5000,
      dns_mode_of = Forward\<rparr>"

definition transparent_policy_default :: transparent_policy where
  "transparent_policy_default =
     \<lparr>pol_tcp = TcpProxy,
      pol_dns = DnsProxy,
      pol_udp = DnsNtpDirectElseDrop,
      block_quic_udp_443 = True,
      bypass_private_lan = True,
      upstream_proxy_ip = None\<rparr>"

definition proxy_config_direct :: proxy_config where
  "proxy_config_direct =
     \<lparr>px_kind = Direct, px_endpoint = None, px_username = None, px_password = None,
      px_tls_skip_verify = False\<rparr>"

definition with_tls_skip_verify :: "proxy_config \<Rightarrow> bool \<Rightarrow> proxy_config" where
  "with_tls_skip_verify c b = c\<lparr>px_tls_skip_verify := b\<rparr>"

definition is_direct :: "proxy_config \<Rightarrow> bool" where
  "is_direct c \<longleftrightarrow> px_kind c = Direct"

subsection \<open>Validation\<close>

definition validate_preflight :: "proxy_preflight_config \<Rightarrow> (unit, config_error) res" where
  "validate_preflight c =
     (if \<not> pf_enabled c then Ok ()
      else if sa_port (pf_target c) = 0
      then Err (Invalid (lit ''proxy preflight target port must be greater than 0''))
      else if pf_timeout_ms c = 0
      then Err (Invalid (lit ''proxy preflight timeout must be greater than 0''))
      else Ok ())"

definition validate_dns :: "dns_config \<Rightarrow> (unit, config_error) res" where
  "validate_dns c =
     (if sa_port (dns_upstream c) = 0
      then Err (Invalid (lit ''DNS upstream port must be greater than 0''))
      else if dns_timeout_ms c = 0
      then Err (Invalid (lit ''DNS timeout must be greater than 0''))
      else Ok ())"

definition validate_hotspot :: "hotspot_config \<Rightarrow> (unit, config_error) res" where
  "validate_hotspot c =
     (let ssid_len = length (as_bytes (hs_ssid c));
          password_len = length (as_bytes (hs_password c)) in
      if ssid_len = 0 \<or> 32 < ssid_len
      then Err (Invalid (lit ''SSID must be between 1 and 32 bytes''))
      else if \<not> (8 \<le> password_len \<and> password_len \<le> 63)
      then Err (Invalid (lit ''hotspot password must be between 8 and 63 bytes''))
      else Ok ())"

definition validate_endpoint :: "host_endpoint \<Rightarrow> (unit, config_error) res" where
  "validate_endpoint e =
     (if trim (ep_host e) = []
      then Err (Invalid (lit ''endpoint host must not be empty''))
      else if ep_port e = 0
      then Err (Invalid (lit ''endpoint port must be greater than 0''))
      else Ok ())"

definition validate_proxy :: "proxy_config \<Rightarrow> (unit, config_error) res" where
  "validate_proxy c =
     (let endpoint = ok_or (px_endpoint c) (Invalid (lit ''proxy endpoint is required'')) in
      case px_kind c of
        Direct \<Rightarrow>
          if px_endpoint c \<noteq> None
          then Err (Invalid (lit ''direct mode must not include a proxy endpoint''))
          else if px_tls_skip_verify c
          then Err (Invalid (lit ''direct mode cannot use TLS verification options''))
          else Ok ()
      | HttpsConnect \<Rightarrow> attempt endpoint validate_endpoint
      | _ \<Rightarrow>
          attempt endpoint (\<lambda>e. attempt (validate_endpoint e) (\<lambda>_.
            if px_tls_skip_verify c
            then Err (Invalid (lit ''TLS verification options only apply to https-proxy mode''))
            else Ok ())))"

definition validate_ports :: "local_ports \<Rightarrow> (unit, config_error) res" where
  "validate_ports p =
     (if transparent_tcp p = 0 \<or> dns_proxy p = 0
      then Err (Invalid (lit ''local ports must be greater than 0''))
      else if transparent_tcp p = dns_proxy p
      then Err (Invalid (lit ''transparent TCP and DNS ports must differ''))
      else Ok ())"

definition validate_app :: "app_config \<Rightarrow> (unit, config_error) res" where
  "validate_app c =
     attempt (validate_hotspot (cfg_hotspot c)) (\<lambda>_.
     attempt (validate_proxy (cfg_outbound_proxy c)) (\<lambda>_.
     attempt (validate_preflight (cfg_proxy_preflight c)) (\<lambda>_.
     attempt (validate_dns (cfg_dns c)) (\<lambda>_.
     attempt (validate_ports (cfg_ports c)) (\<lambda>_. Ok ())))))"

subsection \<open>The proxy URI\<close>

record url =
  url_scheme :: str
  url_host_str :: "str option"
  url_port_or_known_default :: "u16 option"
  url_username :: str
  url_password :: "str option"
  url_query_pairs :: "(str \<times> str) list"

definition tls_keys :: "str list" where
  "tls_keys = [lit ''tls_skip_verify'', lit ''tls-insecure'', lit ''insecure'']"

definition bool_value :: "str \<Rightarrow> bool option" where
  "bool_value v =
     (if v \<in> set [lit ''1'', lit ''true'', lit ''yes''] then Some True
      else if v \<in> set [lit ''0'', lit ''false'', lit ''no''] then Some False
      else None)"

fun tls_loop :: "bool \<Rightarrow> (str \<times> str) list \<Rightarrow> (bool, config_error) res" where
  "tls_loop enabled [] = Ok enabled"
| "tls_loop enabled ((key, v) # rest) =
     (if key \<notin> set tls_keys then tls_loop enabled rest
      else case bool_value v of
          Some b \<Rightarrow> tls_loop b rest
        | None \<Rightarrow> Err (Invalid (lit ''invalid boolean value for '' @ key @ lit '': '' @ v)))"

definition parse_tls_skip_verify :: "url \<Rightarrow> (bool, config_error) res" where
  "parse_tls_skip_verify u = tls_loop False (url_query_pairs u)"

definition proxy_kind_of_scheme :: "str \<Rightarrow> (proxy_kind, config_error) res" where
  "proxy_kind_of_scheme s =
     (if s = lit ''socks5'' then Ok Socks5
      else if s = lit ''http'' \<or> s = lit ''http-proxy'' then Ok HttpConnect
      else if s = lit ''https'' \<or> s = lit ''https-proxy'' then Ok HttpsConnect
      else Err (Invalid (lit ''unsupported proxy scheme '' @ [39] @ s @ [39])))"

definition proxy_config_from_str ::
  "(str \<Rightarrow> (url, str) res) \<Rightarrow> str \<Rightarrow> (proxy_config, config_error) res" where
  "proxy_config_from_str parse_url v =
     (if eq_ignore_ascii_case v (lit ''direct'') then Ok proxy_config_direct
      else
        attempt (map_err (\<lambda>e. Invalid (lit ''invalid proxy URI: '' @ e)) (parse_url v)) (\<lambda>u.
        attempt (proxy_kind_of_scheme (url_scheme u)) (\<lambda>k.
        attempt (ok_or (url_host_str u) (Invalid (lit ''proxy URI requires a host''))) (\<lambda>h.
        attempt (ok_or (url_port_or_known_default u) (Invalid (lit ''proxy URI requires a port''))) (\<lambda>p.
        attempt (parse_tls_skip_verify u) (\<lambda>skip.
        let config =
          \<lparr>px_kind = k,
           px_endpoint = Some \<lparr>ep_host = h, ep_port = p\<rparr>,
           px_username = (if url_username u \<noteq> [] then Some (url_username u) else None),
           px_password = url_password u,
           px_tls_skip_verify = skip\<rparr>
        in attempt (validate_proxy config) (\<lambda>_. Ok config)))))))"

definition show_endpoint :: "host_endpoint \<Rightarrow> str" where
  "show_endpoint e = ep_host e @ lit '':'' @ show_nat (unat (ep_port e))"

subsection \<open>When a configuration is accepted\<close>

lemma if_err_ok [simp]:
  "(if b then Err e else r) = Ok a \<longleftrightarrow> \<not> b \<and> r = Ok a"
  "(if b then Ok a else r) = Ok a \<longleftrightarrow> b \<or> r = Ok a"
  by auto

lemma validate_preflight_iff:
  "validate_preflight c = Ok () \<longleftrightarrow>
     (pf_enabled c \<longrightarrow> sa_port (pf_target c) \<noteq> 0 \<and> pf_timeout_ms c \<noteq> 0)"
  by (auto simp: validate_preflight_def)

lemma validate_dns_iff:
  "validate_dns c = Ok () \<longleftrightarrow> sa_port (dns_upstream c) \<noteq> 0 \<and> dns_timeout_ms c \<noteq> 0"
  by (simp add: validate_dns_def)

lemma validate_hotspot_iff:
  "validate_hotspot c = Ok () \<longleftrightarrow>
     str_len (hs_ssid c) \<in> {1..32} \<and> str_len (hs_password c) \<in> {8..63}"
  by (auto simp: validate_hotspot_def Let_def str_len_def Suc_le_eq)

lemma validate_endpoint_iff:
  "validate_endpoint e = Ok () \<longleftrightarrow> trim (ep_host e) \<noteq> [] \<and> ep_port e \<noteq> 0"
  by (simp add: validate_endpoint_def)

lemma validate_proxy_iff:
  "validate_proxy c = Ok () \<longleftrightarrow>
     (if px_kind c = Direct then px_endpoint c = None
      else \<exists>e. px_endpoint c = Some e \<and> validate_endpoint e = Ok ()) \<and>
     (px_tls_skip_verify c \<longrightarrow> px_kind c = HttpsConnect)"
  by (cases "px_kind c") (auto simp: validate_proxy_def attempt_eq_Ok)

lemma validate_ports_iff:
  "validate_ports p = Ok () \<longleftrightarrow>
     transparent_tcp p \<noteq> 0 \<and> dns_proxy p \<noteq> 0 \<and> transparent_tcp p \<noteq> dns_proxy p"
  by (simp add: validate_ports_def)

lemmas validate_parts_iff =
  validate_preflight_iff validate_dns_iff validate_hotspot_iff validate_proxy_iff validate_ports_iff

lemma validate_app_parts:
  "validate_app c = Ok () \<longleftrightarrow>
     validate_hotspot (cfg_hotspot c) = Ok () \<and> validate_proxy (cfg_outbound_proxy c) = Ok () \<and>
     validate_preflight (cfg_proxy_preflight c) = Ok () \<and> validate_dns (cfg_dns c) = Ok () \<and>
     validate_ports (cfg_ports c) = Ok ()"
  by (simp add: validate_app_def attempt_eq_Ok)

subsection \<open>The query parameters of the proxy URI\<close>

lemma tls_loop_ok:
  "tls_loop b ps = Ok r \<longleftrightarrow>
     (\<forall>(k, v) \<in> set ps. k \<in> set tls_keys \<longrightarrow> bool_value v \<noteq> None) \<and>
     r = last (b # map (the \<circ> bool_value \<circ> snd) (filter (\<lambda>(k, v). k \<in> set tls_keys) ps))"
  by (induction b ps rule: tls_loop.induct) (auto split: option.splits)

lemma tls_loop_no_panic [panic_free]: "tls_loop b ps \<noteq> Panic"
  by (induction b ps rule: tls_loop.induct) (auto split: option.splits)

lemma from_str_Ok:
  assumes "proxy_config_from_str parse_url v = Ok c"
  shows "validate_proxy c = Ok ()"
  using assms
  by (auto simp: proxy_config_from_str_def attempt_eq_Ok Let_def split: if_splits)
    (simp add: proxy_config_direct_def validate_proxy_iff)

subsection \<open>Properties\<close>

text \<open>Exactly which configurations are accepted: an SSID of 1 to 32 bytes and a password of
  8 to 63 bytes (in UTF-8), an outbound proxy whose endpoint is present if and only if it is not
  direct, with a nonblank host and a port, TLS verification skipped only for an HTTPS proxy, a
  preflight target with a port and a timeout if it is enabled, an upstream resolver with a port
  and a timeout, and two different local ports.\<close>

theorem validate_app_iff:
  "is_ok (validate_app c) \<longleftrightarrow>
     str_len (hs_ssid (cfg_hotspot c)) \<in> {1..32} \<and> str_len (hs_password (cfg_hotspot c)) \<in> {8..63} \<and>
     (case px_endpoint (cfg_outbound_proxy c) of
        None \<Rightarrow> px_kind (cfg_outbound_proxy c) = Direct
      | Some e \<Rightarrow> px_kind (cfg_outbound_proxy c) \<noteq> Direct \<and> trim (ep_host e) \<noteq> [] \<and> ep_port e \<noteq> 0) \<and>
     \<not> (px_tls_skip_verify (cfg_outbound_proxy c) \<and> px_kind (cfg_outbound_proxy c) \<noteq> HttpsConnect) \<and>
     \<not> (pf_enabled (cfg_proxy_preflight c) \<and>
        (sa_port (pf_target (cfg_proxy_preflight c)) = 0 \<or> pf_timeout_ms (cfg_proxy_preflight c) = 0)) \<and>
     sa_port (dns_upstream (cfg_dns c)) \<noteq> 0 \<and> dns_timeout_ms (cfg_dns c) \<noteq> 0 \<and>
     transparent_tcp (cfg_ports c) \<noteq> 0 \<and> dns_proxy (cfg_ports c) \<noteq> 0 \<and>
     transparent_tcp (cfg_ports c) \<noteq> dns_proxy (cfg_ports c)"
proof -
  have "is_ok (validate_app c) \<longleftrightarrow> validate_app c = Ok ()" by (simp add: is_ok_iff)
  then show ?thesis
    by (auto simp: validate_app_parts validate_parts_iff validate_endpoint_iff split: option.splits if_splits)
qed

text \<open>C8: What a proxy URI means. For a URI other than the word direct that the URL parser accepts,
  the result is a configuration exactly when the scheme is one of the five known ones, there are
  a nonblank host and a port other than 0, every TLS parameter of the query has a known value, and
  the last of them does not turn verification off for another scheme than HTTPS; it is then the
  configuration with these parts, and without user name if that is empty.\<close>

theorem proxy_uri_meaning:
  assumes "\<not> eq_ignore_ascii_case v (lit ''direct'')" and "parse_url v = Ok u"
  shows "proxy_config_from_str parse_url v = Ok c \<longleftrightarrow>
     (\<exists>kind host port skip.
        map_of [(lit ''socks5'', Socks5), (lit ''http'', HttpConnect), (lit ''http-proxy'', HttpConnect),
          (lit ''https'', HttpsConnect), (lit ''https-proxy'', HttpsConnect)] (url_scheme u) = Some kind \<and>
        url_host_str u = Some host \<and> trim host \<noteq> [] \<and>
        url_port_or_known_default u = Some port \<and> port \<noteq> 0 \<and>
        list_all (\<lambda>(k, x). k \<notin> set tls_keys \<or> bool_value x \<noteq> None) (url_query_pairs u) \<and>
        skip = last (False # map (the \<circ> bool_value \<circ> snd)
                 (filter (\<lambda>(k, x). k \<in> set tls_keys) (url_query_pairs u))) \<and>
        \<not> (skip \<and> kind \<noteq> HttpsConnect) \<and>
        c = \<lparr>px_kind = kind, px_endpoint = Some \<lparr>ep_host = host, ep_port = port\<rparr>,
             px_username = (if url_username u = [] then None else Some (url_username u)),
             px_password = url_password u, px_tls_skip_verify = skip\<rparr>)"
proof -
  have nd: "proxy_kind_of_scheme s \<noteq> Ok Direct" for s by (simp add: proxy_kind_of_scheme_def)
  have known: "map_of [(lit ''socks5'', Socks5), (lit ''http'', HttpConnect), (lit ''http-proxy'', HttpConnect),
      (lit ''https'', HttpsConnect), (lit ''https-proxy'', HttpsConnect)] s = Some kind \<longleftrightarrow>
      proxy_kind_of_scheme s = Ok kind" for s kind
    by (simp add: proxy_kind_of_scheme_def)
  have tls: "parse_tls_skip_verify u = Ok skip \<longleftrightarrow>
      list_all (\<lambda>(k, x). k \<notin> set tls_keys \<or> bool_value x \<noteq> None) (url_query_pairs u) \<and>
      skip = last (False # map (the \<circ> bool_value \<circ> snd)
                 (filter (\<lambda>(k, x). k \<in> set tls_keys) (url_query_pairs u)))" for skip
    unfolding parse_tls_skip_verify_def tls_loop_ok by (auto simp: list_all_iff)
  show ?thesis
    unfolding known using assms
    by (auto simp: proxy_config_from_str_def attempt_eq_Ok Let_def validate_proxy_iff
        validate_endpoint_iff tls nd simp del: last.simps split: if_splits)
qed

theorem proxy_uri_meaning_witness:
  "proxy_config_from_str
     (\<lambda>_. Ok \<lparr>url_scheme = lit ''https-proxy'', url_host_str = Some (lit ''h''),
        url_port_or_known_default = Some 8443, url_username = [], url_password = None,
        url_query_pairs = [(lit ''x'', lit ''y''), (lit ''insecure'', lit ''1'')]\<rparr>)
     (lit ''https-proxy://h:8443?x=y&insecure=1'') =
   Ok \<lparr>px_kind = HttpsConnect, px_endpoint = Some \<lparr>ep_host = lit ''h'', ep_port = 8443\<rparr>,
       px_username = None, px_password = None, px_tls_skip_verify = True\<rparr>"
proof -
  have a: "\<not> eq_ignore_ascii_case (lit ''https-proxy://h:8443?x=y&insecure=1'') (lit ''direct'')"
    by code_simp
  have b: "trim (lit ''h'') \<noteq> []" by code_simp
  have c: "list_all (\<lambda>(k, x). k \<notin> set tls_keys \<or> bool_value x \<noteq> None)
      [(lit ''x'', lit ''y''), (lit ''insecure'', lit ''1'')]" by code_simp
  have d: "last (False # map (the \<circ> bool_value \<circ> snd)
      (filter (\<lambda>(k, x). k \<in> set tls_keys) [(lit ''x'', lit ''y''), (lit ''insecure'', lit ''1'')])) = True"
    by code_simp
  have e: "map_of [(lit ''socks5'', Socks5), (lit ''http'', HttpConnect), (lit ''http-proxy'', HttpConnect),
      (lit ''https'', HttpsConnect), (lit ''https-proxy'', HttpsConnect)] (lit ''https-proxy'') = Some HttpsConnect"
    by (simp add: lit_def)
  show ?thesis
    by (rule proxy_uri_meaning [OF a, THEN iffD2]) (rule refl, use b c d e in auto)
qed

end
