(* ===== verification/Hotspot.thy ===== *)
theory Hotspot
  imports Config "HOL-Library.Product_Lexorder"
begin

section \<open>The hotspot network (src/src/hotspot.rs)\<close>

text \<open>
  The private network of the hotspot: its CIDR arithmetic on 32-bit words, and how the
  program finds its interface, from the list of adapters of the Windows API or from the
  output of the PowerShell fallback. \<open>GetAdaptersAddresses\<close> is the argument of the native
  discovery: the result of each call. The lemmas relate membership in a subnet to an address
  range, and show that both ways of discovery give a subnet that contains its gateway.
\<close>

unbundle bit_operations_syntax

record ipv4_cidr =
  cidr_address :: ipv4addr
  cidr_prefix_len :: u8

record hotspot_runtime =
  rt_interface_index :: u32
  rt_gateway_ip :: ip_addr
  rt_subnet :: ipv4_cidr

datatype hotspot_status = Stopped | Running | Unknown

record hotspot_access_point =
  ap_ssid :: str

subsection \<open>CIDR arithmetic\<close>

definition cidr_mask :: "u8 \<Rightarrow> u32" where
  "cidr_mask p =
     (let prefix_len = min (unat p) 32
      in if prefix_len = 0 then 0 else push_bit (32 - prefix_len) (- 1))"

definition cidr_contains :: "ipv4_cidr \<Rightarrow> ipv4addr \<Rightarrow> bool" where
  "cidr_contains c ip =
     (let m = cidr_mask (cidr_prefix_len c);
          network = u32_of_ipv4 (cidr_address c) AND m;
          candidate = u32_of_ipv4 ip AND m
      in network = candidate)"

definition network_address :: "ipv4addr \<Rightarrow> u8 \<Rightarrow> ipv4addr" where
  "network_address ip p = ipv4_of_u32 (u32_of_ipv4 ip AND cidr_mask p)"

subsection \<open>The output of the PowerShell fallback\<close>

datatype hotspot_error =
    NoActiveInterface
  | MissingIndex | ParseIndex
  | MissingGateway | ParseGateway
  | MissingPrefix | ParsePrefix
  | ExtraFields
  | AdaptersFailed u32
  | NoNativeInterface
  | AdaptersOverflow

definition first_line :: "str \<Rightarrow> str option" where
  "first_line output = find (\<lambda>line. line \<noteq> []) (map trim (lines output))"

definition parse_hotspot_runtime :: "str \<Rightarrow> (hotspot_runtime, hotspot_error) res" where
  "parse_hotspot_runtime output =
     attempt (ok_or (first_line output) NoActiveInterface) (\<lambda>line.
     let parts = split_char 124 line in
     attempt (ok_or (get_at parts 0) MissingIndex) (\<lambda>s0.
     attempt (ok_or (parse_uint (2 ^ 32) s0) ParseIndex) (\<lambda>index.
     attempt (ok_or (get_at parts 1) MissingGateway) (\<lambda>s1.
     attempt (ok_or (parse_ipv4 s1) ParseGateway) (\<lambda>gateway_ip.
     attempt (ok_or (get_at parts 2) MissingPrefix) (\<lambda>s2.
     attempt (ok_or (parse_uint (2 ^ 8) s2) ParsePrefix) (\<lambda>prefix_len.
     if get_at parts 3 \<noteq> None then Err ExtraFields
     else Ok \<lparr>rt_interface_index = word_of_nat index,
              rt_gateway_ip = V4 gateway_ip,
              rt_subnet = \<lparr>cidr_address = network_address gateway_ip (word_of_nat prefix_len),
                           cidr_prefix_len = word_of_nat prefix_len\<rparr>\<rparr>)))))))"

definition parse_hotspot_status :: "str \<Rightarrow> hotspot_status" where
  "parse_hotspot_status output =
     (let state = (case first_line output of Some l \<Rightarrow> l | None \<Rightarrow> lit ''Unknown'') in
      if state = lit ''On'' then Running
      else if state = lit ''Off'' then Stopped
      else Unknown)"

definition parse_hotspot_access_point :: "str \<Rightarrow> hotspot_access_point option" where
  "parse_hotspot_access_point output =
     (case first_line output of
        None \<Rightarrow> None
      | Some ssid \<Rightarrow> Some \<lparr>ap_ssid = ssid\<rparr>)"

definition tethering_band_name :: "hotspot_band \<Rightarrow> str" where
  "tethering_band_name b =
     (case b of
        Auto \<Rightarrow> lit ''Auto''
      | TwoGhz \<Rightarrow> lit ''TwoPointFourGigahertz''
      | FiveGhz \<Rightarrow> lit ''FiveGigahertz'')"

subsection \<open>Native discovery\<close>

text \<open>
  An adapter as the code reads it: its interface type and operational status, its two names,
  its index and its unicast addresses with their prefix lengths (\<open>None\<close> for an address that
  is not IPv4). The constants are those of the Windows headers.
\<close>

record adapter =
  ad_if_type :: u32
  ad_oper_status :: nat
  ad_description :: str
  ad_friendly_name :: str
  ad_if_index :: u32
  ad_unicast :: "(ipv4addr option \<times> u8) list"

datatype adapters_result = BufferOverflow | ApiError u32 | Adapters "adapter list"

definition if_type_ieee80211 :: u32 where
  "if_type_ieee80211 = 71"

definition if_oper_status_up :: nat where
  "if_oper_status_up = 1"

fun str_contains :: "str \<Rightarrow> str \<Rightarrow> bool" where
  "str_contains [] p = (p = [])"
| "str_contains (c # s) p = (starts_with (c # s) p \<or> str_contains s p)"

definition is_usable_hotspot_gateway :: "ipv4addr \<Rightarrow> u8 \<Rightarrow> bool" where
  "is_usable_hotspot_gateway ip p \<longleftrightarrow>
     p \<le> 32 \<and> \<not> is_loopback4 ip \<and> \<not> is_link_local4 ip \<and> \<not> is_unspecified4 ip"

definition is_wifi_direct :: "adapter \<Rightarrow> bool" where
  "is_wifi_direct a \<longleftrightarrow>
     str_contains (ad_description a) (lit ''Wi-Fi Direct'')
     \<or> str_contains (ad_description a) (lit ''WiFi Direct'')
     \<or> str_contains (ad_friendly_name a) (lit ''Wi-Fi Direct'')
     \<or> str_contains (ad_friendly_name a) (lit ''WiFi Direct'')"

fun unicast_candidates :: "u32 \<Rightarrow> (ipv4addr option \<times> u8) list \<Rightarrow> (u32 \<times> u8 \<times> ipv4addr) list" where
  "unicast_candidates i [] = []"
| "unicast_candidates i ((Some ip, p) # us) =
     (if is_usable_hotspot_gateway ip p then [(i, p, ip)] else []) @ unicast_candidates i us"
| "unicast_candidates i ((None, p) # us) = unicast_candidates i us"

fun adapter_candidates :: "adapter list \<Rightarrow> (u32 \<times> u8 \<times> ipv4addr) list" where
  "adapter_candidates [] = []"
| "adapter_candidates (a # as) =
     (if ad_if_type a = if_type_ieee80211 \<and> ad_oper_status a = if_oper_status_up \<and> is_wifi_direct a
      then unicast_candidates (ad_if_index a) (ad_unicast a) else [])
     @ adapter_candidates as"

definition choose_candidate :: "(u32 \<times> u8 \<times> ipv4addr) list \<Rightarrow> (hotspot_runtime, hotspot_error) res" where
  "choose_candidate candidates =
     (case sort_key (\<lambda>(index, prefix_len, _). (index, prefix_len)) candidates of
        (index, prefix_len, gateway_ip) # _ \<Rightarrow>
          Ok \<lparr>rt_interface_index = index,
              rt_gateway_ip = V4 gateway_ip,
              rt_subnet = \<lparr>cidr_address = network_address gateway_ip prefix_len,
                           cidr_prefix_len = prefix_len\<rparr>\<rparr>
      | [] \<Rightarrow> Err NoNativeInterface)"

fun discover_attempts :: "adapters_result list \<Rightarrow> (hotspot_runtime, hotspot_error) res" where
  "discover_attempts [] = Err AdaptersOverflow"
| "discover_attempts (BufferOverflow # rest) = discover_attempts rest"
| "discover_attempts (ApiError e # rest) = Err (AdaptersFailed e)"
| "discover_attempts (Adapters as # rest) = choose_candidate (adapter_candidates as)"

definition discover_native :: "(nat \<Rightarrow> adapters_result) \<Rightarrow> (hotspot_runtime, hotspot_error) res" where
  "discover_native api = discover_attempts (map api [0, 1, 2])"

text \<open>
  \<open>discover_hotspot_private_interface\<close>: the native result, or the native error when there is
  no PowerShell, or what the script prints (\<open>Err\<close> when it cannot be run).
\<close>

definition discover_hotspot ::
  "(hotspot_runtime, hotspot_error) res \<Rightarrow> bool \<Rightarrow> (str, hotspot_error) res \<Rightarrow> (hotspot_runtime, hotspot_error) res" where
  "discover_hotspot native powershell_available output =
     (case native of
        Ok runtime \<Rightarrow> Ok runtime
      | Panic \<Rightarrow> Panic
      | Err e \<Rightarrow>
          if \<not> powershell_available then Err e
          else attempt output parse_hotspot_runtime)"

subsection \<open>Subnets as ranges\<close>

definition host_bits :: "u8 \<Rightarrow> nat" where
  "host_bits p = 32 - min (unat p) 32"

lemma cidr_mask_eq: "cidr_mask p = NOT (mask (host_bits p))"
proof -
  have "NOT (mask k) = push_bit k (- 1 :: u32)" for k
    by (rule bit_word_eqI) (auto simp: bit_simps)
  moreover have "NOT (mask 32) = (0 :: u32)"
    by (rule bit_word_eqI) (auto simp: bit_simps)
  ultimately show ?thesis
    by (auto simp: cidr_mask_def host_bits_def Let_def)
qed

lemma host_bits_le: "host_bits p \<le> 32"
  by (simp add: host_bits_def)

lemma unat_and_not_mask:
  fixes x :: u32
  shows "unat (x AND NOT (mask k)) = unat x - unat x mod 2 ^ k"
proof -
  have "x AND NOT (mask k) = x AND NOT (x AND mask k)"
    by (rule bit_word_eqI) (auto simp: bit_simps)
  also have "\<dots> = x - (x AND mask k)"
    by (rule disjunctive_diff_eq_and_not [symmetric]) (rule bit_word_eqI, auto simp: bit_simps)
  finally have "x AND NOT (mask k) = x - take_bit k x"
    by (simp add: take_bit_eq_mask)
  moreover have "unat (take_bit k x) = unat x mod 2 ^ k"
    by (subst unsigned_take_bit_eq) (simp only: take_bit_eq_mod)
  moreover have "take_bit k x \<le> x"
    using calculation(2) by (simp add: word_le_nat_alt)
  ultimately show ?thesis by (simp add: unat_sub)
qed

lemma div_eq_iff_range:
  fixes x a :: nat
  assumes "0 < d"
  shows "a - a mod d = x - x mod d \<longleftrightarrow> a - a mod d \<le> x \<and> x \<le> a - a mod d + (d - 1)"
proof -
  have e: "y - y mod d = d * (y div d)" for y by (simp add: minus_mod_eq_mult_div)
  have "d * (a div d) = d * (x div d) \<longleftrightarrow> a div d = x div d" using assms by simp
  also have "\<dots> \<longleftrightarrow> d * (a div d) \<le> x \<and> x \<le> d * (a div d) + (d - 1)"
  proof
    assume "a div d = x div d"
    then have "x = d * (a div d) + x mod d" by (metis mult_div_mod_eq)
    moreover have "x mod d \<le> d - 1" using mod_less_divisor [OF assms, of x] by linarith
    ultimately show "d * (a div d) \<le> x \<and> x \<le> d * (a div d) + (d - 1)" by linarith
  next
    assume "d * (a div d) \<le> x \<and> x \<le> d * (a div d) + (d - 1)"
    then have "d * (a div d) \<le> x" "x < d * Suc (a div d)" using assms by auto
    then show "a div d = x div d"
      by (metis div_nat_eqI mult.commute)
  qed
  finally show ?thesis by (simp only: e)
qed

text \<open>The bounds of a subnet, as \<open>cidr_bounds\<close> of the redirector computes them.\<close>

lemma contains_iff_range:
  fixes c :: ipv4_cidr
  defines "low \<equiv> u32_of_ipv4 (cidr_address c) AND cidr_mask (cidr_prefix_len c)"
  shows "cidr_contains c ip \<longleftrightarrow>
    low \<le> u32_of_ipv4 ip \<and> u32_of_ipv4 ip \<le> (low OR NOT (cidr_mask (cidr_prefix_len c)))"
proof -
  define k where "k = host_bits (cidr_prefix_len c)"
  define a where "a = unat (u32_of_ipv4 (cidr_address c))"
  define x where "x = unat (u32_of_ipv4 ip)"
  have low: "unat low = a - a mod 2 ^ k"
    by (simp add: low_def cidr_mask_eq unat_and_not_mask k_def a_def)
  have k: "k \<le> 32" by (simp add: k_def host_bits_le)
  then have m: "unat (mask k :: u32) = 2 ^ k - 1"
    by (subst mask_eq_exp_minus_1 [symmetric]) (auto simp: bit_eq_iff bit_simps)
  have "low AND mask k = 0"
    unfolding low_def cidr_mask_eq k_def by (rule bit_word_eqI) (auto simp: bit_simps)
  then have "unat low AND unat (mask k :: u32) = 0"
    by (metis unsigned_0 unsigned_and_eq)
  then have high: "unat (low OR mask k) = a - a mod 2 ^ k + (2 ^ k - 1)"
    by (simp add: unsigned_or_eq low m flip: disjunctive_add_eq_or)
  have "cidr_contains c ip \<longleftrightarrow> a - a mod 2 ^ k = x - x mod 2 ^ k"
    by (simp add: cidr_contains_def Let_def cidr_mask_eq word_unat_eq_iff unat_and_not_mask
        k_def a_def x_def)
  also have "\<dots> \<longleftrightarrow> unat low \<le> x \<and> x \<le> unat (low OR mask k)"
    unfolding low high by (rule div_eq_iff_range) simp
  finally show ?thesis
    by (simp add: word_le_nat_alt x_def cidr_mask_eq k_def)
qed

lemma contains_network_address:
  "cidr_contains \<lparr>cidr_address = network_address ip p, cidr_prefix_len = p\<rparr> ip"
  by (simp add: cidr_contains_def network_address_def Let_def and.assoc)

lemma contains_sym:
  "cidr_contains \<lparr>cidr_address = x, cidr_prefix_len = p\<rparr> y \<longleftrightarrow>
   cidr_contains \<lparr>cidr_address = y, cidr_prefix_len = p\<rparr> x"
  by (auto simp: cidr_contains_def Let_def)

lemma network_address_idem: "network_address (network_address ip p) p = network_address ip p"
  by (simp add: network_address_def and.assoc)

subsection \<open>Discovery\<close>

definition runtime_of :: "u32 \<times> u8 \<times> ipv4addr \<Rightarrow> hotspot_runtime" where
  "runtime_of = (\<lambda>(index, prefix_len, gateway_ip).
     \<lparr>rt_interface_index = index, rt_gateway_ip = V4 gateway_ip,
      rt_subnet = \<lparr>cidr_address = network_address gateway_ip prefix_len,
                   cidr_prefix_len = prefix_len\<rparr>\<rparr>)"

lemma unicast_candidates_set:
  "c \<in> set (unicast_candidates i us) \<longleftrightarrow>
     (\<exists>ip p. c = (i, p, ip) \<and> (Some ip, p) \<in> set us \<and> is_usable_hotspot_gateway ip p)"
  by (induction i us rule: unicast_candidates.induct) auto

lemma adapter_candidates_set:
  "c \<in> set (adapter_candidates as) \<longleftrightarrow>
     (\<exists>a \<in> set as. ad_if_type a = if_type_ieee80211 \<and> ad_oper_status a = if_oper_status_up \<and>
        is_wifi_direct a \<and> c \<in> set (unicast_candidates (ad_if_index a) (ad_unicast a)))"
  by (induction as) auto

lemma hd_sort_key_least:
  assumes "sort_key f xs = y # ys" and "x \<in> set xs"
  shows "f y \<le> f x"
proof -
  have "sorted (map f (y # ys))" using assms(1) by (metis sorted_sort_key)
  moreover have "x \<in> set (y # ys)" using assms by (metis set_sort)
  ultimately show ?thesis by auto
qed

lemma choose_candidate_Ok:
  assumes "choose_candidate cs = Ok rt"
  obtains i p ip where "(i, p, ip) \<in> set cs" "rt = runtime_of (i, p, ip)"
    and "\<And>j q g. (j, q, g) \<in> set cs \<Longrightarrow> (i, p) \<le> (j, q)"
proof -
  let ?f = "\<lambda>(i, p, _). (i, p)"
  from assms obtain i p ip rest where s: "sort_key ?f cs = (i, p, ip) # rest"
    and rt: "rt = runtime_of (i, p, ip)"
    by (auto simp: choose_candidate_def runtime_of_def split: list.splits)
  from s have "(i, p, ip) \<in> set cs" by (metis list.set_intros(1) set_sort)
  moreover have "(i, p) \<le> (j, q)" if "(j, q, g) \<in> set cs" for j q g
    using hd_sort_key_least [OF s that] by simp
  ultimately show thesis using that rt by blast
qed

lemma choose_candidate_Nil: "is_ok (choose_candidate cs) \<longleftrightarrow> cs \<noteq> []"
proof -
  let ?s = "sort_key (\<lambda>(i, p, _). (i, p)) cs"
  have "?s = [] \<longleftrightarrow> cs = []" using length_sort [of "\<lambda>(i, p, _). (i, p)" cs] by (metis length_0_conv)
  then show ?thesis by (cases ?s) (auto simp: choose_candidate_def split: prod.split)
qed

lemma discover_native_Ok:
  assumes "discover_native api = Ok rt"
  obtains as where "Adapters as \<in> api ` {0, 1, 2}" "choose_candidate (adapter_candidates as) = Ok rt"
proof -
  have "\<exists>as. Adapters as \<in> set rs \<and> choose_candidate (adapter_candidates as) = Ok rt"
    if "discover_attempts rs = Ok rt" for rs
    using that by (induction rs rule: discover_attempts.induct) auto
  from this [of "map api [0, 1, 2]"] assms show thesis
    unfolding discover_native_def by (auto intro: that)
qed

lemma runtime_of_contains:
  "cidr_contains (rt_subnet (runtime_of (i, p, ip))) ip"
  "rt_gateway_ip (runtime_of (i, p, ip)) = V4 ip"
  by (simp_all add: runtime_of_def contains_network_address)

subsection \<open>The lines of the script output\<close>

definition discovery_line :: "u32 \<Rightarrow> ipv4addr \<Rightarrow> u8 \<Rightarrow> str" where
  "discovery_line index ip p =
     show_nat (unat index) @ lit ''|'' @ show_ipv4 ip @ lit ''|'' @ show_nat (unat p)"

lemma show_ipv4_chars: "c \<in> set (show_ipv4 ip) \<Longrightarrow> c = 46 \<or> 48 \<le> c \<and> c \<le> 57"
  by (cases ip) (auto simp: lit_def dest: show_nat_digits)

lemma digits_no_bar: "124 \<notin> set (show_nat n)" "124 \<notin> set (show_ipv4 ip)"
  using show_nat_digits [of 124 n] show_ipv4_chars [of 124 ip] by auto

lemma split_discovery_line:
  "split_char 124 (discovery_line index ip p) =
     [show_nat (unat index), show_ipv4 ip, show_nat (unat p)]"
  by (simp add: discovery_line_def lit_def split_char_cons split_char_none digits_no_bar)

lemma trim_discovery_line: "trim (discovery_line index ip p) = discovery_line index ip p"
proof (rule trim_plain)
  have "hd (discovery_line index ip p) = hd (show_nat (unat index))"
    "last (discovery_line index ip p) = last (show_nat (unat p))"
    by (simp_all add: discovery_line_def lit_def)
  then show "discovery_line index ip p = [] \<or>
      \<not> is_whitespace (hd (discovery_line index ip p)) \<and>
      \<not> is_whitespace (last (discovery_line index ip p))"
    using show_nat_hd [of "unat index"] show_nat_last [of "unat p"] by (auto simp: is_whitespace_def)
qed

lemma first_line_crlf:
  assumes "10 \<notin> set l" "trim l = l" "l \<noteq> []"
  shows "first_line (l @ [13, 10]) = Some l"
  using assms lines_cons [of "l @ [13]" "[]"]
  by (simp add: first_line_def strip_cr_def lines.simps [of "[]"])

lemma discovery_line_first: "first_line (discovery_line index ip p @ [13, 10]) = Some (discovery_line index ip p)"
proof (rule first_line_crlf)
  show "10 \<notin> set (discovery_line index ip p)"
    using show_nat_digits [of 10] show_ipv4_chars [of 10 ip] by (auto simp: discovery_line_def lit_def)
  show "discovery_line index ip p \<noteq> []" by (simp add: discovery_line_def)
qed (rule trim_discovery_line)

lemma parse_discovery_line:
  "parse_hotspot_runtime (discovery_line index ip p @ [13, 10]) = Ok (runtime_of (index, p, ip))"
proof -
  have "unat index < 2 ^ 32" "unat p < 2 ^ 8"
    using unsigned_less [of index, where ?'a = nat] unsigned_less [of p, where ?'a = nat] by simp_all
  then show ?thesis
    by (simp add: parse_hotspot_runtime_def discovery_line_first split_discovery_line get_at_def
        runtime_of_def del: One_nat_def)
qed

lemma parse_runtime_subnet:
  assumes "parse_hotspot_runtime output = Ok rt"
  obtains i p ip where "rt = runtime_of (i, p, ip)"
  using assms by (auto simp: parse_hotspot_runtime_def attempt_eq_Ok Let_def runtime_of_def split: if_splits)

lemma parse_runtime_no_panic [panic_free]: "parse_hotspot_runtime output \<noteq> Panic"
  by (auto simp: parse_hotspot_runtime_def attempt_eq_Panic Let_def)

subsection \<open>Properties\<close>

text \<open>An address is in a subnet exactly when it agrees with the subnet's address in the
  prefix, that is after division by the size of the host part; this holds for every prefix length,
  0 and the ones above 32 (taken as 32) included.\<close>

theorem cidr_contains_iff_prefix:
  "cidr_contains c ip \<longleftrightarrow>
     unat (u32_of_ipv4 (cidr_address c)) div 2 ^ (32 - min (unat (cidr_prefix_len c)) 32) =
     unat (u32_of_ipv4 ip) div 2 ^ (32 - min (unat (cidr_prefix_len c)) 32)"
proof -
  let ?d = "2 ^ host_bits (cidr_prefix_len c) :: nat"
  have "x - x mod ?d = y - y mod ?d \<longleftrightarrow> x div ?d = y div ?d" for x y :: nat
    by (simp add: minus_mod_eq_mult_div)
  then show ?thesis
    by (simp add: cidr_contains_def Let_def cidr_mask_eq word_unat_eq_iff unat_and_not_mask
        host_bits_def)
qed

text \<open>Whichever way the hotspot interface is found, natively or from the output of the
  script, its gateway is an IPv4 address inside the subnet that goes with it, and the address of
  that subnet is the network address; so the redirector's client test accepts the neighbours of
  the gateway.\<close>

theorem discovered_gateway_in_subnet:
  assumes "discover_hotspot (discover_native api) powershell_available output = Ok rt"
  shows "\<exists>ip. rt_gateway_ip rt = V4 ip \<and> cidr_contains (rt_subnet rt) ip \<and>
     cidr_address (rt_subnet rt) = network_address ip (cidr_prefix_len (rt_subnet rt))"
proof -
  have "\<exists>i p ip. rt = runtime_of (i, p, ip)"
  proof (cases "discover_native api")
    case (Ok r)
    then obtain as where "choose_candidate (adapter_candidates as) = Ok r"
      by (rule discover_native_Ok)
    with Ok assms show ?thesis
      by (elim choose_candidate_Ok) (auto simp: discover_hotspot_def)
  next
    case (Err e)
    then obtain s where "parse_hotspot_runtime s = Ok rt"
      using assms by (auto simp: discover_hotspot_def attempt_eq_Ok split: if_splits)
    then show ?thesis by (elim parse_runtime_subnet) blast
  qed (use assms in \<open>simp add: discover_hotspot_def\<close>)
  then show ?thesis
    using runtime_of_contains by (auto simp: runtime_of_def)
qed

theorem discovered_gateway_in_subnet_witness:
  "\<exists>rt ip. discover_hotspot (discover_native (\<lambda>_. ApiError 5)) True
      (Ok (discovery_line 12 (Ipv4Addr 192 168 137 1) 24 @ [13, 10])) = Ok rt \<and>
     rt_gateway_ip rt = V4 ip \<and> cidr_contains (rt_subnet rt) ip"
proof -
  have "discover_hotspot (discover_native (\<lambda>_. ApiError 5)) True
      (Ok (discovery_line 12 (Ipv4Addr 192 168 137 1) 24 @ [13, 10])) =
      Ok (runtime_of (12, 24, Ipv4Addr 192 168 137 1))"
    by (simp add: discover_hotspot_def discover_native_def parse_discovery_line)
  then show ?thesis using discovered_gateway_in_subnet by blast
qed

text \<open>The native discovery picks a usable address of a Wi-Fi Direct adapter that is up, and
  no usable address of such an adapter has a smaller interface index, or the same index and a
  shorter prefix; it fails only when there is none.\<close>

theorem native_discovery_least:
  assumes "discover_native (\<lambda>n. if n < k then BufferOverflow else Adapters as) = r" and "k < 3"
  shows "case r of
      Ok rt \<Rightarrow> (\<exists>p ip. (rt_interface_index rt, p, ip) \<in> set (adapter_candidates as) \<and>
           rt_gateway_ip rt = V4 ip \<and> cidr_prefix_len (rt_subnet rt) = p \<and> is_usable_hotspot_gateway ip p \<and>
           list_all (\<lambda>(j, q, _). (rt_interface_index rt, p) \<le> (j, q)) (adapter_candidates as))
    | Err e \<Rightarrow> e = NoNativeInterface \<and> adapter_candidates as = []
    | Panic \<Rightarrow> False"
proof -
  have "k = 0 \<or> k = 1 \<or> k = 2" using assms(2) by auto
  then have r: "r = choose_candidate (adapter_candidates as)"
    using assms(1) by (auto simp: discover_native_def)
  show ?thesis
  proof (cases r)
    case (Ok rt)
    with r have "choose_candidate (adapter_candidates as) = Ok rt" by simp
    then obtain i p ip where *: "(i, p, ip) \<in> set (adapter_candidates as)" "rt = runtime_of (i, p, ip)"
      "\<And>j q g. (j, q, g) \<in> set (adapter_candidates as) \<Longrightarrow> (i, p) \<le> (j, q)"
      by (rule choose_candidate_Ok) blast
    moreover have "is_usable_hotspot_gateway ip p"
      using *(1) by (auto simp: adapter_candidates_set unicast_candidates_set)
    ultimately show ?thesis using Ok by (auto simp: runtime_of_def list_all_iff)
  next
    case (Err e)
    then have "adapter_candidates as = []" using r choose_candidate_Nil [of "adapter_candidates as"] by auto
    with Err r show ?thesis by (simp add: choose_candidate_def)
  next
    case Panic
    then show ?thesis using r by (auto simp: choose_candidate_def split: list.splits)
  qed
qed

definition sample_adapter :: adapter where
  "sample_adapter =
     \<lparr>ad_if_type = 71, ad_oper_status = 1,
      ad_description = lit ''Microsoft Wi-Fi Direct Virtual Adapter'', ad_friendly_name = lit ''x'',
      ad_if_index = 12, ad_unicast = [(None, 0), (Some (Ipv4Addr 192 168 137 1), 24)]\<rparr>"

theorem native_discovery_least_witness:
  "\<exists>rt. discover_native (\<lambda>n. if n < 1 then BufferOverflow else Adapters [sample_adapter]) = Ok rt \<and>
     rt_gateway_ip rt = V4 (Ipv4Addr 192 168 137 1)"
proof -
  have c: "adapter_candidates [sample_adapter] = [(12, 24, Ipv4Addr 192 168 137 1)]" by code_simp
  obtain r where r: "discover_native (\<lambda>n. if n < 1 then BufferOverflow else Adapters [sample_adapter]) = r"
    by blast
  with native_discovery_least [OF r] c show ?thesis by (cases r) auto
qed

text \<open>The line that the discovery script prints for an interface parses, with its line end,
  to that interface: its index, its gateway, its prefix length and the subnet they give.\<close>

theorem script_line_roundtrip:
  "parse_hotspot_runtime
     (show_nat (unat index) @ lit ''|'' @ show_ipv4 ip @ lit ''|'' @ show_nat (unat p) @ [13, 10]) =
   Ok \<lparr>rt_interface_index = index, rt_gateway_ip = V4 ip,
       rt_subnet = \<lparr>cidr_address = network_address ip p, cidr_prefix_len = p\<rparr>\<rparr>"
  using parse_discovery_line [of index ip p] by (simp add: discovery_line_def runtime_of_def)

end
