(* ===== verification/Adapters.thy ===== *)
theory Adapters
  imports Hotspot
begin

section \<open>Reading the adapter list of Windows (src/src/hotspot.rs)\<close>

text \<open>
  \<open>GetAdaptersAddresses\<close> answers with a linked list of adapters, each with a linked list of unicast
  addresses, in memory the code reads through raw pointers. The memory is a record of partial maps
  from addresses to the structures, 0 is the null pointer, and following a pointer that leads
  nowhere has no result. The walk is a partial function: on a list that runs in a circle it would
  not end.

  The lemmas show that on well-formed lists the walk ends and finds what the list functions of
  \<open>Hotspot\<close> find in the adapters as Windows describes them, and that the names, which are in
  UTF-16, are read as they were written.
\<close>

subsection \<open>Names and addresses\<close>

fun from_utf16_lossy :: "16 word list \<Rightarrow> str" where
  "from_utf16_lossy [] = []"
| "from_utf16_lossy (u # us) =
     (if unat u < 55296 \<or> 57344 \<le> unat u then unat u # from_utf16_lossy us
      else if 56320 \<le> unat u then 65533 # from_utf16_lossy us
      else
        case us of
          [] \<Rightarrow> [65533]
        | v # vs \<Rightarrow>
            if 56320 \<le> unat v \<and> unat v < 57344
            then (65536 + (unat u - 55296) * 1024 + (unat v - 56320)) # from_utf16_lossy vs
            else 65533 # from_utf16_lossy us)"

text \<open>The memory behind the pointer, or \<open>None\<close> for a null pointer.\<close>

definition wide_ptr_to_string :: "16 word list option \<Rightarrow> str" where
  "wide_ptr_to_string v =
     (case v of
        None \<Rightarrow> []
      | Some units \<Rightarrow> from_utf16_lossy (takeWhile (\<lambda>u. u \<noteq> 0) units))"

record sockaddr =
  sd_family :: "16 word"
  sd_addr :: "byte \<times> byte \<times> byte \<times> byte"

definition af_inet :: "16 word" where
  "af_inet = 2"

definition ipv4_from_sockaddr :: "sockaddr option \<Rightarrow> ipv4addr option" where
  "ipv4_from_sockaddr p =
     (case p of
        None \<Rightarrow> None
      | Some a \<Rightarrow>
          if sd_family a \<noteq> af_inet then None
          else case sd_addr a of (b1, b2, b3, b4) \<Rightarrow> Some (Ipv4Addr b1 b2 b3 b4))"

subsection \<open>The linked lists\<close>

record raw_unicast =
  ru_sockaddr :: "sockaddr option"
  ru_prefix_len :: u8
  ru_next :: nat

record raw_adapter =
  ra_if_type :: u32
  ra_oper_status :: nat
  ra_description :: "16 word list option"
  ra_friendly_name :: "16 word list option"
  ra_if_index :: u32
  ra_first_unicast :: nat
  ra_next :: nat

record memory =
  m_adapters :: "nat \<Rightarrow> raw_adapter option"
  m_unicasts :: "nat \<Rightarrow> raw_unicast option"

partial_function (option) walk_unicast ::
  "memory \<Rightarrow> u32 \<Rightarrow> nat \<Rightarrow> (u32 \<times> u8 \<times> ipv4addr) list option" where
  "walk_unicast m interface_index p =
     (if p = 0 then Some []
      else
        Option.bind (m_unicasts m p) (\<lambda>u.
        Option.bind (walk_unicast m interface_index (ru_next u)) (\<lambda>rest.
          Some
            ((case ipv4_from_sockaddr (ru_sockaddr u) of
                Some gateway_ip \<Rightarrow>
                  if is_usable_hotspot_gateway gateway_ip (ru_prefix_len u)
                  then [(interface_index, ru_prefix_len u, gateway_ip)] else []
              | None \<Rightarrow> []) @ rest))))"

definition raw_wifi_direct :: "raw_adapter \<Rightarrow> bool" where
  "raw_wifi_direct a \<longleftrightarrow>
     (let description = wide_ptr_to_string (ra_description a);
          friendly_name = wide_ptr_to_string (ra_friendly_name a) in
      str_contains description (lit ''Wi-Fi Direct'') \<or> str_contains description (lit ''WiFi Direct'') \<or>
      str_contains friendly_name (lit ''Wi-Fi Direct'') \<or> str_contains friendly_name (lit ''WiFi Direct''))"

partial_function (option) walk_adapters ::
  "memory \<Rightarrow> nat \<Rightarrow> (u32 \<times> u8 \<times> ipv4addr) list option" where
  "walk_adapters m p =
     (if p = 0 then Some []
      else
        Option.bind (m_adapters m p) (\<lambda>a.
        Option.bind
          (if ra_if_type a = if_type_ieee80211 \<and> ra_oper_status a = if_oper_status_up \<and> raw_wifi_direct a
           then walk_unicast m (ra_if_index a) (ra_first_unicast a) else Some []) (\<lambda>candidates.
        Option.bind (walk_adapters m (ra_next a)) (\<lambda>rest.
          Some (candidates @ rest)))))"

subsection \<open>The adapters in memory\<close>

inductive unicast_chain :: "memory \<Rightarrow> nat \<Rightarrow> raw_unicast list \<Rightarrow> bool" for m where
  Last_unicast: "unicast_chain m 0 []"
| Next_unicast: "p \<noteq> 0 \<Longrightarrow> m_unicasts m p = Some u \<Longrightarrow> unicast_chain m (ru_next u) us \<Longrightarrow> unicast_chain m p (u # us)"

definition unicast_of :: "raw_unicast \<Rightarrow> ipv4addr option \<times> u8" where
  "unicast_of u = (ipv4_from_sockaddr (ru_sockaddr u), ru_prefix_len u)"

definition adapter_of :: "raw_adapter \<Rightarrow> raw_unicast list \<Rightarrow> adapter" where
  "adapter_of a us =
     \<lparr>ad_if_type = ra_if_type a, ad_oper_status = ra_oper_status a,
      ad_description = wide_ptr_to_string (ra_description a),
      ad_friendly_name = wide_ptr_to_string (ra_friendly_name a), ad_if_index = ra_if_index a,
      ad_unicast = map unicast_of us\<rparr>"

inductive adapter_chain :: "memory \<Rightarrow> nat \<Rightarrow> adapter list \<Rightarrow> bool" for m where
  Last_adapter: "adapter_chain m 0 []"
| Next_adapter:
    "p \<noteq> 0 \<Longrightarrow> m_adapters m p = Some a \<Longrightarrow> unicast_chain m (ra_first_unicast a) us \<Longrightarrow>
     adapter_chain m (ra_next a) as \<Longrightarrow> adapter_chain m p (adapter_of a us # as)"

lemma walk_unicast_chain:
  "unicast_chain m p us \<Longrightarrow> walk_unicast m i p = Some (unicast_candidates i (map unicast_of us))"
proof (induction rule: unicast_chain.induct)
  case Last_unicast
  show ?case by (simp add: walk_unicast.simps [of m i 0])
next
  case (Next_unicast p u us)
  then show ?case
    by (cases "ipv4_from_sockaddr (ru_sockaddr u)")
      (simp_all add: walk_unicast.simps [of m i p] unicast_of_def)
qed

lemma is_wifi_direct_adapter_of: "is_wifi_direct (adapter_of a us) = raw_wifi_direct a"
  by (simp add: is_wifi_direct_def raw_wifi_direct_def adapter_of_def Let_def)

text \<open>A name of Unicode scalar values other than NUL, as Windows stores it.\<close>

fun encode_utf16 :: "str \<Rightarrow> 16 word list" where
  "encode_utf16 [] = []"
| "encode_utf16 (c # s) =
     (if c < 65536 then [word_of_nat c]
      else [word_of_nat (55296 + (c - 65536) div 1024), word_of_nat (56320 + (c - 65536) mod 1024)]) @
     encode_utf16 s"

lemma unat_unit: "n < 65536 \<Longrightarrow> unat (word_of_nat n :: 16 word) = n"
  by (simp add: unat_of_nat)

lemma from_utf16_encode: "list_all scalar_value s \<Longrightarrow> from_utf16_lossy (encode_utf16 s) = s"
proof (induction s)
  case (Cons c s)
  have c: "c < 55296 \<or> 57344 \<le> c" "c < 1114112" using Cons.prems by (auto simp: scalar_value_def)
  show ?case
  proof (cases "c < 65536")
    case True
    with Cons c show ?thesis by (simp add: unat_unit)
  next
    case False
    let ?k = "c - 65536"
    have k: "?k div 1024 < 1024" "?k mod 1024 < 1024" using c False by auto
    have sum: "65536 + (?k div 1024) * 1024 + ?k mod 1024 = c" using False by simp
    define u v :: "16 word" where "u = word_of_nat (55296 + ?k div 1024)" and "v = word_of_nat (56320 + ?k mod 1024)"
    then have uv: "unat u = 55296 + ?k div 1024" "unat v = 56320 + ?k mod 1024"
      using k by (simp_all only: unat_unit)
    have "encode_utf16 (c # s) = u # v # encode_utf16 s" using False by (simp only: encode_utf16.simps u_def v_def) simp
    moreover have "from_utf16_lossy (u # v # us) = c # from_utf16_lossy us" for us
      using k sum by (simp add: uv)
    ultimately show ?thesis using Cons by simp
  qed
qed simp

lemma encode_utf16_no_nul: "list_all scalar_value s \<Longrightarrow> 0 \<notin> set s \<Longrightarrow> 0 \<notin> set (encode_utf16 s)"
proof (induction s)
  case (Cons c s)
  have c: "c < 1114112" "c \<noteq> 0" using Cons.prems by (auto simp: scalar_value_def)
  have z: "word_of_nat n \<noteq> (0 :: 16 word)" if "0 < n" "n < 65536" for n
    using that unat_unit [of n] by (metis less_numeral_extra(3) unat_0)
  have "(0 :: 16 word) \<noteq> word_of_nat (55296 + (c - 65536) div 1024)"
    "(0 :: 16 word) \<noteq> word_of_nat (56320 + (c - 65536) mod 1024)" if "65536 \<le> c"
    using c that by (intro z [symmetric]; simp)+
  with Cons z [of c] c show ?case by (auto simp: not_less)
qed simp

lemma wide_name_read_back:
  assumes "list_all scalar_value s" and "0 \<notin> set s"
  shows "wide_ptr_to_string (Some (encode_utf16 s @ 0 # rest)) = s"
proof -
  have "takeWhile (\<lambda>u. u \<noteq> 0) (encode_utf16 s @ 0 # rest) = encode_utf16 s"
    using encode_utf16_no_nul [OF assms] by (subst takeWhile_append2) auto
  with assms show ?thesis by (simp add: wide_ptr_to_string_def from_utf16_encode)
qed

subsection \<open>Properties\<close>

text \<open>C38: The walk over the adapter list of Windows ends on every well-formed list, and the interfaces
  it finds are those that the list functions find in the adapters described by the list: the ones
  that discovery chooses from.\<close>

theorem adapter_walk_refines:
  assumes "adapter_chain m p as"
  shows "walk_adapters m p = Some (adapter_candidates as)"
  using assms
proof (induction rule: adapter_chain.induct)
  case Last_adapter
  show ?case by (simp add: walk_adapters.simps [of m 0])
next
  case (Next_adapter p a us as)
  from walk_unicast_chain [OF Next_adapter(3)] Next_adapter show ?case
    by (auto simp: walk_adapters.simps [of m p] is_wifi_direct_adapter_of) (auto simp: adapter_of_def)
qed

definition sample_memory :: memory where
  "sample_memory =
     \<lparr>m_adapters = (\<lambda>p. if p = 8 then Some
        \<lparr>ra_if_type = 71, ra_oper_status = 1, ra_description = Some (encode_utf16 (lit ''Wi-Fi Direct'') @ [0]),
         ra_friendly_name = None, ra_if_index = 12, ra_first_unicast = 16, ra_next = 0\<rparr> else None),
      m_unicasts = (\<lambda>p. if p = 16 then Some
        \<lparr>ru_sockaddr = Some \<lparr>sd_family = 2, sd_addr = (192, 168, 137, 1)\<rparr>, ru_prefix_len = 24, ru_next = 0\<rparr> else None)\<rparr>"

theorem adapter_walk_refines_witness:
  "walk_adapters sample_memory 8 = Some [(12, 24, Ipv4Addr 192 168 137 1)]"
proof -
  let ?u = "\<lparr>ru_sockaddr = Some \<lparr>sd_family = 2, sd_addr = (192, 168, 137, 1)\<rparr>, ru_prefix_len = 24, ru_next = 0\<rparr>"
  let ?a = "\<lparr>ra_if_type = 71, ra_oper_status = 1, ra_description = Some (encode_utf16 (lit ''Wi-Fi Direct'') @ [0]),
         ra_friendly_name = None, ra_if_index = 12, ra_first_unicast = 16, ra_next = 0\<rparr>"
  have "unicast_chain sample_memory 16 [?u]"
    by (rule Next_unicast) (simp_all add: sample_memory_def unicast_chain.intros)
  then have "adapter_chain sample_memory 8 [adapter_of ?a [?u]]"
    by (intro Next_adapter [of _ _ ?a]) (simp_all add: sample_memory_def adapter_chain.intros)
  moreover have "wide_ptr_to_string (Some (encode_utf16 (lit ''Wi-Fi Direct'') @ [0])) = lit ''Wi-Fi Direct''"
    by (rule wide_name_read_back) (simp_all add: lit_def scalar_value_def)
  then have "adapter_of ?a [?u] = \<lparr>ad_if_type = 71, ad_oper_status = 1, ad_description = lit ''Wi-Fi Direct'',
      ad_friendly_name = [], ad_if_index = 12, ad_unicast = [(Some (Ipv4Addr 192 168 137 1), 24)]\<rparr>"
    by (simp add: adapter_of_def unicast_of_def ipv4_from_sockaddr_def af_inet_def) (simp add: wide_ptr_to_string_def)
  moreover have "adapter_candidates [\<lparr>ad_if_type = 71, ad_oper_status = 1, ad_description = lit ''Wi-Fi Direct'',
      ad_friendly_name = [], ad_if_index = 12, ad_unicast = [(Some (Ipv4Addr 192 168 137 1), 24)]\<rparr>] =
      [(12, 24, Ipv4Addr 192 168 137 1)]"
    by code_simp
  ultimately show ?thesis using adapter_walk_refines by simp
qed

end
