(* ===== verification/Connect.thy ===== *)
theory Connect
  imports Config
begin

section \<open>Outbound connectors (src/src/proxy.rs)\<close>

text \<open>
  How a connection to a destination is made: directly, through a SOCKS5 proxy, or with an HTTP
  CONNECT request, in the clear or over TLS. The network is the record \<open>net\<close> of functions that
  open a TCP connection and make a TLS handshake. An open connection is what its peer
  will send before it closes (\<open>inbound\<close>), what has been sent to the peer (\<open>outbound\<close>), and how
  many more writes will succeed. As every statement holds for all inbound bytes, it holds
  for a peer that chooses them in answer to what it is sent.

  Each step of a handshake takes the connection and the rest of the handshake, so that a failed
  read or write ends it there, with the connection as it is. A handshake that succeeds returns
  the connection that the relay copies from and to.

  The lemmas show what the SOCKS5 and CONNECT peers are sent and what they must answer for a
  connection to succeed, that no byte after the answer is lost, and that the
  request a SOCKS5 proxy reads is the destination the relay asked for.
\<close>

subsection \<open>Destinations\<close>

datatype target_host = Ip ip_addr | Domain str

record destination =
  dest_host :: target_host
  dest_port :: u16

definition from_ip :: "ip_addr \<Rightarrow> u16 \<Rightarrow> destination" where
  "from_ip ip port = \<lparr>dest_host = Ip ip, dest_port = port\<rparr>"

definition from_domain :: "str \<Rightarrow> u16 \<Rightarrow> destination" where
  "from_domain domain port = \<lparr>dest_host = Domain domain, dest_port = port\<rparr>"

fun show_host :: "target_host \<Rightarrow> str" where
  "show_host (Ip ip) = show_ip ip"
| "show_host (Domain domain) = domain"

definition show_destination :: "destination \<Rightarrow> str" where
  "show_destination d = show_host (dest_host d) @ lit '':'' @ show_nat (unat (dest_port d))"

subsection \<open>Connections\<close>

datatype connect_error =
  Connect_refused | Tls_failed | Write_failed | Unexpected_eof
| Endpoint_required | Credentials_too_long | Auth_failed | Methods_rejected
| Invalid_method_reply "byte list" | Domain_too_long | Reply_code byte | Invalid_address_type byte
| Head_too_long | Connect_failed str

record conn =
  inbound :: "byte list"
  outbound :: "byte list"
  writes_left :: nat

type_synonym attempted = "(conn, connect_error) res"

definition write_all :: "byte list \<Rightarrow> conn \<Rightarrow> (conn \<Rightarrow> attempted) \<Rightarrow> attempted" where
  "write_all bytes c k =
     (if writes_left c = 0 then Err Write_failed
      else k (c\<lparr>outbound := outbound c @ bytes, writes_left := writes_left c - 1\<rparr>))"

definition read_exact :: "nat \<Rightarrow> conn \<Rightarrow> (byte list \<Rightarrow> conn \<Rightarrow> attempted) \<Rightarrow> attempted" where
  "read_exact n c k =
     (if n \<le> length (inbound c)
      then k (take n (inbound c)) (c\<lparr>inbound := drop n (inbound c)\<rparr>)
      else Err Unexpected_eof)"

record net =
  tcp_connect :: "target_host \<Rightarrow> u16 \<Rightarrow> attempted"
  tls_connect :: "bool \<Rightarrow> str \<Rightarrow> conn \<Rightarrow> attempted"

subsection \<open>SOCKS5\<close>

record socks5_connector =
  s5_endpoint :: host_endpoint
  s5_username :: "str option"
  s5_password :: "str option"

definition socks5_new :: "proxy_config \<Rightarrow> (socks5_connector, connect_error) res" where
  "socks5_new config =
     attempt (ok_or (px_endpoint config) Endpoint_required) (\<lambda>e.
       Ok \<lparr>s5_endpoint = e, s5_username = px_username config, s5_password = px_password config\<rparr>)"

definition unwrap_or :: "'a option \<Rightarrow> 'a \<Rightarrow> 'a" where
  "unwrap_or v d = (case v of Some a \<Rightarrow> a | None \<Rightarrow> d)"

definition socks5_greeting :: "socks5_connector \<Rightarrow> byte list" where
  "socks5_greeting s =
     (if s5_username s \<noteq> None \<or> s5_password s \<noteq> None then [0x05, 0x02, 0x00, 0x02]
      else [0x05, 0x01, 0x00])"

definition socks5_auth :: "str \<Rightarrow> str \<Rightarrow> byte list" where
  "socks5_auth username password =
     [0x01] @ [word_of_nat (str_len username)] @ as_bytes username @
     [word_of_nat (str_len password)] @ as_bytes password"

text \<open>The method the proxy chose, and the rest of the handshake.\<close>

definition socks5_method :: "socks5_connector \<Rightarrow> conn \<Rightarrow> (conn \<Rightarrow> attempted) \<Rightarrow> attempted" where
  "socks5_method s c k =
     read_exact 2 c (\<lambda>method_reply c.
       if method_reply = [0x05, 0x00] then k c
       else if method_reply = [0x05, 0x02]
       then
         let username = unwrap_or (s5_username s) []; password = unwrap_or (s5_password s) [] in
         if 255 < str_len username \<or> 255 < str_len password then Err Credentials_too_long
         else
           write_all (socks5_auth username password) c (\<lambda>c.
           read_exact 2 c (\<lambda>auth_reply c.
             if auth_reply \<noteq> [0x01, 0x00] then Err Auth_failed else k c))
       else if method_reply = [0x05, 0xff] then Err Methods_rejected
       else Err (Invalid_method_reply method_reply))"

definition socks5_request :: "destination \<Rightarrow> (byte list, connect_error) res" where
  "socks5_request d =
     attempt
       (case dest_host d of
          Ip (V4 ip) \<Rightarrow> Ok ([0x01] @ octets ip)
        | Ip (V6 ip) \<Rightarrow> Ok ([0x04] @ octets6 ip)
        | Domain domain \<Rightarrow>
            if 255 < str_len domain then Err Domain_too_long
            else Ok ([0x03] @ [word_of_nat (str_len domain)] @ as_bytes domain))
       (\<lambda>address. Ok ([0x05, 0x01, 0x00] @ address @ to_be16 (dest_port d)))"

definition socks5_reply :: "conn \<Rightarrow> attempted" where
  "socks5_reply c =
     read_exact 4 c (\<lambda>header c.
       idx header 0 (\<lambda>h0. idx header 1 (\<lambda>h1.
         if h0 \<noteq> 0x05 \<or> h1 \<noteq> 0x00 then Err (Reply_code h1)
         else idx header 3 (\<lambda>atyp.
           if atyp = 0x01 then read_exact (4 + 2) c (\<lambda>discard c. Ok c)
           else if atyp = 0x03
           then read_exact 1 c (\<lambda>len c. idx len 0 (\<lambda>l. read_exact (unat l + 2) c (\<lambda>discard c. Ok c)))
           else if atyp = 0x04 then read_exact (16 + 2) c (\<lambda>discard c. Ok c)
           else Err (Invalid_address_type atyp)))))"

definition socks5_handshake :: "socks5_connector \<Rightarrow> destination \<Rightarrow> conn \<Rightarrow> attempted" where
  "socks5_handshake s d c =
     write_all (socks5_greeting s) c (\<lambda>c.
     socks5_method s c (\<lambda>c.
     attempt (socks5_request d) (\<lambda>request.
     write_all request c (\<lambda>c. socks5_reply c))))"

subsection \<open>HTTP CONNECT\<close>

record http_connector =
  hc_endpoint :: host_endpoint
  hc_use_tls :: bool
  hc_tls_skip_verify :: bool

definition http_connect_new :: "proxy_config \<Rightarrow> bool \<Rightarrow> (http_connector, connect_error) res" where
  "http_connect_new config use_tls =
     attempt (ok_or (px_endpoint config) Endpoint_required) (\<lambda>e.
       Ok \<lparr>hc_endpoint = e, hc_use_tls = use_tls, hc_tls_skip_verify = px_tls_skip_verify config\<rparr>)"

definition crlf :: "nat list" where
  "crlf = [13, 10]"

definition crlf2 :: "byte list" where
  "crlf2 = [13, 10, 13, 10]"

lemma lines_crlf: "10 \<notin> set l \<Longrightarrow> lines (l @ crlf @ rest) = l # lines rest"
  using lines_cons [of "l @ [13]" rest] by (simp add: crlf_def strip_cr_def)

definition connect_request :: "destination \<Rightarrow> byte list" where
  "connect_request d =
     as_bytes (lit ''CONNECT '' @ show_destination d @ lit '' HTTP/1.1'' @ crlf @
       lit ''Host: '' @ show_destination d @ crlf @ crlf)"

text \<open>
  The loop that reads the response head one byte at a time. It stops at an empty line or after
  8192 bytes; \<open>read_exact\<close> of one byte is written out, so that the recursion is on the inbound
  bytes that are left.
\<close>

function read_head :: "byte list \<Rightarrow> conn \<Rightarrow> (byte list \<times> conn, connect_error) res" where
  "read_head response c =
     (if length response < 8192
      then
        case inbound c of
          [] \<Rightarrow> Err Unexpected_eof
        | b # bs \<Rightarrow>
            let c' = c\<lparr>inbound := bs\<rparr>; response' = response @ [b] in
            if ends_with response' crlf2 then Ok (response', c') else read_head response' c'
      else Ok (response, c))"
  by pat_completeness auto
termination
  by (relation "measure (\<lambda>(response, c). 8192 - length response)") auto

declare read_head.simps [simp del]

definition send_connect_request :: "destination \<Rightarrow> conn \<Rightarrow> attempted" where
  "send_connect_request d c =
     write_all (connect_request d) c (\<lambda>c.
     attempt (read_head [] c) (\<lambda>(response, c).
       if \<not> ends_with response crlf2 then Err Head_too_long
       else
         let text = from_utf8_lossy response in
         if \<not> starts_with text (lit ''HTTP/1.1 200'') \<and> \<not> starts_with text (lit ''HTTP/1.0 200'')
         then Err (Connect_failed (case lines text of l # _ \<Rightarrow> l | [] \<Rightarrow> []))
         else Ok c))"

definition http_connect :: "net \<Rightarrow> http_connector \<Rightarrow> destination \<Rightarrow> attempted" where
  "http_connect net h d =
     attempt (tcp_connect net (Domain (ep_host (hc_endpoint h))) (ep_port (hc_endpoint h))) (\<lambda>c.
       if hc_use_tls h
       then attempt (tls_connect net (hc_tls_skip_verify h) (ep_host (hc_endpoint h)) c) (send_connect_request d)
       else send_connect_request d c)"

subsection \<open>Connectors\<close>

datatype connector =
  Direct_connector
| Socks5_connector socks5_connector
| Http_connector http_connector

definition connector_from_config :: "proxy_config \<Rightarrow> (connector, connect_error) res" where
  "connector_from_config config =
     (case px_kind config of
        Direct \<Rightarrow> Ok Direct_connector
      | Socks5 \<Rightarrow> attempt (socks5_new config) (\<lambda>s. Ok (Socks5_connector s))
      | HttpConnect \<Rightarrow> attempt (http_connect_new config False) (\<lambda>h. Ok (Http_connector h))
      | HttpsConnect \<Rightarrow> attempt (http_connect_new config True) (\<lambda>h. Ok (Http_connector h)))"

fun connect :: "net \<Rightarrow> connector \<Rightarrow> destination \<Rightarrow> attempted" where
  "connect net Direct_connector d = tcp_connect net (dest_host d) (dest_port d)"
| "connect net (Socks5_connector s) d =
     attempt (tcp_connect net (Domain (ep_host (s5_endpoint s))) (ep_port (s5_endpoint s)))
       (socks5_handshake s d)"
| "connect net (Http_connector h) d = http_connect net h d"


subsection \<open>Steps of a handshake\<close>

lemma write_all_Ok:
  "write_all bytes c k = Ok r \<longleftrightarrow>
     writes_left c \<noteq> 0 \<and> k (c\<lparr>outbound := outbound c @ bytes, writes_left := writes_left c - 1\<rparr>) = Ok r"
  by (simp add: write_all_def)

lemma read_exact_Ok:
  "read_exact n c k = Ok r \<longleftrightarrow>
     n \<le> length (inbound c) \<and> k (take n (inbound c)) (c\<lparr>inbound := drop n (inbound c)\<rparr>) = Ok r"
  by (simp add: read_exact_def)

lemmas step_Ok = write_all_Ok read_exact_Ok

lemma conn_eqI: "inbound c = inbound d \<Longrightarrow> outbound c = outbound d \<Longrightarrow> writes_left c = writes_left d \<Longrightarrow> c = d"
  for c d :: conn by simp

lemma socks5_greeting_len: "length (socks5_greeting s) \<le> 4"
  by (simp add: socks5_greeting_def)

text \<open>The length of a positive reply, told from its first bytes; \<open>None\<close> for anything else.\<close>

definition reply_len :: "byte list \<Rightarrow> nat option" where
  "reply_len xs =
     (if length xs < 4 \<or> xs ! 0 \<noteq> 5 \<or> xs ! 1 \<noteq> 0 then None
      else if xs ! 3 = 1 then Some 10
      else if xs ! 3 = 4 then Some 22
      else if xs ! 3 = 3 \<and> 5 \<le> length xs then Some (7 + unat (xs ! 4))
      else None)"

lemma socks5_reply_Ok:
  "socks5_reply c = Ok c' \<longleftrightarrow>
     (\<exists>n. reply_len (inbound c) = Some n \<and> n \<le> length (inbound c) \<and> c' = c\<lparr>inbound := drop n (inbound c)\<rparr>)"
proof (cases "length (inbound c) < 4")
  case True
  then show ?thesis by (simp add: socks5_reply_def reply_len_def step_Ok)
next
  case False
  then have ne: "inbound c \<noteq> []" by auto
  define h where "h = take 4 (inbound c)"
  have h: "length h = 4" "h ! 0 = inbound c ! 0" "h ! 1 = inbound c ! 1" "h ! 3 = inbound c ! 3"
    using False by (simp_all add: h_def)
  have r: "socks5_reply c =
      (if h ! 0 \<noteq> 5 \<or> h ! 1 \<noteq> 0 then Err (Reply_code (h ! 1))
       else let c = c\<lparr>inbound := drop 4 (inbound c)\<rparr>; atyp = h ! 3 in
         if atyp = 1 then read_exact (4 + 2) c (\<lambda>discard c. Ok c)
         else if atyp = 3
         then read_exact 1 c (\<lambda>len c. idx len 0 (\<lambda>l. read_exact (unat l + 2) c (\<lambda>discard c. Ok c)))
         else if atyp = 4 then read_exact (16 + 2) c (\<lambda>discard c. Ok c)
         else Err (Invalid_address_type atyp))"
    using False ne h by (simp add: socks5_reply_def read_exact_def h_def idx_def Let_def)
  have d: "drop 4 (inbound c) ! 0 = inbound c ! 4" if "4 < length (inbound c)"
    using that by simp
  have e: "take (Suc 0) (drop 4 (inbound c)) ! 0 = inbound c ! 4" if "4 < length (inbound c)"
    using that by simp
  show ?thesis
    unfolding r Let_def using False h d e
    by (auto simp: reply_len_def step_Ok idx_def add.commute)
qed

lemma socks5_method_Ok:
  "socks5_method s c k = Ok r \<longleftrightarrow>
     2 \<le> length (inbound c) \<and>
     (let m = take 2 (inbound c); c1 = c\<lparr>inbound := drop 2 (inbound c)\<rparr>;
          u = unwrap_or (s5_username s) []; p = unwrap_or (s5_password s) [] in
      m = [5, 0] \<and> k c1 = Ok r \<or>
      m = [5, 2] \<and> str_len u \<le> 255 \<and> str_len p \<le> 255 \<and> writes_left c \<noteq> 0 \<and>
        take 2 (inbound c1) = [1, 0] \<and>
        k (c\<lparr>outbound := outbound c @ socks5_auth u p, writes_left := writes_left c - 1,
             inbound := drop 4 (inbound c)\<rparr>) = Ok r)"
proof -
  have u: "2 \<le> length xs" if "take 2 xs = [1, 0]" for xs :: "byte list"
    using that by (cases xs; cases "tl xs") auto
  show ?thesis
    by (auto simp: socks5_method_def Let_def step_Ok dest: u split: if_splits)
qed


lemma reply_len_split:
  "reply_len xs = Some n \<and> n \<le> length xs \<longleftrightarrow>
     (\<exists>reply. xs = reply @ drop n xs \<and> length reply = n \<and> reply_len reply = Some n)"
proof
  assume a: "reply_len xs = Some n \<and> n \<le> length xs"
  then have "7 \<le> n" by (auto simp: reply_len_def split: if_splits)
  with a have "reply_len (take n xs) = Some n" by (auto simp: reply_len_def split: if_splits)
  with a show "\<exists>reply. xs = reply @ drop n xs \<and> length reply = n \<and> reply_len reply = Some n"
    by (intro exI [of _ "take n xs"]) simp
next
  assume "\<exists>reply. xs = reply @ drop n xs \<and> length reply = n \<and> reply_len reply = Some n"
  then obtain reply where r: "xs = reply @ drop n xs" "length reply = n" "reply_len reply = Some n" by blast
  then have "7 \<le> length reply" by (auto simp: reply_len_def split: if_splits)
  then have "7 \<le> length reply" "reply \<noteq> []" by auto
  then have "reply_len (reply @ ys) = reply_len reply" for ys by (simp add: reply_len_def nth_append)
  with r show "reply_len xs = Some n \<and> n \<le> length xs"
    by (metis le_add1 length_append)
qed

lemma inbound_only: "c' = c\<lparr>inbound := inbound c'\<rparr> \<longleftrightarrow> outbound c' = outbound c \<and> writes_left c' = writes_left c"
  for c c' :: conn
  by (cases c; cases c') auto

lemma socks5_reply_split:
  "socks5_reply c = Ok c' \<longleftrightarrow>
     (\<exists>reply. reply_len reply = Some (length reply) \<and> inbound c = reply @ inbound c' \<and>
        outbound c' = outbound c \<and> writes_left c' = writes_left c)"
proof -
  have "(\<exists>n. reply_len (inbound c) = Some n \<and> n \<le> length (inbound c) \<and> c' = c\<lparr>inbound := drop n (inbound c)\<rparr>) \<longleftrightarrow>
      (\<exists>n. (\<exists>reply. inbound c = reply @ drop n (inbound c) \<and> length reply = n \<and> reply_len reply = Some n) \<and>
        c' = c\<lparr>inbound := drop n (inbound c)\<rparr>)"
    by (simp only: reply_len_split [symmetric] conj_assoc)
  also have "\<dots> \<longleftrightarrow> (\<exists>reply. reply_len reply = Some (length reply) \<and> inbound c = reply @ inbound c' \<and>
        c' = c\<lparr>inbound := inbound c'\<rparr>)" (is "?L = ?R")
  proof
    assume ?L
    then show ?R by auto
  next
    assume ?R
    then obtain reply where "reply_len reply = Some (length reply)" "inbound c = reply @ inbound c'"
      "c' = c\<lparr>inbound := inbound c'\<rparr>" by blast
    then show ?L by (intro exI [of _ "length reply"]) auto
  qed
  finally show ?thesis by (simp only: socks5_reply_Ok inbound_only)
qed

lemma take_two: "take 2 xs = [a, b] \<longleftrightarrow> (\<exists>ys. xs = a # b # ys)"
  by (cases xs; cases "tl xs") auto

subsection \<open>Reading a response head\<close>

lemma read_head_step:
  "length response < 8192 \<Longrightarrow> inbound c = b # bs \<Longrightarrow> read_head response c =
     (if ends_with (response @ [b]) crlf2 then Ok (response @ [b], c\<lparr>inbound := bs\<rparr>)
      else read_head (response @ [b]) (c\<lparr>inbound := bs\<rparr>))"
  by (subst read_head.simps) simp

lemma read_head_full: "8192 \<le> length response \<Longrightarrow> read_head response c = Ok (response, c)"
  by (subst read_head.simps) simp

lemma read_head_eof: "length response < 8192 \<Longrightarrow> inbound c = [] \<Longrightarrow> read_head response c = Err Unexpected_eof"
  by (subst read_head.simps) simp

text \<open>The empty line comes at the end of \<open>h\<close> and not before, counting from its first byte and
with \<open>response\<close> in front of it.\<close>

fun first_end :: "byte list \<Rightarrow> byte list \<Rightarrow> bool" where
  "first_end response [] = False"
| "first_end response (b # h) =
     (if ends_with (response @ [b]) crlf2 then h = [] else first_end (response @ [b]) h)"

lemma first_end_iff:
  "first_end response h \<longleftrightarrow>
     ends_with (response @ h) crlf2 \<and> h \<noteq> [] \<and> (\<forall>i. 0 < i \<and> i < length h \<longrightarrow> \<not> ends_with (response @ take i h) crlf2)"
proof (induction h arbitrary: response)
  case (Cons b h)
  have "(\<forall>i. 0 < i \<and> i < length (b # h) \<longrightarrow> \<not> ends_with (response @ take i (b # h)) crlf2) \<longleftrightarrow>
      (\<forall>j. j < length h \<longrightarrow> \<not> ends_with (response @ b # take j h) crlf2)"
    by (auto simp: less_Suc_eq_0_disj gr0_conv_Suc)
  also have "\<dots> \<longleftrightarrow> (h \<noteq> [] \<longrightarrow> \<not> ends_with (response @ [b]) crlf2) \<and>
      (\<forall>j. 0 < j \<and> j < length h \<longrightarrow> \<not> ends_with (response @ b # take j h) crlf2)"
    by (auto simp: gr0_conv_Suc) (metis gr0_conv_Suc take_0 not_gr_zero)
  finally show ?case using Cons [of "response @ [b]"] by (cases "h = []") auto
qed simp

lemma read_head_end:
  assumes "length response < 8192"
  shows "read_head response c = Ok (r, c') \<and> ends_with r crlf2 \<longleftrightarrow>
     (\<exists>h. r = response @ h \<and> first_end response h \<and> length r \<le> 8192 \<and> inbound c = h @ inbound c' \<and>
        c' = c\<lparr>inbound := inbound c'\<rparr>)"
  using assms
proof (induction "inbound c" arbitrary: response c)
  case Nil
  then show ?case by (auto simp: read_head_eof elim!: first_end.elims)
next
  case (Cons b bs)
  let ?c = "c\<lparr>inbound := bs\<rparr>"
  have step: "read_head response c =
     (if ends_with (response @ [b]) crlf2 then Ok (response @ [b], ?c) else read_head (response @ [b]) ?c)"
    using Cons by (intro read_head_step) simp_all
  have R: "(\<exists>h. r = response @ h \<and> first_end response h \<and> length r \<le> 8192 \<and> inbound c = h @ inbound c' \<and>
        c' = c\<lparr>inbound := inbound c'\<rparr>) \<longleftrightarrow>
      (\<exists>h. r = (response @ [b]) @ h \<and> first_end response (b # h) \<and> length r \<le> 8192 \<and> bs = h @ inbound c' \<and>
        c' = c\<lparr>inbound := inbound c'\<rparr>)" (is "?L = ?R")
  proof
    assume ?L
    then obtain h where h: "r = response @ h" "first_end response h" "length r \<le> 8192" "inbound c = h @ inbound c'"
      "c' = c\<lparr>inbound := inbound c'\<rparr>" by blast
    then obtain h' where "h = b # h'" using Cons(2) by (cases h) auto
    with h Cons(2) show ?R by (intro exI [of _ h']) auto
  next
    assume ?R
    then obtain h where "r = (response @ [b]) @ h" "first_end response (b # h)" "length r \<le> 8192" "bs = h @ inbound c'"
      "c' = c\<lparr>inbound := inbound c'\<rparr>" by blast
    with Cons(2) show ?L by (intro exI [of _ "b # h"]) auto
  qed
  show ?case
  proof (cases "ends_with (response @ [b]) crlf2")
    case True
    with Cons(3) show ?thesis
      unfolding R step by auto
  next
    case no: False
    show ?thesis
    proof (cases "length response + 1 < 8192")
      case True
      have "read_head (response @ [b]) ?c = Ok (r, c') \<and> ends_with r crlf2 \<longleftrightarrow>
          (\<exists>h. r = (response @ [b]) @ h \<and> first_end (response @ [b]) h \<and> length r \<le> 8192 \<and>
             bs = h @ inbound c' \<and> c' = c\<lparr>inbound := inbound c'\<rparr>)"
        using Cons(1) [of ?c "response @ [b]"] True by simp
      then show ?thesis
        unfolding R step using no by auto
    next
      case False
      then have "read_head (response @ [b]) ?c = Ok (response @ [b], ?c)" by (intro read_head_full) simp
      with False Cons(3) no show ?thesis
        unfolding R step by (auto simp: neq_Nil_conv elim!: first_end.elims)
    qed
  qed
qed


lemma handshake_no_panic [panic_free]:
  "socks5_handshake s d c \<noteq> Panic" "send_connect_request d c \<noteq> Panic"
proof -
  have rep: "socks5_reply c \<noteq> Panic" for c
    by (auto simp: socks5_reply_def read_exact_def idx_def)
  have req: "socks5_request d \<noteq> Panic"
    by (auto simp: socks5_request_def attempt_eq_Panic split: target_host.split ip_addr.split)
  have m: "socks5_method s c k \<noteq> Panic" if "\<And>c. k c \<noteq> Panic" for c k
    using that by (auto simp: socks5_method_def read_exact_def write_all_def Let_def)
  show "socks5_handshake s d c \<noteq> Panic"
    by (auto simp: socks5_handshake_def write_all_def attempt_eq_Panic req rep split: if_splits intro!: m)
  have h: "read_head r c \<noteq> Panic" for r c
  proof (induction r c rule: read_head.induct)
    case (1 r c)
    then show ?case by (subst read_head.simps) (auto simp: Let_def split: list.split)
  qed
  show "send_connect_request d c \<noteq> Panic"
    by (auto simp: send_connect_request_def write_all_def attempt_eq_Panic h Let_def)
qed

text \<open>How a SOCKS5 server reads a request.\<close>

definition decode_request :: "byte list \<Rightarrow> destination option" where
  "decode_request r =
     (if length r < 5 \<or> take 3 r \<noteq> [5, 1, 0] then None
      else let body = drop 4 r in
        if r ! 3 = 1 then
          if length body = 6
          then Some (from_ip (V4 (ipv4_at body 0)) (be16_at body 4)) else None
        else if r ! 3 = 4 then
          if length body = 18
          then Some (from_ip (V6 (ipv6_of_octets (take 16 body))) (be16_at body 16)) else None
        else if r ! 3 = 3 then
          let n = unat (hd body) in
          if length body = n + 3
          then map_option (\<lambda>s. from_domain s (be16_at body (n + 1))) (from_utf8 (take n (tl body))) else None
        else None)"

lemma be16_end: "be16_at (xs @ to_be16 w) (length xs) = w"
  using be16_append [of xs w "[]"] by simp

lemma decode_request_encode:
  assumes "socks5_request d = Ok r"
    and "case dest_host d of Domain s \<Rightarrow> list_all scalar_value s | Ip _ \<Rightarrow> True"
  shows "decode_request r = Some d"
proof (cases "dest_host d")
  case (Ip ip)
  show ?thesis
  proof (cases ip)
    case (V4 a)
    have "ipv4_at (octets a @ to_be16 (dest_port d)) 0 = a"
      by (cases a) (simp add: ipv4_at_def)
    with V4 Ip assms show ?thesis
      using be16_end [of "octets a" "dest_port d"]
      by (auto simp: socks5_request_def decode_request_def from_ip_def)
  next
    case (V6 a)
    with Ip assms show ?thesis
      using be16_end [of "octets6 a" "dest_port d"]
      by (auto simp: socks5_request_def decode_request_def from_ip_def)
  qed
next
  case (Domain s)
  then have l: "str_len s \<le> 255" and r: "r = [5, 1, 0, 3, word_of_nat (str_len s)] @ as_bytes s @ to_be16 (dest_port d)"
    using assms(1) by (auto simp: socks5_request_def split: if_splits)
  have u: "unat (word_of_nat (str_len s) :: byte) = str_len s"
    using l by (simp add: unsigned_of_nat take_bit_eq_mod)
  have p: "be16_at (word_of_nat (str_len s) # as_bytes s @ to_be16 (dest_port d)) (str_len s + 1) = dest_port d"
    using be16_end [of "word_of_nat (str_len s) # as_bytes s" "dest_port d"] by (simp add: str_len_def)
  show ?thesis
    using assms(2) Domain u p
    by (simp add: r decode_request_def from_domain_def from_utf8_as_bytes str_len_def)
qed

subsection \<open>Properties\<close>

text \<open>C31: A SOCKS5 handshake, whatever the proxy answers. It succeeds exactly when the proxy
  accepts one of the methods (no authentication, or user name and password that it then accepts),
  the destination can be encoded, no write fails and the reply reports success with a
  complete bound address. The proxy is then sent the greeting, the credentials if and only if it
  asked for them, and the request, nothing else; and what the connection has left to read
  is all the proxy sent after the reply, so that no byte of the destination is lost.\<close>

theorem socks5_handshake_iff:
  "socks5_handshake s d c = Ok c' \<longleftrightarrow>
     (\<exists>request methods auth reply.
        socks5_request d = Ok request \<and>
        (let u = unwrap_or (s5_username s) []; p = unwrap_or (s5_password s) [] in
         methods = [5, 0] \<and> auth = [] \<or>
         methods = [5, 2, 1, 0] \<and> auth = [socks5_auth u p] \<and> str_len u \<le> 255 \<and> str_len p \<le> 255) \<and>
        reply_len reply = Some (length reply) \<and>
        inbound c = methods @ reply @ inbound c' \<and>
        outbound c' = outbound c @ socks5_greeting s @ concat auth @ request \<and>
        2 + length auth \<le> writes_left c \<and> writes_left c' = writes_left c - (2 + length auth))"
  (is "_ = ?R")
proof
  assume "socks5_handshake s d c = Ok c'"
  then consider (plain) request reply where
      "socks5_request d = Ok request" "reply_len reply = Some (length reply)"
      "inbound c = [5, 0] @ reply @ inbound c'" "outbound c' = outbound c @ socks5_greeting s @ request"
      "2 \<le> writes_left c" "writes_left c' = writes_left c - 2"
    | (password) request reply where
      "socks5_request d = Ok request" "reply_len reply = Some (length reply)"
      "str_len (unwrap_or (s5_username s) []) \<le> 255" "str_len (unwrap_or (s5_password s) []) \<le> 255"
      "inbound c = [5, 2, 1, 0] @ reply @ inbound c'"
      "outbound c' = outbound c @ socks5_greeting s @
         socks5_auth (unwrap_or (s5_username s) []) (unwrap_or (s5_password s) []) @ request"
      "3 \<le> writes_left c" "writes_left c' = writes_left c - 3"
    by (auto simp: socks5_handshake_def step_Ok socks5_method_Ok attempt_eq_Ok socks5_reply_split
        Let_def take_two numeral_3_eq_3)
  then show ?R
  proof cases
    case plain
    then show ?thesis
      by (intro exI [of _ request] exI [of _ "[5, 0]"] exI [of _ "[]"] exI [of _ reply]) (simp add: Let_def)
  next
    case password
    then show ?thesis
      by (intro exI [of _ request] exI [of _ "[5, 2, 1, 0]"]
          exI [of _ "[socks5_auth (unwrap_or (s5_username s) []) (unwrap_or (s5_password s) [])]"]
          exI [of _ reply]) (simp add: Let_def)
  qed
next
  assume ?R
  then show "socks5_handshake s d c = Ok c'"
    by (auto simp: socks5_handshake_def step_Ok socks5_method_Ok attempt_eq_Ok socks5_reply_split
        Let_def take_two intro!: conn_eqI)
qed


text \<open>The SOCKS5 request says what was asked for: a server that reads it finds the
  command CONNECT with the destination's address or name and its port. Only a name of more than
  255 bytes has no request.\<close>

theorem socks5_request_roundtrip:
  assumes "case dest_host d of Domain s \<Rightarrow> list_all scalar_value s | Ip _ \<Rightarrow> True"
  shows "case socks5_request d of
      Ok r \<Rightarrow> decode_request r = Some d
    | Err e \<Rightarrow> e = Domain_too_long \<and> (case dest_host d of Domain s \<Rightarrow> 255 < str_len s | Ip _ \<Rightarrow> False)
    | Panic \<Rightarrow> False"
proof (cases "socks5_request d")
  case (Ok r)
  with decode_request_encode [OF Ok assms] show ?thesis by simp
next
  case (Err e)
  then show ?thesis
    by (auto simp: socks5_request_def attempt_eq_Err split: target_host.splits ip_addr.splits if_splits)
next
  case Panic
  then show ?thesis
    by (auto simp: socks5_request_def attempt_eq_Panic split: target_host.splits ip_addr.splits if_splits)
qed

theorem socks5_request_roundtrip_witness:
  "decode_request [5, 1, 0, 3, 3, 0x61, 0x2e, 0x62, 1, 0xbb] = Some (from_domain (lit ''a.b'') 443)"
proof -
  have s: "case dest_host (from_domain (lit ''a.b'') 443) of Domain s \<Rightarrow> list_all scalar_value s | Ip _ \<Rightarrow> True"
    by (simp add: from_domain_def lit_def scalar_value_def)
  have r: "socks5_request (from_domain (lit ''a.b'') 443) = Ok [5, 1, 0, 3, 3, 0x61, 0x2e, 0x62, 1, 0xbb]"
    by (simp add: socks5_request_def from_domain_def lit_def as_bytes_def encode_char_def str_len_def to_be16_def)
  show ?thesis using socks5_request_roundtrip [OF s] r by simp
qed

text \<open>C32: A CONNECT request through an HTTP proxy, whatever the proxy answers. It succeeds
  exactly when the request can be written and the proxy sends a head, up to its first empty line,
  of at most 8192 bytes that starts with a status line for 200; the connection then has sent the
  request and nothing else, and what it has left to read is all that came after the head.\<close>

theorem send_connect_request_iff:
  "send_connect_request d c = Ok c' \<longleftrightarrow>
     (\<exists>head. inbound c = head @ inbound c' \<and> first_end [] head \<and> length head \<le> 8192 \<and>
        (starts_with (from_utf8_lossy head) (lit ''HTTP/1.1 200'') \<or>
         starts_with (from_utf8_lossy head) (lit ''HTTP/1.0 200'')) \<and>
        outbound c' = outbound c @ connect_request d \<and>
        1 \<le> writes_left c \<and> writes_left c' = writes_left c - 1)"
proof -
  let ?c = "c\<lparr>outbound := outbound c @ connect_request d, writes_left := writes_left c - 1\<rparr>"
  have e: "read_head [] ?c = Ok (r, c') \<and> ends_with r crlf2 \<longleftrightarrow>
      first_end [] r \<and> length r \<le> 8192 \<and> inbound c = r @ inbound c' \<and>
      outbound c' = outbound c @ connect_request d \<and> writes_left c' = writes_left c - 1" for r
    using read_head_end [of "[]" ?c r c'] by (auto simp: inbound_only)
  have "send_connect_request d c = Ok c' \<longleftrightarrow>
      writes_left c \<noteq> 0 \<and> (\<exists>r. (read_head [] ?c = Ok (r, c') \<and> ends_with r crlf2) \<and>
        (starts_with (from_utf8_lossy r) (lit ''HTTP/1.1 200'') \<or>
         starts_with (from_utf8_lossy r) (lit ''HTTP/1.0 200'')))"
    by (auto simp: send_connect_request_def step_Ok attempt_eq_Ok Let_def split: if_splits)
  also have "\<dots> \<longleftrightarrow> (\<exists>r. (first_end [] r \<and> length r \<le> 8192 \<and> inbound c = r @ inbound c' \<and>
        outbound c' = outbound c @ connect_request d \<and> writes_left c' = writes_left c - 1) \<and>
        (starts_with (from_utf8_lossy r) (lit ''HTTP/1.1 200'') \<or>
         starts_with (from_utf8_lossy r) (lit ''HTTP/1.0 200'')) \<and> writes_left c \<noteq> 0)"
    unfolding e by blast
  finally show ?thesis by (auto simp: Suc_le_eq)
qed

text \<open>No answer of a proxy makes a handshake panic: every early end, wrong byte or failed
  write is an error of the one connection that was being made.\<close>

theorem connect_no_panic:
  assumes "\<And>h p. tcp_connect net h p \<noteq> Panic" and "\<And>b h c. tls_connect net b h c \<noteq> Panic"
  shows "connect net k d \<noteq> Panic"
  using assms
  by (cases k) (auto simp: http_connect_def attempt_eq_Panic handshake_no_panic split: if_splits)

definition sample_net :: "byte list \<Rightarrow> net" where
  "sample_net bytes =
     \<lparr>tcp_connect = \<lambda>h p. Ok \<lparr>inbound = bytes, outbound = [], writes_left = 9\<rparr>,
      tls_connect = \<lambda>b h c. Err Tls_failed\<rparr>"

theorem connect_no_panic_witness:
  "connect (sample_net [5, 7]) Direct_connector (from_domain (lit ''a.b'') 443) \<noteq> Panic"
  using connect_no_panic [of "sample_net [5, 7]"] by (simp add: sample_net_def)

text \<open>Every validated proxy configuration has a connector, of its kind, to its endpoint; with
  TLS exactly for an HTTPS proxy, and with verification skipped only if that is configured. The
  connector of an HTTP or HTTPS proxy does not depend on the configured user name and password:
  they are never sent.\<close>

theorem connector_of_valid_config:
  assumes "validate_proxy config = Ok ()"
  shows "case connector_from_config config of
      Ok Direct_connector \<Rightarrow> px_kind config = Direct
    | Ok (Socks5_connector s) \<Rightarrow> px_kind config = Socks5 \<and> px_endpoint config = Some (s5_endpoint s) \<and>
        s5_username s = px_username config \<and> s5_password s = px_password config
    | Ok (Http_connector h) \<Rightarrow> px_endpoint config = Some (hc_endpoint h) \<and>
        px_kind config = (if hc_use_tls h then HttpsConnect else HttpConnect) \<and>
        hc_tls_skip_verify h = px_tls_skip_verify config \<and>
        \<not> (hc_tls_skip_verify h \<and> \<not> hc_use_tls h) \<and>
        connector_from_config (config\<lparr>px_username := u, px_password := p\<rparr>) = Ok (Http_connector h)
    | _ \<Rightarrow> False"
  using assms
  by (cases "px_kind config")
    (auto simp: validate_proxy_iff connector_from_config_def socks5_new_def http_connect_new_def split: if_splits)

theorem connector_of_valid_config_witness:
  "connector_from_config
     \<lparr>px_kind = HttpConnect, px_endpoint = Some \<lparr>ep_host = lit ''p'', ep_port = 3128\<rparr>,
      px_username = Some (lit ''u''), px_password = None, px_tls_skip_verify = False\<rparr> \<noteq> Ok Direct_connector"
proof -
  let ?c = "\<lparr>px_kind = HttpConnect, px_endpoint = Some \<lparr>ep_host = lit ''p'', ep_port = 3128\<rparr>,
      px_username = Some (lit ''u''), px_password = None, px_tls_skip_verify = False\<rparr>"
  have "validate_proxy ?c = Ok ()" by code_simp
  from connector_of_valid_config [OF this] show ?thesis by auto
qed

end
