(* ===== verification/Host.thy ===== *)
theory Host
  imports Connect
begin

section \<open>The host the program runs on (src/src/hostcmd.rs)\<close>

text \<open>
  The machine as the program acts on it, and the way its fallible effects are written. The
  record \<open>host\<close> has the clock in milliseconds, how late a sleep begun at each time ends, the actions taken so far in order, the packet
  capture handles that are open in the system, the redirector state, sockets and tasks of this
  process, and a component \<open>world\<close> of any type for everything outside the repository: the
  Windows tethering service, PowerShell, other processes.

  An external call takes the world to an answer, the time it took and a new world, so the clock
  can only move forward, as the documentation of \<open>Instant\<close> promises. An operation of the
  program takes a host to a result and a host; \<open>perform\<close> is the question mark operator:
  it goes on after \<open>Ok\<close> only. \<open>context\<close> of the \<open>anyhow\<close> crate wraps an error.

  PowerShell is one external call, from a script and environment variables to the output of
  the process, or \<open>None\<close> if it cannot be started.
\<close>

subsection \<open>Actions and the host\<close>

datatype task = Transparent_task u16 | Dns_task u16 | Gateway_task u16

datatype socket = Tcp_socket u16 | Udp_socket u16

datatype action =
  Opened nat str
| Shut_down nat
| Closed nat
| Bound socket
| Spawned task
| Aborted task
| Dialed destination
| Configure_tethering str
| Start_tethering
| Stop_tethering
| Run_powershell str
| Printed str

record running_redirector =
  rr_handles :: "nat list"
  rr_workers :: "(str \<times> nat) list"

record 'w host =
  clock :: nat
  late :: "nat \<Rightarrow> nat"
  actions :: "action list"
  handles :: "nat list"
  next_handle :: nat
  workers :: "(str \<times> nat) list"
  running :: "running_redirector option"
  sockets :: "socket list"
  tasks :: "task list"
  world :: 'w

text \<open>
  The sockets are the listening ones, which the startup block binds and the listener tasks own.
  Connections, and the copies of the DNS listener's socket that its queries under way share
  (\<open>Arc\<close>), are not among them.
\<close>

text \<open>The host at the start of a process: what is outside is as it is, nothing is its own.\<close>

definition fresh_process :: "'w host \<Rightarrow> 'w host" where
  "fresh_process h = h\<lparr>actions := [], workers := [], running := None, sockets := [], tasks := []\<rparr>"

subsection \<open>Effects\<close>

type_synonym ('s, 'a, 'e) io = "'s \<Rightarrow> ('a, 'e) res \<times> 's"

definition give :: "'a \<Rightarrow> ('s, 'a, 'e) io" where
  "give a s = (Ok a, s)"

definition fail :: "'e \<Rightarrow> ('s, 'a, 'e) io" where
  "fail e s = (Err e, s)"

definition from_res :: "('a, 'e) res \<Rightarrow> ('s, 'a, 'e) io" where
  "from_res r s = (r, s)"

definition perform :: "('s, 'a, 'e) io \<Rightarrow> ('a \<Rightarrow> ('s, 'b, 'e) io) \<Rightarrow> ('s, 'b, 'e) io" where
  "perform m k s =
     (case m s of
        (Ok a, s') \<Rightarrow> k a s'
      | (Err e, s') \<Rightarrow> (Err e, s')
      | (Panic, s') \<Rightarrow> (Panic, s'))"

definition wrap :: "('e \<Rightarrow> 'f) \<Rightarrow> ('s, 'a, 'e) io \<Rightarrow> ('s, 'a, 'f) io" where
  "wrap c m s = (case m s of (r, s') \<Rightarrow> (map_err c r, s'))"

definition caught :: "('s, 'a, 'e) io \<Rightarrow> (('a, 'e) res \<Rightarrow> ('s, 'b, 'f) io) \<Rightarrow> ('s, 'b, 'f) io" where
  "caught m k s =
     (case m s of
        (Panic, s') \<Rightarrow> (Panic, s')
      | (r, s') \<Rightarrow> k r s')"

type_synonym ('w, 'a) external = "'w \<Rightarrow> 'a \<times> nat \<times> 'w"

definition call :: "('w, ('a, 'e) res) external \<Rightarrow> ('w host, 'a, 'e) io" where
  "call f h =
     (case f (world h) of
        (r, elapsed, w) \<Rightarrow> (r, h\<lparr>clock := clock h + elapsed, world := w\<rparr>))"

definition emit :: "action \<Rightarrow> ('w host, unit, 'e) io" where
  "emit a h = (Ok (), h\<lparr>actions := actions h @ [a]\<rparr>)"

text \<open>\<open>println!\<close> panics when standard output has been closed; here it always writes its line, so no
  statement of this development speaks of a process whose output is closed.\<close>

definition println :: "str \<Rightarrow> ('w host, unit, 'e) io" where
  "println s = emit (Printed s)"

text \<open>\<open>thread::sleep\<close> and \<open>Start-Sleep\<close> sleep at least as long as they are told; how much later
  than that one that begins at some time wakes up is the machine's business.\<close>

definition sleep :: "nat \<Rightarrow> ('w host, unit, 'e) io" where
  "sleep ms h = (Ok (), h\<lparr>clock := clock h + ms + late h (clock h)\<rparr>)"

subsection \<open>PowerShell\<close>

record process_output =
  po_success :: bool
  po_stdout :: "byte list"
  po_stderr :: "byte list"

type_synonym 'w shell = "str \<Rightarrow> (str \<times> str) list \<Rightarrow> ('w, process_output option) external"

datatype shell_error = Not_started str | Script_failed str str

definition run_shell :: "'w shell \<Rightarrow> str \<Rightarrow> (str \<times> str) list \<Rightarrow> ('w host, process_output, unit) io" where
  "run_shell sh command envs =
     call (\<lambda>w. case sh command envs w of (r, t, w') \<Rightarrow> (ok_or r (), t, w'))"

definition powershell_available :: "'w shell \<Rightarrow> ('w host, bool, 'e) io" where
  "powershell_available sh =
     caught (run_shell sh (lit ''$PSVersionTable.PSVersion.Major'') [])
       (\<lambda>r. give (case r of Ok output \<Rightarrow> po_success output | _ \<Rightarrow> False))"

definition powershell_with_env_named ::
  "'w shell \<Rightarrow> str \<Rightarrow> str \<Rightarrow> (str \<times> str) list \<Rightarrow> ('w host, str, shell_error) io" where
  "powershell_with_env_named sh name command envs =
     perform (emit (Run_powershell name)) (\<lambda>_.
     perform (wrap (\<lambda>_. Not_started name) (run_shell sh command envs)) (\<lambda>output.
       if \<not> po_success output then fail (Script_failed name (from_utf8_lossy (po_stderr output)))
       else give (from_utf8_lossy (po_stdout output))))"

definition powershell_named :: "'w shell \<Rightarrow> str \<Rightarrow> str \<Rightarrow> ('w host, str, shell_error) io" where
  "powershell_named sh name command = powershell_with_env_named sh name command []"

definition powershell :: "'w shell \<Rightarrow> str \<Rightarrow> ('w host, str, shell_error) io" where
  "powershell sh command = powershell_named sh (lit ''inline PowerShell'') command"

subsection \<open>Laws of the effects\<close>

named_theorems io_eval \<open>running an operation\<close>

lemma perform_simps [io_eval]:
  "m s = (Ok a, s') \<Longrightarrow> perform m k s = k a s'"
  "m s = (Err e, s') \<Longrightarrow> perform m k s = (Err e, s')"
  "m s = (Panic, s') \<Longrightarrow> perform m k s = (Panic, s')"
  by (simp_all add: perform_def)

lemma perform_eq_Ok:
  "perform m k s = (Ok b, s'') \<longleftrightarrow> (\<exists>a s'. m s = (Ok a, s') \<and> k a s' = (Ok b, s''))"
  by (auto simp: perform_def split: prod.split res.split)

lemma performE:
  assumes "perform m k s = (r, s'')"
  obtains (went_on) a s' where "m s = (Ok a, s')" and "k a s' = (r, s'')"
    | (failed) e where "m s = (Err e, s'')" and "r = Err e"
    | (panicked) "m s = (Panic, s'')" and "r = Panic"
  using assms by (auto simp: perform_def split: prod.splits res.splits)

lemma perform_give [simp, io_eval]: "perform (give a) k = k a"
  by (rule ext) (simp add: perform_def give_def)

lemma perform_fail [simp, io_eval]: "perform (fail e) k = fail e"
  by (rule ext) (simp add: perform_def fail_def)

lemma perform_assoc: "perform (perform m k) l = perform m (\<lambda>a. perform (k a) l)"
  by (rule ext) (auto simp: perform_def split: prod.split res.split)

lemma perform_give_right [simp]: "perform m give = m"
  by (rule ext) (auto simp: perform_def give_def split: prod.split res.split)

lemma wrap_give [simp, io_eval]: "wrap c (give a) = give a"
  by (rule ext) (simp add: wrap_def give_def)

lemma wrap_fail [simp, io_eval]: "wrap c (fail e) = fail (c e)"
  by (rule ext) (simp add: wrap_def fail_def)

lemma give_app [io_eval]: "give a s = (Ok a, s)"
  by (simp add: give_def)

lemma fail_app [io_eval]: "fail e s = (Err e, s)"
  by (simp add: fail_def)

text \<open>What holds of the state before and after every operation, whatever its result.\<close>

definition keeps :: "('s \<Rightarrow> 's \<Rightarrow> bool) \<Rightarrow> ('s, 'a, 'e) io \<Rightarrow> bool" where
  "keeps R m \<longleftrightarrow> (\<forall>s. R s (snd (m s)))"

lemma keepsD: "keeps R m \<Longrightarrow> m s = (r, s') \<Longrightarrow> R s s'"
  unfolding keeps_def by (metis snd_conv)

lemma keeps_give: "reflp R \<Longrightarrow> keeps R (give a)"
  by (simp add: keeps_def give_def reflpD)

lemma keeps_fail: "reflp R \<Longrightarrow> keeps R (fail e)"
  by (simp add: keeps_def fail_def reflpD)

lemma keeps_from_res: "reflp R \<Longrightarrow> keeps R (from_res r)"
  by (simp add: keeps_def from_res_def reflpD)

lemma keeps_perform:
  assumes "transp R" and "keeps R m" and "\<And>a. keeps R (k a)"
  shows "keeps R (perform m k)"
  unfolding keeps_def
proof
  fix s
  obtain r s' where m: "m s = (r, s')" by fastforce
  with assms(2) have "R s s'" by (rule keepsD)
  with m assms(1,3) show "R s (snd (perform m k s))"
    by (cases r) (auto simp: perform_def keeps_def dest: transpD)
qed

lemma keeps_wrap: "keeps R m \<Longrightarrow> keeps R (wrap c m)"
  by (simp add: keeps_def wrap_def split_beta)

lemma keeps_caught:
  assumes "transp R" and "keeps R m" and "\<And>r. keeps R (k r)"
  shows "keeps R (caught m k)"
  unfolding keeps_def
proof
  fix s
  obtain r s' where m: "m s = (r, s')" by fastforce
  with assms(2) have "R s s'" by (rule keepsD)
  with m assms(1,3) show "R s (snd (caught m k s))"
    by (cases r) (auto simp: caught_def keeps_def dest: transpD)
qed

text \<open>
  Everything but the clock, the outside world and the actions is the program's own bookkeeping.
  An operation that is no business of the packet capture and the tasks leaves it alone, and
  only adds actions of the kinds in \<open>A\<close>.
\<close>

definition only_acts :: "(action \<Rightarrow> bool) \<Rightarrow> 'w host \<Rightarrow> 'w host \<Rightarrow> bool" where
  "only_acts A h h' \<longleftrightarrow>
     clock h \<le> clock h' \<and>
     handles h' = handles h \<and> next_handle h' = next_handle h \<and> workers h' = workers h \<and>
     running h' = running h \<and> sockets h' = sockets h \<and> tasks h' = tasks h \<and>
     (\<exists>new. actions h' = actions h @ new \<and> list_all A new)"

lemma reflp_only_acts: "reflp (only_acts A)"
  by (rule reflpI) (simp add: only_acts_def)

lemma transp_only_acts: "transp (only_acts A)"
  by (rule transpI) (auto simp: only_acts_def)

lemma only_acts_mono: "only_acts A h h' \<Longrightarrow> (\<And>a. A a \<Longrightarrow> B a) \<Longrightarrow> only_acts B h h'"
  unfolding only_acts_def by (metis list.pred_mono_strong)

lemma keeps_call: "keeps (only_acts A) (call f)"
  by (auto simp: keeps_def call_def only_acts_def split: prod.split)

lemma keeps_emit: "A a \<Longrightarrow> keeps (only_acts A) (emit a)"
  by (simp add: keeps_def emit_def only_acts_def)

lemma keeps_println: "A (Printed s) \<Longrightarrow> keeps (only_acts A) (println s)"
  by (simp add: println_def keeps_emit)

lemma keeps_sleep: "keeps (only_acts A) (sleep ms)"
  by (simp add: keeps_def sleep_def only_acts_def)

lemma keeps_if: "keeps R m \<Longrightarrow> keeps R n \<Longrightarrow> keeps R (if b then m else n)"
  by simp

lemmas keeps_acts =
  keeps_give [OF reflp_only_acts] keeps_fail [OF reflp_only_acts]
  keeps_from_res [OF reflp_only_acts] keeps_perform [OF transp_only_acts] keeps_wrap
  keeps_caught [OF transp_only_acts] keeps_call keeps_emit keeps_println keeps_sleep keeps_if

lemma keeps_powershell_available: "keeps (only_acts A) (powershell_available sh)"
  unfolding powershell_available_def run_shell_def by (intro keeps_acts)

lemma keeps_powershell:
  "A (Run_powershell name) \<Longrightarrow> keeps (only_acts A) (powershell_with_env_named sh name command envs)"
  unfolding powershell_with_env_named_def run_shell_def by (intro keeps_acts)

lemma powershell_available_total:
  obtains b h' where "powershell_available sh h = (Ok b, h')" and "only_acts A h h'"
proof -
  obtain r t w where "sh (lit ''$PSVersionTable.PSVersion.Major'') [] (world h) = (r, t, w)"
    by (metis prod.exhaust)
  then show thesis
    using that keeps_powershell_available [of A sh]
    by (cases r) (auto simp: powershell_available_def run_shell_def caught_def call_def give_def keeps_def
        only_acts_def)
qed

subsection \<open>Preconditions and postconditions\<close>

text \<open>
  From a state with \<open>P\<close> the operation does not panic; it ends in \<open>Q\<close> of its value or
  in \<open>E\<close> of its error.
\<close>

definition holds ::
  "('s \<Rightarrow> bool) \<Rightarrow> ('s, 'a, 'e) io \<Rightarrow> ('a \<Rightarrow> 's \<Rightarrow> bool) \<Rightarrow> ('e \<Rightarrow> 's \<Rightarrow> bool) \<Rightarrow> bool" where
  "holds P m Q E \<longleftrightarrow>
     (\<forall>s. P s \<longrightarrow> (case m s of (Ok a, s') \<Rightarrow> Q a s' | (Err e, s') \<Rightarrow> E e s' | (Panic, s') \<Rightarrow> False))"

lemma holdsI:
  "(\<And>s. P s \<Longrightarrow> (\<exists>a s'. m s = (Ok a, s') \<and> Q a s') \<or> (\<exists>e s'. m s = (Err e, s') \<and> E e s')) \<Longrightarrow> holds P m Q E"
  unfolding holds_def by fastforce

lemma holds_Ok: "holds P m Q E \<Longrightarrow> P s \<Longrightarrow> m s = (Ok a, s') \<Longrightarrow> Q a s'"
  unfolding holds_def by fastforce

lemma holds_Err: "holds P m Q E \<Longrightarrow> P s \<Longrightarrow> m s = (Err e, s') \<Longrightarrow> E e s'"
  unfolding holds_def by fastforce

lemma holds_no_panic: "holds P m Q E \<Longrightarrow> P s \<Longrightarrow> m s \<noteq> (Panic, s')"
  unfolding holds_def by fastforce

lemma holds_cases:
  assumes "holds P m Q E" and "P s"
  obtains a s' where "m s = (Ok a, s')" and "Q a s'" | e s' where "m s = (Err e, s')" and "E e s'"
proof -
  obtain r s' where "m s = (r, s')" by fastforce
  with assms that show thesis
    by (cases r) (auto dest: holds_Ok holds_Err holds_no_panic)
qed

lemma holds_perform:
  assumes "holds P m Q E" and "\<And>a. holds (Q a) (k a) R E"
  shows "holds P (perform m k) R E"
proof (rule holdsI)
  fix s assume "P s"
  with assms(1) show "(\<exists>a s'. perform m k s = (Ok a, s') \<and> R a s') \<or> (\<exists>e s'. perform m k s = (Err e, s') \<and> E e s')"
  proof (cases rule: holds_cases)
    case (1 a s')
    from assms(2) 1(2) show ?thesis by (cases rule: holds_cases) (simp_all add: perform_def 1(1))
  qed (simp add: perform_def)
qed

lemma holds_give: "(\<And>s. P s \<Longrightarrow> Q a s) \<Longrightarrow> holds P (give a) Q E"
  by (simp add: holds_def give_def)

lemma holds_fail: "(\<And>s. P s \<Longrightarrow> E e s) \<Longrightarrow> holds P (fail e) Q E"
  by (simp add: holds_def fail_def)

lemma holds_from_res:
  "r \<noteq> Panic \<Longrightarrow> (\<And>a s. r = Ok a \<Longrightarrow> P s \<Longrightarrow> Q a s) \<Longrightarrow> (\<And>e s. r = Err e \<Longrightarrow> P s \<Longrightarrow> E e s) \<Longrightarrow>
     holds P (from_res r) Q E"
  by (cases r) (simp_all add: holds_def from_res_def)

lemma holds_wrap: "holds P m Q (\<lambda>e. E (c e)) \<Longrightarrow> holds P (wrap c m) Q E"
proof (rule holdsI)
  fix s
  assume "holds P m Q (\<lambda>e. E (c e))" and "P s"
  then show "(\<exists>a s'. wrap c m s = (Ok a, s') \<and> Q a s') \<or> (\<exists>e s'. wrap c m s = (Err e, s') \<and> E e s')"
    by (cases rule: holds_cases) (simp_all add: wrap_def)
qed

lemma holds_caught:
  assumes "holds P m Q F" and "\<And>a. holds (Q a) (k (Ok a)) R E" and "\<And>e. holds (F e) (k (Err e)) R E"
  shows "holds P (caught m k) R E"
proof (rule holdsI)
  fix s assume "P s"
  with assms(1) show "(\<exists>a s'. caught m k s = (Ok a, s') \<and> R a s') \<or> (\<exists>e s'. caught m k s = (Err e, s') \<and> E e s')"
  proof (cases rule: holds_cases)
    case (1 a s')
    from assms(2) 1(2) show ?thesis by (cases rule: holds_cases) (simp_all add: caught_def 1(1))
  next
    case (2 e s')
    from assms(3) 2(2) show ?thesis by (cases rule: holds_cases) (simp_all add: caught_def 2(1))
  qed
qed

lemma holds_if: "(b \<Longrightarrow> holds P m Q E) \<Longrightarrow> (\<not> b \<Longrightarrow> holds P n Q E) \<Longrightarrow> holds P (if b then m else n) Q E"
  by simp

lemma holds_conseq:
  "holds P' m Q' E' \<Longrightarrow> (\<And>s. P s \<Longrightarrow> P' s) \<Longrightarrow> (\<And>a s. Q' a s \<Longrightarrow> Q a s) \<Longrightarrow> (\<And>e s. E' e s \<Longrightarrow> E e s) \<Longrightarrow>
     holds P m Q E"
proof (rule holdsI)
  fix s
  assume "holds P' m Q' E'" and "\<And>s. P s \<Longrightarrow> P' s" and "P s"
    and post: "\<And>a s. Q' a s \<Longrightarrow> Q a s" "\<And>e s. E' e s \<Longrightarrow> E e s"
  then have "holds P' m Q' E'" and "P' s" by blast+
  then show "(\<exists>a s'. m s = (Ok a, s') \<and> Q a s') \<or> (\<exists>e s'. m s = (Err e, s') \<and> E e s')"
    by (cases rule: holds_cases) (auto dest: post)
qed

text \<open>An operation that does not panic keeps whatever its relation keeps.\<close>

definition never_panics :: "('s, 'a, 'e) io \<Rightarrow> bool" where
  "never_panics m \<longleftrightarrow> (\<forall>s. fst (m s) \<noteq> Panic)"

lemma holds_keeps:
  assumes "never_panics m" and "keeps R m" and "\<And>s s' a. P s \<Longrightarrow> R s s' \<Longrightarrow> Q a s'"
    and "\<And>s s' e. P s \<Longrightarrow> R s s' \<Longrightarrow> E e s'"
  shows "holds P m Q E"
proof (rule holdsI)
  fix s assume P: "P s"
  obtain r s' where m: "m s = (r, s')" by fastforce
  with assms(2) have R: "R s s'" by (rule keepsD)
  have "r \<noteq> Panic" using assms(1) m unfolding never_panics_def by (metis fst_conv)
  with m R P assms(3,4) show "(\<exists>a s'. m s = (Ok a, s') \<and> Q a s') \<or> (\<exists>e s'. m s = (Err e, s') \<and> E e s')"
    by (cases r) auto
qed

lemma never_panics_iff: "never_panics m \<longleftrightarrow> holds (\<lambda>_. True) m (\<lambda>_ _. True) (\<lambda>_ _. True)"
  unfolding never_panics_def holds_def by (auto split: prod.split res.split simp: prod_eq_iff)

lemma never_panics_perform: "never_panics m \<Longrightarrow> (\<And>a. never_panics (k a)) \<Longrightarrow> never_panics (perform m k)"
  unfolding never_panics_iff by (rule holds_perform)

lemma never_panics_caught:
  "never_panics m \<Longrightarrow> (\<And>a. never_panics (k (Ok a))) \<Longrightarrow> (\<And>e. never_panics (k (Err e))) \<Longrightarrow> never_panics (caught m k)"
  unfolding never_panics_iff by (rule holds_caught)

lemma never_panics_wrap: "never_panics m \<Longrightarrow> never_panics (wrap c m)"
  unfolding never_panics_iff by (rule holds_wrap)

lemma never_panics_basic:
  "never_panics (give a)" "never_panics (fail e)" "never_panics (emit x)" "never_panics (println t)"
  "never_panics (sleep n)"
  by (simp_all add: never_panics_def give_def fail_def emit_def println_def sleep_def)

lemma never_panics_from_res: "r \<noteq> Panic \<Longrightarrow> never_panics (from_res r)"
  by (simp add: never_panics_def from_res_def)

lemma never_panics_if: "never_panics m \<Longrightarrow> never_panics n \<Longrightarrow> never_panics (if b then m else n)"
  by simp

lemma never_panics_run_shell: "never_panics (run_shell sh command envs)"
  unfolding never_panics_def run_shell_def call_def
  by (auto split: prod.split)

lemmas panics_never =
  never_panics_perform never_panics_caught never_panics_wrap never_panics_basic never_panics_from_res
  never_panics_if never_panics_run_shell

lemma never_panics_shell:
  "never_panics (powershell_available sh)" "never_panics (powershell_with_env_named sh name command envs)"
  "never_panics (powershell sh command)" "never_panics (powershell_named sh name command)"
  unfolding powershell_available_def powershell_with_env_named_def powershell_def powershell_named_def
  by (intro panics_never)+

end
