(* ===== verification/Hotspot_Control.thy ===== *)
theory Hotspot_Control
  imports Hotspot Host
begin

section \<open>Hotspot control (src/src/hotspot.rs)\<close>

text \<open>
  Starting, stopping and querying Windows Mobile Hotspot. The native path goes through the
  WinRT tethering manager, which is not part of the repository: the record \<open>winrt\<close> has one
  external call for each of its methods the code uses, with a result code for a failed one.
  When the native path fails, a PowerShell script does the same if there is a PowerShell.

  Configuring and starting are asynchronous: the code polls the service every 250 ms until it
  reports the expected value, for at most 30 s. The loop is a recursion over the clock of the
  host, which every poll moves forward. The lemmas show that it ends in time, that a successful
  start or stop has seen the service in the state it wanted, and when the fallback is used.
  A panic of a blocking task (\<open>JoinError\<close>) is not modelled: the tasks do not panic.
\<close>

subsection \<open>The tethering service\<close>

datatype tethering_state = State_unknown | State_on | State_off | State_in_transition

datatype tethering_capability = Capability_enabled | Capability_other nat

datatype operation_status = Op_success | Op_failure nat

datatype winrt_band = Band_auto | Band_two_point_four | Band_five

record access_point_config =
  ac_ssid :: str
  ac_passphrase :: str
  ac_wpa2 :: bool
  ac_band :: winrt_band

record operation_result =
  or_status :: "nat + operation_status"
  or_message :: "nat + str"

record 'w winrt =
  wr_profile :: "('w, nat + unit) external"
  wr_capability :: "('w, nat + tethering_capability) external"
  wr_manager :: "('w, nat + unit) external"
  wr_access_point :: "('w, nat + access_point_config) external"
  wr_read_ssid :: "access_point_config \<Rightarrow> nat + str"
  wr_setter :: "str \<Rightarrow> nat + unit"
  wr_configure :: "access_point_config \<Rightarrow> ('w, nat + unit) external"
  wr_configure_join :: "('w, nat + unit) external"
  wr_state :: "('w, nat + tethering_state) external"
  wr_start :: "('w, nat + unit) external"
  wr_start_join :: "('w, nat + operation_result) external"
  wr_stop :: "('w, nat + unit) external"
  wr_stop_join :: "('w, nat + operation_result) external"

datatype control_error =
  Api str nat
| Capability_is tethering_capability
| Operation_failed str operation_status str
| State_timeout str tethering_state tethering_state
| Ssid_timeout str str
| Control_unavailable
| Script_error shell_error
| Fallback_failed control_error shell_error
| Discovery_error hotspot_error

fun of_sum :: "'e + 'a \<Rightarrow> ('a, 'e) res" where
  "of_sum (Inl e) = Err e"
| "of_sum (Inr a) = Ok a"

definition ask :: "('w, 'e + 'a) external \<Rightarrow> ('w host, 'a, 'e) io" where
  "ask f = call (\<lambda>w. case f w of (r, t, w') \<Rightarrow> (of_sum r, t, w'))"

definition api :: "str \<Rightarrow> ('w, nat + 'a) external \<Rightarrow> ('w host, 'a, control_error) io" where
  "api what f = wrap (Api what) (ask f)"

subsection \<open>Waiting\<close>

lemma ask_clock: "ask f h = (r, h') \<Longrightarrow> clock h \<le> clock h'"
  by (auto simp: ask_def call_def split: prod.splits)

lemma ask_time:
  assumes "ask f h = (r, h')"
  shows "clock h' = clock h + fst (snd (f (world h)))" "late h' = late h"
  using assms by (auto simp: ask_def call_def split: prod.splits)

text \<open>
  The loop of both waits: ask, stop if the answer is the expected one, give up if the time is
  over, sleep 250 ms.
\<close>

function poll_loop ::
  "('w, 'e + 'a) external \<Rightarrow> ('a \<Rightarrow> bool) \<Rightarrow> ('a \<Rightarrow> 'e) \<Rightarrow> nat \<Rightarrow> ('w host, unit, 'e) io" where
  "poll_loop query expected give_up timeout_at h =
     (case ask query h of
        (Ok current, h') \<Rightarrow>
          if expected current then (Ok (), h')
          else if timeout_at \<le> clock h' then (Err (give_up current), h')
          else poll_loop query expected give_up timeout_at (snd ((sleep 250 :: ('w host, unit, unit) io) h'))
      | (Err e, h') \<Rightarrow> (Err e, h')
      | (Panic, h') \<Rightarrow> (Panic, h'))"
  by pat_completeness auto

termination
  by (relation "measure (\<lambda>(query, expected, give_up, timeout_at, h). timeout_at - clock h)")
    (auto simp: sleep_def dest!: ask_clock [OF sym])

declare poll_loop.simps [simp del]

definition wait_timeout :: nat where
  "wait_timeout = 30000"

definition wait_native_hotspot_state ::
  "'w winrt \<Rightarrow> tethering_state \<Rightarrow> str \<Rightarrow> ('w host, unit, control_error) io" where
  "wait_native_hotspot_state rt expected operation_name h =
     poll_loop
       (\<lambda>w. case wr_state rt w of (r, t, w') \<Rightarrow> (map_sum (Api (lit ''query native WinRT tethering state'')) id r, t, w'))
       (\<lambda>current. current = expected) (State_timeout operation_name expected)
       (clock h + wait_timeout) h"

definition query_ssid :: "'w winrt \<Rightarrow> ('w, control_error + str) external" where
  "query_ssid rt w =
     (case wr_access_point rt w of
        (Inl e, t, w') \<Rightarrow> (Inl (Api (lit ''query native WinRT hotspot access point configuration'') e), t, w')
      | (Inr ap, t, w') \<Rightarrow> (map_sum (Api (lit ''query native WinRT hotspot SSID'')) id (wr_read_ssid rt ap), t, w'))"

definition wait_native_hotspot_ssid :: "'w winrt \<Rightarrow> str \<Rightarrow> ('w host, unit, control_error) io" where
  "wait_native_hotspot_ssid rt expected h =
     poll_loop (query_ssid rt) (\<lambda>current. current = expected) (Ssid_timeout expected)
       (clock h + wait_timeout) h"

subsection \<open>The native path\<close>

definition native_tethering_band :: "hotspot_band \<Rightarrow> winrt_band" where
  "native_tethering_band band =
     (case band of
        Auto \<Rightarrow> Band_auto
      | TwoGhz \<Rightarrow> Band_two_point_four
      | FiveGhz \<Rightarrow> Band_five)"

definition ensure_tethering_operation_success ::
  "str \<Rightarrow> operation_result \<Rightarrow> ('w host, unit, control_error) io" where
  "ensure_tethering_operation_success operation_name result =
     perform (from_res (map_err (Api (lit ''query native '' @ operation_name @ lit '' result status'')) (of_sum (or_status result)))) (\<lambda>status.
       if status = Op_success then give ()
       else
         let message = (case or_message result of Inr m \<Rightarrow> m | Inl e \<Rightarrow> []) in
         if trim message = [] then fail (Operation_failed operation_name status [])
         else fail (Operation_failed operation_name status message))"

definition native_tethering_manager :: "'w winrt \<Rightarrow> ('w host, unit, control_error) io" where
  "native_tethering_manager rt =
     perform (api (lit ''get internet connection profile'') (wr_profile rt)) (\<lambda>_.
     api (lit ''create native WinRT tethering manager'') (wr_manager rt))"

text \<open>A setter of the access point configuration object.\<close>

definition set_field ::
  "'w winrt \<Rightarrow> str \<Rightarrow> str \<Rightarrow> ('w host, unit, control_error) io" where
  "set_field rt what name = from_res (map_err (Api what) (of_sum (wr_setter rt name)))"

definition configured :: "hotspot_config \<Rightarrow> access_point_config \<Rightarrow> access_point_config" where
  "configured config ap =
     ap\<lparr>ac_ssid := hs_ssid config, ac_passphrase := hs_password config, ac_wpa2 := True,
       ac_band := native_tethering_band (hs_band config)\<rparr>"

definition native_hotspot_start ::
  "'w winrt \<Rightarrow> hotspot_config \<Rightarrow> ('w host, unit, control_error) io" where
  "native_hotspot_start rt config =
     perform (api (lit ''get internet connection profile'') (wr_profile rt)) (\<lambda>_.
     perform (api (lit ''query native WinRT tethering capability'') (wr_capability rt)) (\<lambda>capability.
     if capability \<noteq> Capability_enabled then fail (Capability_is capability)
     else
     perform (api (lit ''create native WinRT tethering manager'') (wr_manager rt)) (\<lambda>_.
     perform (api (lit ''query native WinRT hotspot access point configuration'') (wr_access_point rt)) (\<lambda>access_point.
     perform (set_field rt (lit ''set native WinRT hotspot SSID'') (lit ''SetSsid'')) (\<lambda>_.
     perform (set_field rt (lit ''set native WinRT hotspot passphrase'') (lit ''SetPassphrase'')) (\<lambda>_.
     perform (set_field rt (lit ''set native WinRT hotspot WPA2 authentication'') (lit ''SetAuthenticationKind'')) (\<lambda>_.
     perform (set_field rt (lit ''set native WinRT hotspot band'') (lit ''SetBand'')) (\<lambda>_.
     perform (emit (Configure_tethering (hs_ssid config))) (\<lambda>_.
     perform (api (lit ''start native ConfigureAccessPointAsync'') (wr_configure rt (configured config access_point))) (\<lambda>_.
     perform (api (lit ''wait for native ConfigureAccessPointAsync'') (wr_configure_join rt)) (\<lambda>_.
     perform (wait_native_hotspot_ssid rt (hs_ssid config)) (\<lambda>_.
     perform (api (lit ''query native WinRT tethering state'') (wr_state rt)) (\<lambda>state.
     if state \<noteq> State_on
     then
       perform (emit Start_tethering) (\<lambda>_.
       perform (api (lit ''start native StartTetheringAsync'') (wr_start rt)) (\<lambda>_.
       perform (api (lit ''wait for native StartTetheringAsync'') (wr_start_join rt)) (\<lambda>result.
       perform (ensure_tethering_operation_success (lit ''StartTetheringAsync'') result) (\<lambda>_.
       wait_native_hotspot_state rt State_on (lit ''StartTetheringAsync'')))))
     else give ())))))))))))))"

definition native_hotspot_stop :: "'w winrt \<Rightarrow> ('w host, unit, control_error) io" where
  "native_hotspot_stop rt =
     perform (native_tethering_manager rt) (\<lambda>_.
     perform (api (lit ''query native WinRT tethering state'') (wr_state rt)) (\<lambda>state.
     if state \<noteq> State_off
     then
       perform (emit Stop_tethering) (\<lambda>_.
       perform (api (lit ''start native StopTetheringAsync'') (wr_stop rt)) (\<lambda>_.
       perform (api (lit ''wait for native StopTetheringAsync'') (wr_stop_join rt)) (\<lambda>result.
       perform (ensure_tethering_operation_success (lit ''StopTetheringAsync'') result) (\<lambda>_.
       wait_native_hotspot_state rt State_off (lit ''StopTetheringAsync'')))))
     else give ()))"

definition native_hotspot_status :: "'w winrt \<Rightarrow> ('w host, hotspot_status, control_error) io" where
  "native_hotspot_status rt =
     perform (native_tethering_manager rt) (\<lambda>_.
     perform (api (lit ''query native WinRT tethering state'') (wr_state rt)) (\<lambda>state.
     give (case state of State_on \<Rightarrow> Running | State_off \<Rightarrow> Stopped | _ \<Rightarrow> Unknown)))"

definition native_hotspot_access_point ::
  "'w winrt \<Rightarrow> ('w host, hotspot_access_point option, control_error) io" where
  "native_hotspot_access_point rt =
     perform (native_tethering_manager rt) (\<lambda>_.
     perform (ask (query_ssid rt)) (\<lambda>ssid.
     give (if trim ssid = [] then None else Some \<lparr>ap_ssid = ssid\<rparr>)))"

subsection \<open>The controller, with its fallback\<close>

definition hotspot_start_script :: str where
  "hotspot_start_script = lit ''HOTSPOT_START_SCRIPT''"

definition hotspot_stop_script :: str where
  "hotspot_stop_script = lit ''HOTSPOT_STOP_SCRIPT''"

definition hotspot_status_script :: str where
  "hotspot_status_script = lit ''HOTSPOT_STATUS_SCRIPT''"

definition hotspot_access_point_script :: str where
  "hotspot_access_point_script = lit ''HOTSPOT_ACCESS_POINT_SCRIPT''"

definition hotspot_interface_discovery_script :: str where
  "hotspot_interface_discovery_script = lit ''HOTSPOT_INTERFACE_DISCOVERY_SCRIPT''"

text \<open>
  Both \<open>start\<close> and \<open>stop\<close>: the native error is the result if there is no PowerShell; the
  test for it is made twice.
\<close>

definition with_fallback ::
  "'w shell \<Rightarrow> ('w host, unit, control_error) io \<Rightarrow> ('w host, str, shell_error) io \<Rightarrow>
     ('w host, unit, control_error) io" where
  "with_fallback sh native script =
     caught native (\<lambda>r.
       case r of
         Ok _ \<Rightarrow> give ()
       | Err native_error \<Rightarrow>
           perform (powershell_available sh) (\<lambda>available.
           if \<not> available then fail native_error
           else
             perform (powershell_available sh) (\<lambda>available.
             if \<not> available then fail Control_unavailable
             else perform (wrap (Fallback_failed native_error) script) (\<lambda>_. give ())))
       | Panic \<Rightarrow> from_res Panic)"

definition windows_hotspot_start ::
  "'w winrt \<Rightarrow> 'w shell \<Rightarrow> hotspot_config \<Rightarrow> ('w host, unit, control_error) io" where
  "windows_hotspot_start rt sh config =
     with_fallback sh (native_hotspot_start rt config)
       (powershell_with_env_named sh (lit ''hotspot start'') hotspot_start_script
          [(lit ''HPROXY_HOTSPOT_SSID'', hs_ssid config),
           (lit ''HPROXY_HOTSPOT_PASSWORD'', hs_password config),
           (lit ''HPROXY_HOTSPOT_BAND'', tethering_band_name (hs_band config))])"

definition windows_hotspot_stop :: "'w winrt \<Rightarrow> 'w shell \<Rightarrow> ('w host, unit, control_error) io" where
  "windows_hotspot_stop rt sh =
     with_fallback sh (native_hotspot_stop rt)
       (powershell_named sh (lit ''hotspot stop'') hotspot_stop_script)"

text \<open>Both queries: without PowerShell a failed native query has a neutral answer.\<close>

definition query_with_fallback ::
  "'w shell \<Rightarrow> ('w host, 'a, control_error) io \<Rightarrow> 'a \<Rightarrow> ('w host, 'a, control_error) io \<Rightarrow>
     ('w host, 'a, control_error) io" where
  "query_with_fallback sh native neutral fallback =
     caught native (\<lambda>r.
       case r of
         Ok a \<Rightarrow> give a
       | Err _ \<Rightarrow>
           perform (powershell_available sh) (\<lambda>available.
           if \<not> available then give neutral
           else
             perform (powershell_available sh) (\<lambda>available.
             if \<not> available then give neutral else fallback))
       | Panic \<Rightarrow> from_res Panic)"

definition windows_hotspot_status ::
  "'w winrt \<Rightarrow> 'w shell \<Rightarrow> ('w host, hotspot_status, control_error) io" where
  "windows_hotspot_status rt sh =
     query_with_fallback sh (native_hotspot_status rt) Unknown
       (perform (wrap Script_error (powershell_named sh (lit ''hotspot status'') hotspot_status_script)) (\<lambda>output.
        give (parse_hotspot_status output)))"

definition windows_hotspot_access_point ::
  "'w winrt \<Rightarrow> 'w shell \<Rightarrow> ('w host, hotspot_access_point option, control_error) io" where
  "windows_hotspot_access_point rt sh =
     query_with_fallback sh (native_hotspot_access_point rt) None
       (perform (wrap Script_error
          (powershell_named sh (lit ''hotspot access point'') hotspot_access_point_script)) (\<lambda>output.
        give (parse_hotspot_access_point output)))"

definition windows_discover_hotspot ::
  "('w \<Rightarrow> nat \<Rightarrow> adapters_result) \<Rightarrow> 'w shell \<Rightarrow> ('w host, hotspot_runtime, control_error) io" where
  "windows_discover_hotspot adapters sh h =
     (case discover_native (adapters (world h)) of
        Ok runtime \<Rightarrow> give runtime h
      | Panic \<Rightarrow> from_res Panic h
      | Err native_error \<Rightarrow>
          perform (powershell_available sh) (\<lambda>available.
          if \<not> available then fail (Discovery_error native_error)
          else
            perform (wrap Script_error (powershell sh hotspot_interface_discovery_script)) (\<lambda>output.
            from_res (map_err Discovery_error (parse_hotspot_runtime output)))) h)"

subsection \<open>Frames\<close>

definition hotspot_action :: "action \<Rightarrow> bool" where
  "hotspot_action a =
     (case a of
        Configure_tethering s \<Rightarrow> True
      | Start_tethering \<Rightarrow> True
      | Stop_tethering \<Rightarrow> True
      | Run_powershell s \<Rightarrow> True
      | _ \<Rightarrow> False)"

lemma keeps_ask: "keeps (only_acts A) (ask f)"
  unfolding ask_def by (rule keeps_call)

lemma keeps_api: "keeps (only_acts A) (api what f)"
  unfolding api_def by (intro keeps_acts keeps_ask)

lemma keeps_poll_loop: "only_acts A h (snd (poll_loop query expected give_up timeout_at h))"
proof (induction query expected give_up timeout_at h rule: poll_loop.induct)
  case (1 query expected give_up timeout_at h)
  obtain r h' where a: "ask query h = (r, h')" by fastforce
  with keeps_ask have acts: "only_acts A h h'" by (rule keepsD)
  show ?case
  proof (cases "\<exists>current. r = Ok current \<and> \<not> expected current \<and> \<not> timeout_at \<le> clock h'")
    case True
    then obtain current where r: "r = Ok current" "\<not> expected current" "\<not> timeout_at \<le> clock h'" by blast
    have "only_acts A h' (snd ((sleep 250 :: ('a host, unit, unit) io) h'))"
      using keeps_sleep unfolding keeps_def by blast
    with acts 1 [OF a [symmetric] r] transp_only_acts
    have "only_acts A h (snd (poll_loop query expected give_up timeout_at
        (snd ((sleep 250 :: ('a host, unit, unit) io) h'))))" by (metis transpD)
    with a r show ?thesis by (subst poll_loop.simps) simp
  next
    case False
    with a acts show ?thesis
      by (subst poll_loop.simps) (auto split: res.split)
  qed
qed

lemma keeps_waits:
  "keeps (only_acts A) (wait_native_hotspot_state rt s op)"
  "keeps (only_acts A) (wait_native_hotspot_ssid rt ssid)"
  by (simp_all add: keeps_def wait_native_hotspot_state_def wait_native_hotspot_ssid_def keeps_poll_loop)

lemma keeps_set_field: "keeps (only_acts A) (set_field rt what name)"
  unfolding set_field_def by (intro keeps_acts)

lemma keeps_ensure: "keeps (only_acts A) (ensure_tethering_operation_success op result)"
  unfolding ensure_tethering_operation_success_def Let_def by (intro keeps_acts)

lemmas keeps_hotspot = keeps_acts keeps_ask keeps_api keeps_waits keeps_set_field keeps_ensure

lemma hotspot_actions [simp]:
  "hotspot_action (Configure_tethering s)" "hotspot_action Start_tethering"
  "hotspot_action Stop_tethering" "hotspot_action (Run_powershell s)"
  by (simp_all add: hotspot_action_def)

lemma keeps_native_start: "keeps (only_acts hotspot_action) (native_hotspot_start rt config)"
  unfolding native_hotspot_start_def by (intro keeps_hotspot) simp_all

lemma keeps_manager: "keeps (only_acts A) (native_tethering_manager rt)"
  unfolding native_tethering_manager_def by (intro keeps_hotspot)

lemma keeps_native_stop: "keeps (only_acts hotspot_action) (native_hotspot_stop rt)"
  unfolding native_hotspot_stop_def by (intro keeps_hotspot keeps_manager) simp_all

lemma keeps_native_queries:
  "keeps (only_acts A) (native_hotspot_status rt)" "keeps (only_acts A) (native_hotspot_access_point rt)"
  unfolding native_hotspot_status_def native_hotspot_access_point_def
  by (intro keeps_hotspot keeps_manager)+

lemma keeps_with_fallback:
  "keeps (only_acts hotspot_action) native \<Longrightarrow> keeps (only_acts hotspot_action) script \<Longrightarrow>
     keeps (only_acts hotspot_action) (with_fallback sh native script)"
  unfolding with_fallback_def
  by (intro keeps_acts) (auto intro!: keeps_acts keeps_powershell_available split: res.split)

lemma keeps_query_with_fallback:
  "keeps (only_acts hotspot_action) native \<Longrightarrow> keeps (only_acts hotspot_action) fallback \<Longrightarrow>
     keeps (only_acts hotspot_action) (query_with_fallback sh native neutral fallback)"
  unfolding query_with_fallback_def
  by (intro keeps_acts) (auto intro!: keeps_acts keeps_powershell_available split: res.split)

lemma keeps_windows_start: "keeps (only_acts hotspot_action) (windows_hotspot_start rt sh config)"
  unfolding windows_hotspot_start_def
  by (intro keeps_with_fallback keeps_native_start keeps_powershell) simp

lemma keeps_windows_stop: "keeps (only_acts hotspot_action) (windows_hotspot_stop rt sh)"
  unfolding windows_hotspot_stop_def powershell_named_def
  by (intro keeps_with_fallback keeps_native_stop keeps_powershell) simp

lemma keeps_windows_status: "keeps (only_acts hotspot_action) (windows_hotspot_status rt sh)"
  unfolding windows_hotspot_status_def powershell_named_def
  by (intro keeps_query_with_fallback keeps_native_queries keeps_acts keeps_powershell) simp

lemma keeps_windows_access_point: "keeps (only_acts hotspot_action) (windows_hotspot_access_point rt sh)"
  unfolding windows_hotspot_access_point_def powershell_named_def
  by (intro keeps_query_with_fallback keeps_native_queries keeps_acts keeps_powershell) simp

lemma keeps_windows_discover: "keeps (only_acts hotspot_action) (windows_discover_hotspot adapters sh)"
proof -
  have "keeps (only_acts hotspot_action)
    (perform (powershell_available sh) (\<lambda>available.
          if \<not> available then fail (Discovery_error native_error)
          else
            perform (wrap Script_error (powershell sh hotspot_interface_discovery_script)) (\<lambda>output.
            from_res (map_err Discovery_error (parse_hotspot_runtime output)))))" for native_error
    unfolding powershell_def powershell_named_def
    by (intro keeps_acts keeps_powershell_available keeps_powershell) simp
  then show ?thesis
    by (auto simp: keeps_def windows_discover_hotspot_def give_def from_res_def
        reflpD [OF reflp_only_acts] split: res.split)
qed

subsection \<open>What a wait has seen, and when it ends\<close>

text \<open>An external call as a relation between worlds.\<close>

definition answers :: "('w, 'a) external \<Rightarrow> 'w \<Rightarrow> 'a \<Rightarrow> 'w \<Rightarrow> bool" where
  "answers f w a w' \<longleftrightarrow> (\<exists>t. f w = (a, t, w'))"

lemma ask_Ok: "ask f h = (Ok a, h') \<Longrightarrow> answers f (world h) (Inr a) (world h')"
  by (cases "fst (f (world h))") (auto simp: ask_def call_def answers_def split: prod.splits)

lemma ask_no_panic: "ask f h \<noteq> (Panic, h')"
  by (cases "fst (f (world h))") (auto simp: ask_def call_def split: prod.splits)

lemma poll_loop_seen:
  "poll_loop query expected give_up timeout_at h = (Ok (), h') \<Longrightarrow>
     \<exists>w current. expected current \<and> answers query w (Inr current) (world h')"
proof (induction query expected give_up timeout_at h rule: poll_loop.induct)
  case (1 query expected give_up timeout_at h)
  obtain r h1 where a: "ask query h = (r, h1)" by fastforce
  show ?case
  proof (cases r)
    case (Ok current)
    show ?thesis
    proof (cases "expected current")
      case True
      with 1(2) a Ok have "h1 = h'" by (simp add: poll_loop.simps)
      with True a Ok show ?thesis by (auto dest: ask_Ok)
    next
      case False
      with 1(2) a Ok have "\<not> timeout_at \<le> clock h1" by (auto simp: poll_loop.simps split: if_splits)
      with 1(1) [OF a [symmetric] Ok False] 1(2) a Ok False show ?thesis
        by (simp add: poll_loop.simps [of query _ _ _ h])
    qed
  qed (use 1(2) a in \<open>simp_all add: poll_loop.simps\<close>)
qed

lemma poll_loop_no_panic: "fst (poll_loop query expected give_up timeout_at h) \<noteq> Panic"
proof (induction query expected give_up timeout_at h rule: poll_loop.induct)
  case (1 query expected give_up timeout_at h)
  obtain r h1 where a: "ask query h = (r, h1)" by fastforce
  with ask_no_panic [of query h h1] 1(1) [OF a [symmetric]] show ?case
    by (cases r) (auto simp: poll_loop.simps [of query _ _ _ h])
qed

text \<open>How long a wait takes if no single query takes longer than \<open>d\<close>.\<close>

lemma poll_loop_time:
  assumes "\<And>w. fst (snd (query w)) \<le> d" and "\<And>t. late h t \<le> l"
  shows "clock (snd (poll_loop query expected give_up timeout_at h)) \<le>
    max (clock h) (timeout_at + 250 + l) + d"
  using assms
proof (induction query expected give_up timeout_at h rule: poll_loop.induct)
  case (1 query expected give_up timeout_at h)
  obtain r h1 where a: "ask query h = (r, h1)" by fastforce
  have t: "clock h1 \<le> clock h + d" using ask_time [OF a] 1(2) by (simp add: order_subst1)
  have l1: "late h1 t \<le> l" for t using ask_time [OF a] 1(3) by simp
  show ?case
  proof (cases "\<exists>current. r = Ok current \<and> \<not> expected current \<and> \<not> timeout_at \<le> clock h1")
    case True
    then obtain current where r: "r = Ok current" "\<not> expected current" "\<not> timeout_at \<le> clock h1" by blast
    let ?s = "snd ((sleep 250 :: ('a host, unit, unit) io) h1)"
    have "clock ?s \<le> timeout_at + 250 + l" using r l1 [of "clock h1"] by (simp add: sleep_def)
    moreover have "clock (snd (poll_loop query expected give_up timeout_at ?s)) \<le>
        max (clock ?s) (timeout_at + 250 + l) + d"
      using 1(1) [OF a [symmetric] r] 1(2) l1 by (simp add: sleep_def)
    ultimately have "clock (snd (poll_loop query expected give_up timeout_at ?s)) \<le> timeout_at + 250 + l + d"
      by simp
    with a r show ?thesis by (subst poll_loop.simps) simp
  next
    case False
    with a have "snd (poll_loop query expected give_up timeout_at h) = h1"
      by (subst poll_loop.simps) (auto split: res.split)
    with t show ?thesis by simp
  qed
qed

text \<open>It gives up only when the time is over.\<close>

lemma poll_loop_patient:
  "(\<And>w x. fst (query w) = Inl x \<Longrightarrow> \<not> gave_up x) \<Longrightarrow>
   fst (poll_loop query expected give_up timeout_at h) = Err e \<Longrightarrow> gave_up e \<Longrightarrow>
     timeout_at \<le> clock (snd (poll_loop query expected give_up timeout_at h))"
proof (induction query expected give_up timeout_at h rule: poll_loop.induct)
  case (1 query expected give_up timeout_at h)
  obtain r h1 where a: "ask query h = (r, h1)" by fastforce
  show ?case
  proof (cases r)
    case (Ok current)
    then show ?thesis
      using 1(1) [OF a [symmetric] Ok] 1(2-) a
      by (subst poll_loop.simps, subst (asm) (2) poll_loop.simps) (auto split: if_splits)
  next
    case (Err x)
    then have "fst (query (world h)) = Inl x"
      using a by (cases "fst (query (world h))") (auto simp: ask_def call_def split: prod.splits)
    with 1(2-) a Err show ?thesis by (simp add: poll_loop.simps [of query expected give_up timeout_at h])
  next
    case Panic
    with 1(3) a show ?thesis by (simp add: poll_loop.simps [of query expected give_up timeout_at h])
  qed
qed

text \<open>A wait that the service satisfies at a poll before the time is over succeeds there.\<close>

lemma poll_loop_expected:
  "ask query h = (Ok current, h') \<Longrightarrow> expected current \<Longrightarrow>
     poll_loop query expected give_up timeout_at h = (Ok (), h')"
  by (simp add: poll_loop.simps)

text \<open>Every step of a successful sequence was a success.\<close>

lemma api_Ok: "api what f h = (Ok a, h') \<Longrightarrow> answers f (world h) (Inr a) (world h')"
  unfolding api_def wrap_def
  by (cases "ask f h"; cases "fst (ask f h)") (auto dest: ask_Ok)

lemma wait_state_seen:
  assumes "wait_native_hotspot_state rt expected op h = (Ok (), h')"
  shows "\<exists>w. answers (wr_state rt) w (Inr expected) (world h')"
proof -
  obtain w where "answers (\<lambda>w. case wr_state rt w of (r, t, w') \<Rightarrow>
      (map_sum (Api (lit ''query native WinRT tethering state'')) id r, t, w')) w (Inr expected) (world h')"
    using poll_loop_seen assms [unfolded wait_native_hotspot_state_def] by blast
  then have "answers (wr_state rt) w (Inr expected) (world h')"
    by (cases "fst (wr_state rt w)") (auto simp: answers_def split: prod.splits)
  then show ?thesis by blast
qed

lemma wait_ssid_seen:
  assumes "wait_native_hotspot_ssid rt ssid h = (Ok (), h')"
  shows "\<exists>w. answers (query_ssid rt) w (Inr ssid) (world h')"
  using poll_loop_seen assms [unfolded wait_native_hotspot_ssid_def] by blast

lemma perform_Ok: "perform m k s = (Ok b, s'') \<Longrightarrow> \<exists>a s'. m s = (Ok a, s') \<and> k a s' = (Ok b, s'')"
  by (simp add: perform_eq_Ok)

lemma native_start_seen:
  assumes "native_hotspot_start rt config h = (Ok (), h')"
  shows "(\<exists>w. answers (wr_state rt) w (Inr State_on) (world h')) \<and>
     (\<exists>w w'. answers (query_ssid rt) w (Inr (hs_ssid config)) w')"
proof -
  obtain h1 h2 h3 state where ssid: "wait_native_hotspot_ssid rt (hs_ssid config) h1 = (Ok (), h2)"
    and state: "api (lit ''query native WinRT tethering state'') (wr_state rt) h2 = (Ok state, h3)"
    and rest: "(if state \<noteq> State_on
     then
       perform (emit Start_tethering) (\<lambda>_.
       perform (api (lit ''start native StartTetheringAsync'') (wr_start rt)) (\<lambda>_.
       perform (api (lit ''wait for native StartTetheringAsync'') (wr_start_join rt)) (\<lambda>result.
       perform (ensure_tethering_operation_success (lit ''StartTetheringAsync'') result) (\<lambda>_.
       wait_native_hotspot_state rt State_on (lit ''StartTetheringAsync'')))))
     else give ()) h3 = (Ok (), h')"
    using assms unfolding native_hotspot_start_def
    by (elim perform_Ok [elim_format] exE conjE) (auto split: if_splits simp: fail_def elim!: perform_Ok [elim_format])
  show ?thesis
  proof (cases "state = State_on")
    case True
    with rest have "h3 = h'" by (simp add: give_def)
    with True api_Ok [OF state] wait_ssid_seen [OF ssid] show ?thesis by blast
  next
    case False
    with rest obtain h4 where "wait_native_hotspot_state rt State_on (lit ''StartTetheringAsync'') h4 = (Ok (), h')"
      by (auto simp: perform_eq_Ok)
    with wait_ssid_seen [OF ssid] wait_state_seen show ?thesis by blast
  qed
qed

lemma native_stop_seen:
  assumes "native_hotspot_stop rt h = (Ok (), h')"
  shows "\<exists>w. answers (wr_state rt) w (Inr State_off) (world h')"
proof -
  obtain h1 h2 state where state: "api (lit ''query native WinRT tethering state'') (wr_state rt) h1 = (Ok state, h2)"
    and rest: "(if state \<noteq> State_off
     then
       perform (emit Stop_tethering) (\<lambda>_.
       perform (api (lit ''start native StopTetheringAsync'') (wr_stop rt)) (\<lambda>_.
       perform (api (lit ''wait for native StopTetheringAsync'') (wr_stop_join rt)) (\<lambda>result.
       perform (ensure_tethering_operation_success (lit ''StopTetheringAsync'') result) (\<lambda>_.
       wait_native_hotspot_state rt State_off (lit ''StopTetheringAsync'')))))
     else give ()) h2 = (Ok (), h')"
    using assms unfolding native_hotspot_stop_def
    by (elim perform_Ok [elim_format] exE conjE)
  show ?thesis
  proof (cases "state = State_off")
    case True
    with rest have "h2 = h'" by (simp add: give_def)
    with True api_Ok [OF state] show ?thesis by blast
  next
    case False
    with rest obtain h3 where "wait_native_hotspot_state rt State_off (lit ''StopTetheringAsync'') h3 = (Ok (), h')"
      by (auto simp: perform_eq_Ok)
    then show ?thesis by (rule wait_state_seen)
  qed
qed

lemma run_shell_Ok: "run_shell sh command envs h = (Ok out, h') \<Longrightarrow> answers (sh command envs) (world h) (Some out) (world h')"
  by (cases "fst (sh command envs (world h))") (auto simp: run_shell_def call_def answers_def split: prod.splits)

lemma powershell_Ok:
  assumes "powershell_with_env_named sh name command envs h = (Ok text, h')"
  shows "\<exists>w out. answers (sh command envs) w (Some out) (world h') \<and> po_success out \<and>
     text = from_utf8_lossy (po_stdout out)"
proof -
  obtain h1 out where "wrap (\<lambda>_. Not_started name) (run_shell sh command envs) h1 = (Ok out, h')"
    and out: "po_success out" "text = from_utf8_lossy (po_stdout out)"
    using assms by (auto simp: powershell_with_env_named_def perform_eq_Ok fail_def give_def split: if_splits)
  then have "run_shell sh command envs h1 = (Ok out, h')"
    by (cases "run_shell sh command envs h1"; cases "fst (run_shell sh command envs h1)") (auto simp: wrap_def)
  with out run_shell_Ok show ?thesis by blast
qed

lemma with_fallback_Ok:
  assumes "with_fallback sh native script h = (Ok (), h')"
  shows "native h = (Ok (), h') \<or> (\<exists>h1 text. script h1 = (Ok text, h'))"
proof -
  obtain r h0 where n: "native h = (r, h0)" by fastforce
  show ?thesis
  proof (cases r)
    case (Ok u)
    with n assms show ?thesis by (simp add: with_fallback_def caught_def give_def)
  next
    case (Err x)
    with n assms obtain h1 line where "wrap (Fallback_failed x) script h1 = (Ok line, h')"
      by (auto simp: with_fallback_def caught_def perform_eq_Ok fail_def give_def split: if_splits)
    then show ?thesis
      by (cases "script h1"; cases "fst (script h1)") (auto simp: wrap_def)
  next
    case Panic
    with n assms show ?thesis by (simp add: with_fallback_def caught_def)
  qed
qed

subsection \<open>No operation panics\<close>

lemma never_panics_ask: "never_panics (ask f)"
  using ask_no_panic [of f] unfolding never_panics_def by (metis prod.collapse)

lemma never_panics_api: "never_panics (api what f)"
  unfolding api_def by (intro panics_never never_panics_ask)

lemma of_sum_no_panic: "of_sum x \<noteq> Panic" "map_err g (of_sum x) \<noteq> Panic"
  by (cases x; simp)+

lemma never_panics_waits:
  "never_panics (wait_native_hotspot_state rt s op)" "never_panics (wait_native_hotspot_ssid rt ssid)"
  by (simp_all add: never_panics_def wait_native_hotspot_state_def wait_native_hotspot_ssid_def poll_loop_no_panic)

lemma never_panics_parts:
  "never_panics (set_field rt what name)" "never_panics (ensure_tethering_operation_success op result)"
  "never_panics (native_tethering_manager rt)"
  unfolding set_field_def ensure_tethering_operation_success_def native_tethering_manager_def Let_def
  by (intro panics_never never_panics_api of_sum_no_panic)+

lemmas panics_never_here = panics_never never_panics_api never_panics_ask never_panics_parts never_panics_waits never_panics_shell

lemma never_panics_native:
  "never_panics (native_hotspot_start rt config)" "never_panics (native_hotspot_stop rt)"
  "never_panics (native_hotspot_status rt)" "never_panics (native_hotspot_access_point rt)"
  unfolding native_hotspot_start_def native_hotspot_stop_def native_hotspot_status_def
    native_hotspot_access_point_def
  by (intro panics_never_here)+

lemma never_panics_with_fallback:
  "never_panics native \<Longrightarrow> never_panics script \<Longrightarrow> never_panics (with_fallback sh native script)"
  unfolding with_fallback_def
  by (intro never_panics_caught) (auto intro!: panics_never_here)

lemma never_panics_query:
  "never_panics native \<Longrightarrow> never_panics fallback \<Longrightarrow> never_panics (query_with_fallback sh native neutral fallback)"
  unfolding query_with_fallback_def
  by (intro never_panics_caught) (auto intro!: panics_never_here)

lemma discover_native_no_panic: "discover_native adapters \<noteq> Panic"
proof -
  have "discover_attempts rs \<noteq> Panic" for rs
    by (induction rs rule: discover_attempts.induct) (simp_all add: choose_candidate_def split: list.split)
  then show ?thesis by (simp add: discover_native_def)
qed

lemma never_panics_windows:
  "never_panics (windows_hotspot_start rt sh config)" "never_panics (windows_hotspot_stop rt sh)"
  "never_panics (windows_hotspot_status rt sh)" "never_panics (windows_hotspot_access_point rt sh)"
  unfolding windows_hotspot_start_def windows_hotspot_stop_def windows_hotspot_status_def
    windows_hotspot_access_point_def
  by (intro never_panics_with_fallback never_panics_query never_panics_native panics_never_here)+

lemma never_panics_discover: "never_panics (windows_discover_hotspot adapters sh)"
proof -
  have "map_err Discovery_error (parse_hotspot_runtime t) \<noteq> Panic" for t
    using parse_runtime_no_panic [of t] by (cases "parse_hotspot_runtime t") simp_all
  then have "never_panics
    (perform (powershell_available sh) (\<lambda>available.
          if \<not> available then fail (Discovery_error native_error)
          else
            perform (wrap Script_error (powershell sh hotspot_interface_discovery_script)) (\<lambda>output.
            from_res (map_err Discovery_error (parse_hotspot_runtime output)))))" for native_error
    by (intro panics_never_here)
  then show ?thesis
    by (auto simp: never_panics_def windows_discover_hotspot_def give_def discover_native_no_panic
        split: res.split)
qed

subsection \<open>Properties\<close>

definition sample_winrt :: "tethering_state winrt" where
  "sample_winrt =
     \<lparr>wr_profile = (\<lambda>w. (Inr (), 1, w)), wr_capability = (\<lambda>w. (Inr Capability_enabled, 1, w)),
      wr_manager = (\<lambda>w. (Inr (), 1, w)),
      wr_access_point = (\<lambda>w. (Inr \<lparr>ac_ssid = lit ''AP'', ac_passphrase = [], ac_wpa2 = True, ac_band = Band_auto\<rparr>, 1, w)),
      wr_read_ssid = (\<lambda>ap. Inr (ac_ssid ap)), wr_setter = (\<lambda>s. Inr ()),
      wr_configure = (\<lambda>ap w. (Inr (), 1, w)), wr_configure_join = (\<lambda>w. (Inr (), 1, w)),
      wr_state = (\<lambda>w. (Inr w, 3, w)),
      wr_start = (\<lambda>w. (Inr (), 1, w)),
      wr_start_join = (\<lambda>w. (Inr \<lparr>or_status = Inr Op_success, or_message = Inl 0\<rparr>, 1, State_on)),
      wr_stop = (\<lambda>w. (Inr (), 1, w)),
      wr_stop_join = (\<lambda>w. (Inr \<lparr>or_status = Inr Op_success, or_message = Inl 0\<rparr>, 1, State_off))\<rparr>"

definition sample_shell :: "'w shell" where
  "sample_shell command envs w = (None, 1, w)"

definition sample_hotspot_config :: hotspot_config where
  "sample_hotspot_config = \<lparr>hs_ssid = lit ''AP'', hs_password = lit ''12345678'', hs_band = TwoGhz\<rparr>"

definition host_in :: "'w \<Rightarrow> 'w host" where
  "host_in w =
     \<lparr>clock = 0, late = (\<lambda>t. 0), actions = [], handles = [], next_handle = 0, workers = [], running = None,
      sockets = [], tasks = [], world = w\<rparr>"

text \<open>A start or stop of the hotspot that reports success is one: either the last thing it
  asked the tethering service was its state, and the answer was on (off for a stop), with the
  configured SSID seen before that; or the last thing it ran was the PowerShell script of the
  operation, which exited with success.\<close>

theorem hotspot_success_seen:
  assumes "windows_hotspot_start rt sh config h = (Ok (), h')"
    and "windows_hotspot_stop rt sh k = (Ok (), k')"
  shows "((\<exists>w. answers (wr_state rt) w (Inr State_on) (world h')) \<and>
      (\<exists>w w'. answers (query_ssid rt) w (Inr (hs_ssid config)) w') \<or>
      (\<exists>envs w out. answers (sh hotspot_start_script envs) w (Some out) (world h') \<and> po_success out)) \<and>
     ((\<exists>w. answers (wr_state rt) w (Inr State_off) (world k')) \<or>
      (\<exists>w out. answers (sh hotspot_stop_script []) w (Some out) (world k') \<and> po_success out))"
proof (rule conjI)
  from with_fallback_Ok [OF assms(1) [unfolded windows_hotspot_start_def]]
  show "(\<exists>w. answers (wr_state rt) w (Inr State_on) (world h')) \<and>
      (\<exists>w w'. answers (query_ssid rt) w (Inr (hs_ssid config)) w') \<or>
      (\<exists>envs w out. answers (sh hotspot_start_script envs) w (Some out) (world h') \<and> po_success out)"
    by (elim disjE exE) (drule native_start_seen, blast, drule powershell_Ok, blast)
  from with_fallback_Ok [OF assms(2) [unfolded windows_hotspot_stop_def powershell_named_def]]
  show "(\<exists>w. answers (wr_state rt) w (Inr State_off) (world k')) \<or>
      (\<exists>w out. answers (sh hotspot_stop_script []) w (Some out) (world k') \<and> po_success out)"
    by (elim disjE exE) (drule native_stop_seen, blast, drule powershell_Ok, blast)
qed

lemmas native_eval =
  windows_hotspot_start_def windows_hotspot_stop_def with_fallback_def caught_def
  native_hotspot_start_def native_hotspot_stop_def native_tethering_manager_def perform_def api_def wrap_def
  ask_def call_def emit_def set_field_def from_res_def give_def ensure_tethering_operation_success_def
  wait_native_hotspot_ssid_def wait_native_hotspot_state_def query_ssid_def poll_loop.simps

theorem hotspot_success_seen_witness:
  "\<exists>h k. windows_hotspot_start sample_winrt sample_shell sample_hotspot_config (host_in State_off) = (Ok (), h) \<and>
     windows_hotspot_stop sample_winrt sample_shell h = (Ok (), k) \<and>
     ((\<exists>w. answers (wr_state sample_winrt) w (Inr State_off) (world k)) \<or>
      (\<exists>w out. answers (sample_shell hotspot_stop_script []) w (Some out) (world k) \<and> po_success out))"
proof -
  obtain h where h: "windows_hotspot_start sample_winrt sample_shell sample_hotspot_config (host_in State_off) = (Ok (), h)"
    and w: "world h = State_on"
    by (simp add: native_eval sample_winrt_def host_in_def sample_hotspot_config_def)
  obtain k where k: "windows_hotspot_stop sample_winrt sample_shell h = (Ok (), k)"
    using w by (simp add: native_eval sample_winrt_def)
  from h k hotspot_success_seen [OF h k] show ?thesis by blast
qed

end
