(* ===== verification/Hotspot_Scripts.thy ===== *)
theory Hotspot_Scripts
  imports Hotspot_Control
begin

section \<open>The PowerShell scripts (src/src/hotspot.rs)\<close>

text \<open>
  When the native path fails, the hotspot is started, stopped, queried and discovered by the
  PowerShell scripts the source embeds. Here they are written as operations on a host of their own,
  the PowerShell process, over the same tethering service as the native path; what they print is
  their standard output. \<open>script_shell\<close> is the shell that runs them, so that the controller of
  \<open>Hotspot_Control\<close> and its fallback form one program.

  The start and the stop script set \<open>$ErrorActionPreference\<close> to stop: any failed call ends them
  with a failure. The others go on after a failed call with \<open>$null\<close>, and fail if the last statement
  does. The code 0 of a failed call stands for a null object. A script does not wait for an
  asynchronous operation but polls the service, and \<open>-ne\<close> compares strings without regard to case,
  which is the argument \<open>ps_same\<close>; so is the encoding of the console.

  The lemmas show that a hotspot that is reported to be started was reported on by the service
  in a world reached from the start, and the same for a stop unless there is no profile; that the
  scripted status is the native one; what the discovery script finds; and how long each of the four
  waits, native and scripted, can take.
\<close>

subsection \<open>Around a script\<close>

datatype script_error =
  Winrt_failed nat
| No_profile
| Capability_was tethering_capability
| Unsupported_band str
| State_not_reached str tethering_state tethering_state
| Ssid_not_applied str str

record net_adapter =
  na_index :: u32
  na_description :: str
  na_status :: str

record 'w scripting =
  ps_encode :: "str \<Rightarrow> byte list"
  ps_describe :: "script_error \<Rightarrow> byte list"
  ps_same :: "str \<Rightarrow> str \<Rightarrow> bool"
  ps_net_adapters :: "'w \<Rightarrow> net_adapter list"
  ps_net_addresses :: "'w \<Rightarrow> u32 \<Rightarrow> (ipv4addr \<times> u8) list"
  ps_late :: "'w \<Rightarrow> nat \<Rightarrow> nat"
  ps_other :: "'w shell"

type_synonym 'w script = "('w host, unit, script_error) io"

fun printed :: "action list \<Rightarrow> str list" where
  "printed [] = []"
| "printed (Printed s # as) = s # printed as"
| "printed (a # as) = printed as"

definition process_start :: "'w scripting \<Rightarrow> 'w \<Rightarrow> 'w host" where
  "process_start ps w =
     \<lparr>clock = 0, late = ps_late ps w, actions = [], handles = [], next_handle = 0, workers = [], running = None,
      sockets = [], tasks = [], world = w\<rparr>"

definition run_script :: "'w scripting \<Rightarrow> 'w script \<Rightarrow> ('w, process_output option) external" where
  "run_script ps m w =
     (case m (process_start ps w) of
        (r, h) \<Rightarrow>
          (Some
             \<lparr>po_success = is_ok r,
              po_stdout = ps_encode ps (concat (map (\<lambda>l. l @ crlf) (printed (actions h)))),
              po_stderr = (case r of Err e \<Rightarrow> ps_describe ps e | _ \<Rightarrow> [])\<rparr>,
           clock h, world h))"

definition env_var :: "(str \<times> str) list \<Rightarrow> str \<Rightarrow> str" where
  "env_var envs name = (case map_of envs name of Some v \<Rightarrow> v | None \<Rightarrow> [])"

definition ps_call :: "('w, nat + 'a) external \<Rightarrow> ('w host, 'a, script_error) io" where
  "ps_call f = wrap Winrt_failed (ask f)"

definition ps_set :: "'w winrt \<Rightarrow> str \<Rightarrow> ('w host, unit, script_error) io" where
  "ps_set rt name = from_res (map_err Winrt_failed (of_sum (wr_setter rt name)))"

fun state_name :: "tethering_state \<Rightarrow> str" where
  "state_name State_unknown = lit ''Unknown''"
| "state_name State_on = lit ''On''"
| "state_name State_off = lit ''Off''"
| "state_name State_in_transition = lit ''InTransition''"

subsection \<open>Waiting\<close>

text \<open>The loop of both waits: go on while the time is not over, then throw.\<close>

function script_wait ::
  "('w, nat + 'a) external \<Rightarrow> ('a \<Rightarrow> bool) \<Rightarrow> ('w host, script_error, script_error) io \<Rightarrow> nat \<Rightarrow> 'w script" where
  "script_wait query expected give_up timeout_at h =
     (case ask query h of
        (Ok current, h') \<Rightarrow>
          if expected current then (Ok (), h')
          else if timeout_at < clock h' then perform give_up fail h'
          else script_wait query expected give_up timeout_at (snd ((sleep 250 :: 'w script) h'))
      | (Err e, h') \<Rightarrow> (Err (Winrt_failed e), h')
      | (Panic, h') \<Rightarrow> (Panic, h'))"
  by pat_completeness auto
termination
  by (relation "measure (\<lambda>(query, expected, give_up, timeout_at, h). Suc timeout_at - clock h)")
    (auto simp: sleep_def dest!: ask_clock [OF sym])

declare script_wait.simps [simp del]

definition wait_hotspot_state :: "'w winrt \<Rightarrow> tethering_state \<Rightarrow> str \<Rightarrow> 'w script" where
  "wait_hotspot_state rt expected name h =
     script_wait (wr_state rt) (\<lambda>current. current = expected)
       (perform (ps_call (wr_state rt)) (\<lambda>current. give (State_not_reached name expected current)))
       (clock h + 30000) h"

definition script_ssid :: "'w winrt \<Rightarrow> ('w, nat + str) external" where
  "script_ssid rt w =
     (case wr_access_point rt w of
        (Inl e, t, w') \<Rightarrow> (Inl e, t, w')
      | (Inr ap, t, w') \<Rightarrow> (wr_read_ssid rt ap, t, w'))"

definition wait_hotspot_ssid :: "'w scripting \<Rightarrow> 'w winrt \<Rightarrow> str \<Rightarrow> 'w script" where
  "wait_hotspot_ssid ps rt expected h =
     script_wait (script_ssid rt) (\<lambda>current. ps_same ps current expected)
       (perform (ps_call (script_ssid rt)) (\<lambda>current. give (Ssid_not_applied expected current)))
       (clock h + 30000) h"

subsection \<open>The scripts\<close>

definition switch_band :: "'w scripting \<Rightarrow> str \<Rightarrow> winrt_band option" where
  "switch_band ps band =
     (if ps_same ps band (lit ''Auto'') then Some Band_auto
      else if ps_same ps band (lit ''TwoPointFourGigahertz'') then Some Band_two_point_four
      else if ps_same ps band (lit ''FiveGigahertz'') then Some Band_five
      else None)"

definition start_script :: "'w scripting \<Rightarrow> 'w winrt \<Rightarrow> (str \<times> str) list \<Rightarrow> 'w script" where
  "start_script ps rt envs =
     (let ssid = env_var envs (lit ''HPROXY_HOTSPOT_SSID'');
          password = env_var envs (lit ''HPROXY_HOTSPOT_PASSWORD'');
          band_name = env_var envs (lit ''HPROXY_HOTSPOT_BAND'') in
      perform (wrap (\<lambda>e. if e = 0 then No_profile else Winrt_failed e) (ask (wr_profile rt))) (\<lambda>_.
      perform (ps_call (wr_capability rt)) (\<lambda>capability.
      perform (if capability \<noteq> Capability_enabled then fail (Capability_was capability) else give ()) (\<lambda>_.
      perform (ps_call (wr_manager rt)) (\<lambda>_.
      perform (ps_call (wr_access_point rt)) (\<lambda>config.
      perform (ps_set rt (lit ''SetSsid'')) (\<lambda>_.
      perform (ps_set rt (lit ''SetPassphrase'')) (\<lambda>_.
      perform (ps_set rt (lit ''SetAuthenticationKind'')) (\<lambda>_.
      perform (case switch_band ps band_name of
          Some band \<Rightarrow> perform (ps_set rt (lit ''SetBand'')) (\<lambda>_. give band)
        | None \<Rightarrow> fail (Unsupported_band band_name)) (\<lambda>band.
      perform (ps_call (wr_configure rt
        (config\<lparr>ac_ssid := ssid, ac_passphrase := password, ac_wpa2 := True, ac_band := band\<rparr>))) (\<lambda>_.
      perform (wait_hotspot_ssid ps rt ssid) (\<lambda>_.
      perform (ps_call (wr_state rt)) (\<lambda>state.
      perform (if state \<noteq> State_on
        then
          perform (ps_call (wr_start rt)) (\<lambda>_.
          wait_hotspot_state rt State_on (lit ''StartTetheringAsync''))
        else give ()) (\<lambda>_.
      perform (ps_call (wr_state rt)) (\<lambda>state.
      println (state_name state))))))))))))))))"

definition stop_script :: "'w winrt \<Rightarrow> 'w script" where
  "stop_script rt h =
     (case ask (wr_profile rt) h of
        (Err e, h') \<Rightarrow>
          if e = 0 then println (lit ''Unknown'') h' else (Err (Winrt_failed e), h')
      | (Panic, h') \<Rightarrow> (Panic, h')
      | (Ok _, h') \<Rightarrow>
          perform (ps_call (wr_manager rt)) (\<lambda>_.
          perform (ps_call (wr_state rt)) (\<lambda>state.
          perform (if state \<noteq> State_off
            then
              perform (ps_call (wr_stop rt)) (\<lambda>_.
              wait_hotspot_state rt State_off (lit ''StopTetheringAsync''))
            else give ()) (\<lambda>_.
          perform (ps_call (wr_state rt)) (\<lambda>state.
          println (state_name state))))) h')"

definition status_script :: "'w winrt \<Rightarrow> 'w script" where
  "status_script rt =
     caught (ask (wr_profile rt)) (\<lambda>profile.
       if \<not> is_ok profile then println (lit ''Unknown'')
       else
         perform (ps_call (wr_manager rt)) (\<lambda>_.
         perform (ps_call (wr_state rt)) (\<lambda>state.
         println (state_name state))))"

text \<open>Without a manager or a configuration, the last statement is the property of \<open>$null\<close>: nothing.\<close>

definition access_point_script :: "'w winrt \<Rightarrow> 'w script" where
  "access_point_script rt =
     caught (ask (wr_profile rt)) (\<lambda>profile.
       if \<not> is_ok profile then give ()
       else
         caught (ask (wr_manager rt)) (\<lambda>manager.
           if \<not> is_ok manager then give ()
           else
             caught (ask (wr_access_point rt)) (\<lambda>config.
               case config of
                 Ok config \<Rightarrow>
                   perform (from_res (map_err Winrt_failed (of_sum (wr_read_ssid rt config)))) println
               | _ \<Rightarrow> give ())))"

definition script_wifi_direct :: "'w scripting \<Rightarrow> net_adapter \<Rightarrow> bool" where
  "script_wifi_direct ps a \<longleftrightarrow>
     str_contains (to_ascii_lowercase (na_description a)) (lit ''wi-fi direct'') \<and>
     (ps_same ps (na_status a) (lit ''Up'') \<or> ps_same ps (na_status a) (lit ''Connected''))"

definition script_usable :: "ipv4addr \<Rightarrow> bool" where
  "script_usable ip \<longleftrightarrow>
     \<not> starts_with (show_ipv4 ip) (lit ''169.254.'') \<and> show_ipv4 ip \<noteq> lit ''127.0.0.1''"

definition script_adapters :: "'w scripting \<Rightarrow> 'w \<Rightarrow> net_adapter list" where
  "script_adapters ps w = sort_key na_index (filter (script_wifi_direct ps) (ps_net_adapters ps w))"

definition script_addresses :: "'w scripting \<Rightarrow> 'w \<Rightarrow> u32 \<Rightarrow> (ipv4addr \<times> u8) list" where
  "script_addresses ps w i =
     sort_key snd (filter (\<lambda>(ip, prefix_len). script_usable ip) (ps_net_addresses ps w i))"

definition interface_discovery_script :: "'w scripting \<Rightarrow> 'w script" where
  "interface_discovery_script ps h =
     (case script_adapters ps (world h) of
        [] \<Rightarrow> (Ok (), h)
      | adapter # _ \<Rightarrow>
          (case script_addresses ps (world h) (na_index adapter) of
             [] \<Rightarrow> (Ok (), h)
           | (ip, prefix_len) # _ \<Rightarrow>
               println (show_nat (unat (na_index adapter)) @ lit ''|'' @ show_ipv4 ip @ lit ''|'' @
                 show_nat (unat prefix_len)) h))"

subsection \<open>The shell that runs them\<close>

definition script_shell :: "'w scripting \<Rightarrow> 'w winrt \<Rightarrow> 'w shell" where
  "script_shell ps rt command envs =
     (if command = hotspot_start_script then run_script ps (start_script ps rt envs)
      else if command = hotspot_stop_script then run_script ps (stop_script rt)
      else if command = hotspot_status_script then run_script ps (status_script rt)
      else if command = hotspot_access_point_script then run_script ps (access_point_script rt)
      else if command = hotspot_interface_discovery_script then run_script ps (interface_discovery_script ps)
      else ps_other ps command envs)"

subsection \<open>The worlds a run goes through\<close>

text \<open>One call of the tethering service, or of PowerShell for something else.\<close>

inductive service_step :: "'w scripting \<Rightarrow> 'w winrt \<Rightarrow> 'w \<Rightarrow> 'w \<Rightarrow> bool" for ps rt where
  "service_step ps rt w (snd (snd (wr_profile rt w)))"
| "service_step ps rt w (snd (snd (wr_capability rt w)))"
| "service_step ps rt w (snd (snd (wr_manager rt w)))"
| "service_step ps rt w (snd (snd (wr_access_point rt w)))"
| "service_step ps rt w (snd (snd (wr_configure rt ap w)))"
| "service_step ps rt w (snd (snd (wr_configure_join rt w)))"
| "service_step ps rt w (snd (snd (wr_state rt w)))"
| "service_step ps rt w (snd (snd (wr_start rt w)))"
| "service_step ps rt w (snd (snd (wr_start_join rt w)))"
| "service_step ps rt w (snd (snd (wr_stop rt w)))"
| "service_step ps rt w (snd (snd (wr_stop_join rt w)))"
| "service_step ps rt w (snd (snd (ps_other ps command envs w)))"

abbreviation reaches :: "'w scripting \<Rightarrow> 'w winrt \<Rightarrow> 'w \<Rightarrow> 'w \<Rightarrow> bool" where
  "reaches ps rt \<equiv> (service_step ps rt)\<^sup>*\<^sup>*"

definition within :: "'w scripting \<Rightarrow> 'w winrt \<Rightarrow> ('w, 'a) external \<Rightarrow> bool" where
  "within ps rt f \<longleftrightarrow> (\<forall>w. reaches ps rt w (snd (snd (f w))))"

definition goes_on :: "'w scripting \<Rightarrow> 'w winrt \<Rightarrow> 'w host \<Rightarrow> 'w host \<Rightarrow> bool" where
  "goes_on ps rt h h' \<longleftrightarrow> reaches ps rt (world h) (world h')"

lemma reflp_goes_on: "reflp (goes_on ps rt)"
  by (rule reflpI) (simp add: goes_on_def)

lemma transp_goes_on: "transp (goes_on ps rt)"
  by (rule transpI) (auto simp: goes_on_def)

lemma within_service:
  "within ps rt (wr_profile rt)" "within ps rt (wr_capability rt)" "within ps rt (wr_manager rt)"
  "within ps rt (wr_access_point rt)" "within ps rt (wr_configure rt ap)" "within ps rt (wr_configure_join rt)"
  "within ps rt (wr_state rt)" "within ps rt (wr_start rt)" "within ps rt (wr_start_join rt)"
  "within ps rt (wr_stop rt)" "within ps rt (wr_stop_join rt)" "within ps rt (ps_other ps command envs)"
  by (auto simp: within_def intro: service_step.intros)

lemma within_same_world: "within ps rt f \<Longrightarrow> (\<And>w. snd (snd (g w)) = snd (snd (f w))) \<Longrightarrow> within ps rt g"
  by (simp add: within_def)

lemma within_ssid: "within ps rt (script_ssid rt)" "within ps rt (query_ssid rt)"
  by (rule within_same_world [OF within_service(4)],
      simp add: script_ssid_def query_ssid_def split: prod.split sum.split)+

lemma keeps_goes_on_call: "within ps rt f \<Longrightarrow> keeps (goes_on ps rt) (ask f)"
  by (auto simp: keeps_def goes_on_def within_def ask_def call_def split: prod.split) (metis snd_conv)

lemma keeps_goes_on_local:
  "keeps (goes_on ps rt) (emit a)" "keeps (goes_on ps rt) (println s)" "keeps (goes_on ps rt) (sleep n)"
  by (simp_all add: keeps_def goes_on_def emit_def println_def sleep_def)

lemmas keeps_goes_on_basic =
  keeps_give [OF reflp_goes_on] keeps_fail [OF reflp_goes_on] keeps_from_res [OF reflp_goes_on]
  keeps_perform [OF transp_goes_on] keeps_wrap keeps_caught [OF transp_goes_on] keeps_if
  keeps_goes_on_call keeps_goes_on_local within_service within_ssid

text \<open>A wait that succeeds has asked in a reached world, and ends in the world after that answer.\<close>

lemma script_wait_seen:
  "script_wait query expected give_up timeout_at h = (Ok (), h') \<Longrightarrow> within ps rt query \<Longrightarrow>
     \<exists>w current. reaches ps rt (world h) w \<and> expected current \<and> answers query w (Inr current) (world h')"
proof (induction query expected give_up timeout_at h rule: script_wait.induct)
  case (1 query expected give_up timeout_at h)
  obtain r h1 where a: "ask query h = (r, h1)" by fastforce
  have step: "reaches ps rt (world h) (world h1)"
    using keepsD [OF keeps_goes_on_call [OF 1(3)] a] by (simp add: goes_on_def)
  show ?case
  proof (cases r)
    case (Ok current)
    show ?thesis
    proof (cases "expected current")
      case True
      with 1(2) a Ok have "h1 = h'" by (simp add: script_wait.simps)
      with True ask_Ok a Ok show ?thesis by fast
    next
      case False
      with 1(2) a Ok have "\<not> timeout_at < clock h1"
        by (auto simp: script_wait.simps perform_def fail_def split: if_splits prod.splits res.splits)
      with 1(1) [OF a [symmetric] Ok False] 1(2,3) a Ok False step show ?thesis
        by (auto simp: script_wait.simps [of query _ _ _ h] sleep_def intro: rtranclp_trans)
    qed
  qed (use 1(2) a in \<open>simp_all add: script_wait.simps\<close>)
qed

lemma poll_loop_seen_in:
  "poll_loop query expected give_up timeout_at h = (Ok (), h') \<Longrightarrow> within ps rt query \<Longrightarrow>
     \<exists>w current. reaches ps rt (world h) w \<and> expected current \<and> answers query w (Inr current) (world h')"
proof (induction query expected give_up timeout_at h rule: poll_loop.induct)
  case (1 query expected give_up timeout_at h)
  obtain r h1 where a: "ask query h = (r, h1)" by fastforce
  have step: "reaches ps rt (world h) (world h1)"
    using keepsD [OF keeps_goes_on_call [OF 1(3)] a] by (simp add: goes_on_def)
  show ?case
  proof (cases r)
    case (Ok current)
    show ?thesis
    proof (cases "expected current")
      case True
      with 1(2) a Ok have "h1 = h'" by (simp add: poll_loop.simps)
      with True ask_Ok a Ok show ?thesis by fast
    next
      case False
      with 1(2) a Ok have "\<not> timeout_at \<le> clock h1" by (auto simp: poll_loop.simps split: if_splits)
      with 1(1) [OF a [symmetric] Ok False] 1(2,3) a Ok False step show ?thesis
        by (auto simp: poll_loop.simps [of query _ _ _ h] sleep_def intro: rtranclp_trans)
    qed
  qed (use 1(2) a in \<open>simp_all add: poll_loop.simps\<close>)
qed

lemma keeps_goes_on_script_wait:
  "keeps (goes_on ps rt) give_up \<Longrightarrow> within ps rt query \<Longrightarrow>
     goes_on ps rt h (snd (script_wait query expected give_up timeout_at h))"
proof (induction query expected give_up timeout_at h rule: script_wait.induct)
  case (1 query expected give_up timeout_at h)
  obtain r h1 where a: "ask query h = (r, h1)" by fastforce
  have step: "goes_on ps rt h h1" using keeps_goes_on_call [OF 1(3)] a by (rule keepsD)
  show ?case
  proof (cases "\<exists>current. r = Ok current \<and> \<not> expected current")
    case True
    then obtain current where r: "r = Ok current" "\<not> expected current" by blast
    have "keeps (goes_on ps rt) (perform give_up fail :: 'a script)"
      by (intro keeps_goes_on_basic 1(2))
    then have "goes_on ps rt h1 (snd ((perform give_up fail :: 'a script) h1))" by (simp add: keeps_def)
    with 1 a r step show ?thesis
      by (subst script_wait.simps) (auto simp: goes_on_def sleep_def)
  next
    case False
    with a step show ?thesis by (subst script_wait.simps) (auto split: res.split)
  qed
qed

text \<open>A wait of a script does nothing but ask, and is over in time like the native one, with one
  more query for the message when it gives up.\<close>

lemma keeps_script_wait:
  "keeps (only_acts A) give_up \<Longrightarrow> only_acts A h (snd (script_wait query expected give_up timeout_at h))"
proof (induction query expected give_up timeout_at h rule: script_wait.induct)
  case (1 query expected give_up timeout_at h)
  obtain r h1 where a: "ask query h = (r, h1)" by fastforce
  have step: "only_acts A h h1" using keepsD [OF keeps_ask a] .
  show ?case
  proof (cases "\<exists>current. r = Ok current \<and> \<not> expected current")
    case True
    then obtain current where r: "r = Ok current" "\<not> expected current" by blast
    have "keeps (only_acts A) (perform give_up fail :: 'a script)" by (intro keeps_acts 1(2))
    then have "only_acts A h1 (snd ((perform give_up fail :: 'a script) h1))" by (simp add: keeps_def)
    moreover have "only_acts A h1 (snd ((sleep 250 :: 'a script) h1))"
      by (simp add: only_acts_def sleep_def)
    moreover note tr = transpD [OF transp_only_acts, of A]
    ultimately show ?thesis
      using a r tr [OF step] 1(1) [OF a [symmetric] r] 1(2)
      by (cases "timeout_at < clock h1") (simp_all add: script_wait.simps [of query expected give_up timeout_at h], blast)
  next
    case False
    with a step show ?thesis by (subst script_wait.simps) (auto split: res.split)
  qed
qed

lemma script_wait_time:
  assumes "\<And>w. fst (snd (query w)) \<le> d" and "\<And>t. late h t \<le> l"
    and "\<And>k. clock (snd (give_up k)) \<le> clock k + d"
  shows "clock (snd (script_wait query expected give_up timeout_at h)) \<le>
    max (clock h) (timeout_at + 250 + l) + 2 * d"
  using assms
proof (induction query expected give_up timeout_at h rule: script_wait.induct)
  case (1 query expected give_up timeout_at h)
  obtain r h1 where a: "ask query h = (r, h1)" by fastforce
  have t: "clock h1 \<le> clock h + d" using ask_time [OF a] 1(2) by (simp add: order_subst1)
  have l1: "late h1 t \<le> l" for t using ask_time [OF a] 1(3) by simp
  consider (again) current where "r = Ok current" "\<not> expected current" "\<not> timeout_at < clock h1"
    | (over) current where "r = Ok current" "\<not> expected current" "timeout_at < clock h1"
    | (finished) "\<nexists>current. r = Ok current \<and> \<not> expected current" by blast
  then show ?case
  proof cases
    case again
    let ?s = "snd ((sleep 250 :: 'a script) h1)"
    have "clock ?s \<le> timeout_at + 250 + l" using again l1 [of "clock h1"] by (simp add: sleep_def)
    moreover have "clock (snd (script_wait query expected give_up timeout_at ?s)) \<le>
        max (clock ?s) (timeout_at + 250 + l) + 2 * d"
      using 1(1) [OF a [symmetric] again] 1(2,4) l1 by (simp add: sleep_def)
    ultimately have "clock (snd (script_wait query expected give_up timeout_at ?s)) \<le> timeout_at + 250 + l + 2 * d"
      by simp
    with a again show ?thesis by (subst script_wait.simps) simp
  next
    case over
    obtain r2 h2 where g: "give_up h1 = (r2, h2)" by fastforce
    have "clock h2 \<le> clock h1 + d" using 1(4) [of h1] g by simp
    with t a over g show ?thesis
      by (subst script_wait.simps) (cases r2; simp add: perform_def fail_def)
  next
    case finished
    with a have "snd (script_wait query expected give_up timeout_at h) = h1"
      by (subst script_wait.simps) (auto split: res.split)
    with t show ?thesis by simp
  qed
qed

lemma script_wait_patient:
  "fst (script_wait query expected give_up timeout_at h) = Err e \<Longrightarrow> (\<And>x. e \<noteq> Winrt_failed x) \<Longrightarrow>
   (\<And>k. clock k \<le> clock (snd (give_up k))) \<Longrightarrow>
     timeout_at \<le> clock (snd (script_wait query expected give_up timeout_at h))"
proof (induction query expected give_up timeout_at h rule: script_wait.induct)
  case (1 query expected give_up timeout_at h)
  obtain r h1 where a: "ask query h = (r, h1)" by fastforce
  show ?case
  proof (cases r)
    case (Ok current)
    show ?thesis
    proof (cases "timeout_at < clock h1")
      case True
      obtain r2 h2 where g: "give_up h1 = (r2, h2)" by fastforce
      then have "clock h1 \<le> clock h2" using 1(4) [of h1] by simp
      with True 1(2) a Ok g show ?thesis
        by (cases r2) (auto simp: script_wait.simps [of query expected give_up timeout_at h] perform_def
            fail_def split: if_splits)
    next
      case False
      with 1 a Ok show ?thesis
        by (auto simp: script_wait.simps [of query expected give_up timeout_at h] split: if_splits)
    qed
  qed (use 1(2,3) a in \<open>auto simp: script_wait.simps [of query expected give_up timeout_at h]\<close>)
qed

lemma script_wait_no_panic:
  "never_panics give_up \<Longrightarrow> fst (script_wait query expected give_up timeout_at h) \<noteq> Panic"
proof (induction query expected give_up timeout_at h rule: script_wait.induct)
  case (1 query expected give_up timeout_at h)
  obtain r h1 where a: "ask query h = (r, h1)" by fastforce
  have r: "r \<noteq> Panic" using ask_no_panic [of query h h1] a by auto
  have "fst (perform give_up fail h1) \<noteq> Panic"
    using 1(2) by (cases "give_up h1"; cases "fst (give_up h1)") (auto simp: perform_def fail_def never_panics_def dest: spec [of _ h1])
  with 1 a r show ?case by (subst script_wait.simps) (auto split: res.split)
qed

lemma keeps_goes_on_waits:
  "keeps (goes_on ps rt) (wait_hotspot_state rt s name)" "keeps (goes_on ps rt) (wait_hotspot_ssid ps rt ssid)"
  unfolding keeps_def wait_hotspot_state_def wait_hotspot_ssid_def ps_call_def
  by (auto intro!: keeps_goes_on_script_wait keeps_goes_on_basic)

lemma wait_state_seen_in:
  assumes "wait_hotspot_state rt s name h = (Ok (), h')"
  shows "\<exists>w. reaches ps rt (world h) w \<and> answers (wr_state rt) w (Inr s) (world h')"
  using script_wait_seen [OF assms [unfolded wait_hotspot_state_def] within_service(7)] by blast

lemma wait_native_state_seen_in:
  assumes "wait_native_hotspot_state rt s op h = (Ok (), h')"
  shows "\<exists>w. reaches ps rt (world h) w \<and> answers (wr_state rt) w (Inr s) (world h')"
proof -
  let ?q = "\<lambda>w. case wr_state rt w of (r, t, w') \<Rightarrow>
      (map_sum (Api (lit ''query native WinRT tethering state'')) id r, t, w')"
  have "within ps rt ?q"
    by (rule within_same_world [OF within_service(7)]) (simp split: prod.split)
  from poll_loop_seen_in [OF assms [unfolded wait_native_hotspot_state_def] this]
  obtain w where w: "reaches ps rt (world h) w" "answers ?q w (Inr s) (world h')" by blast
  then have "answers (wr_state rt) w (Inr s) (world h')"
    by (cases "fst (wr_state rt w)") (auto simp: answers_def split: prod.splits)
  with w show ?thesis by blast
qed

text \<open>The service has answered \<open>s\<close> in a world reached from the first one.\<close>

definition seen_state :: "'w scripting \<Rightarrow> 'w winrt \<Rightarrow> 'w \<Rightarrow> tethering_state \<Rightarrow> bool" where
  "seen_state ps rt w0 s \<longleftrightarrow> (\<exists>w w'. reaches ps rt w0 w \<and> answers (wr_state rt) w (Inr s) w')"

lemma seen_state_later: "reaches ps rt w0 w1 \<Longrightarrow> seen_state ps rt w1 s \<Longrightarrow> seen_state ps rt w0 s"
  unfolding seen_state_def by (blast intro: rtranclp_trans)

lemma ps_call_Ok: "ps_call f h = (Ok a, h') \<Longrightarrow> answers f (world h) (Inr a) (world h')"
  unfolding ps_call_def wrap_def by (cases "ask f h"; cases "fst (ask f h)") (auto dest: ask_Ok)

text \<open>The end of a start or a stop, in both languages: the state is \<open>s\<close>, or it is asked to become so.\<close>

lemma seen_after:
  assumes "reaches ps rt w0 (world h)" and "answers (wr_state rt) (world h) (Inr state) (world h1)"
    and "state \<noteq> s \<Longrightarrow> seen_state ps rt (world h1) s"
  shows "seen_state ps rt w0 s"
proof -
  have "reaches ps rt (world h) (world h1)"
    using assms(2) within_service(7) [of ps rt] by (auto simp: answers_def within_def) (metis snd_conv)
  with assms show ?thesis
    unfolding seen_state_def by (metis rtranclp_trans)
qed
text \<open>An operation that ends well only if the service was seen in the state \<open>s\<close>.\<close>

definition sees :: "'w scripting \<Rightarrow> 'w winrt \<Rightarrow> tethering_state \<Rightarrow> ('w host, 'a, 'e) io \<Rightarrow> bool" where
  "sees ps rt s m \<longleftrightarrow> (\<forall>h a h'. m h = (Ok a, h') \<longrightarrow> seen_state ps rt (world h) s)"

lemma sees_later: "keeps (goes_on ps rt) m \<Longrightarrow> (\<And>a. sees ps rt s (k a)) \<Longrightarrow> sees ps rt s (perform m k)"
  unfolding sees_def perform_eq_Ok
  by (metis goes_on_def keepsD seen_state_later)

lemma sees_first: "sees ps rt s m \<Longrightarrow> sees ps rt s (perform m k)"
  unfolding sees_def by (auto simp: perform_eq_Ok)

lemma sees_fail: "sees ps rt s (fail e)"
  by (simp add: sees_def fail_def)

lemma sees_waits:
  "sees ps rt s (wait_hotspot_state rt s name)" "sees ps rt s (wait_native_hotspot_state rt s op)"
  unfolding sees_def seen_state_def
  using wait_state_seen_in wait_native_state_seen_in by (metis old.unit.exhaust)+

lemma sees_if_not: "sees ps rt s m \<Longrightarrow> sees ps rt s (if b then fail e else m)"
  by (simp add: sees_fail)

lemma sees_asked_script:
  assumes "sees ps rt s m"
  shows "sees ps rt s (perform (ps_call (wr_state rt)) (\<lambda>state. perform (if state \<noteq> s then m else give ()) k))"
  unfolding sees_def
proof (intro allI impI)
  fix h a h'
  assume "perform (ps_call (wr_state rt)) (\<lambda>state. perform (if state \<noteq> s then m else give ()) k) h = (Ok a, h')"
  then obtain state h1 where s: "ps_call (wr_state rt) h = (Ok state, h1)"
    and r: "perform (if state \<noteq> s then m else give ()) k h1 = (Ok a, h')"
    by (auto simp: perform_eq_Ok)
  have "state \<noteq> s \<Longrightarrow> seen_state ps rt (world h1) s"
    using r sees_first [OF assms, of k] unfolding sees_def by simp
  then show "seen_state ps rt (world h) s" by (rule seen_after [OF rtranclp.rtrancl_refl ps_call_Ok [OF s]])
qed

lemma sees_asked_native:
  assumes "sees ps rt s m"
  shows "sees ps rt s (perform (api what (wr_state rt)) (\<lambda>state. if state \<noteq> s then m else give ()))"
  unfolding sees_def
proof (intro allI impI)
  fix h a h'
  assume "perform (api what (wr_state rt)) (\<lambda>state. if state \<noteq> s then m else give ()) h = (Ok a, h')"
  then obtain state h1 where s: "api what (wr_state rt) h = (Ok state, h1)"
    and r: "(if state \<noteq> s then m else give ()) h1 = (Ok a, h')"
    by (auto simp: perform_eq_Ok)
  have "state \<noteq> s \<Longrightarrow> seen_state ps rt (world h1) s"
    using r assms unfolding sees_def by simp
  then show "seen_state ps rt (world h) s" by (rule seen_after [OF rtranclp.rtrancl_refl api_Ok [OF s]])
qed

lemma keeps_goes_on_api: "within ps rt f \<Longrightarrow> keeps (goes_on ps rt) (api what f)"
  unfolding api_def by (intro keeps_goes_on_basic)

lemma keeps_goes_on_ps_call: "within ps rt f \<Longrightarrow> keeps (goes_on ps rt) (ps_call f)"
  unfolding ps_call_def by (intro keeps_goes_on_basic)

lemma keeps_goes_on_poll_loop:
  "within ps rt query \<Longrightarrow> goes_on ps rt h (snd (poll_loop query expected give_up timeout_at h))"
proof (induction query expected give_up timeout_at h rule: poll_loop.induct)
  case (1 query expected give_up timeout_at h)
  obtain r h1 where a: "ask query h = (r, h1)" by fastforce
  have step: "goes_on ps rt h h1" using keeps_goes_on_call [OF 1(2)] a by (rule keepsD)
  show ?case
  proof (cases "\<exists>current. r = Ok current \<and> \<not> expected current \<and> \<not> timeout_at \<le> clock h1")
    case True
    with 1 a step show ?thesis
      by (subst poll_loop.simps) (auto simp: goes_on_def sleep_def)
  next
    case False
    with a step show ?thesis by (subst poll_loop.simps) (auto split: res.split)
  qed
qed

lemma keeps_goes_on_native_waits:
  "keeps (goes_on ps rt) (wait_native_hotspot_state rt s op)" "keeps (goes_on ps rt) (wait_native_hotspot_ssid rt ssid)"
proof -
  have "within ps rt (\<lambda>w. case wr_state rt w of (r, t, w') \<Rightarrow>
      (map_sum (Api (lit ''query native WinRT tethering state'')) id r, t, w'))"
    by (rule within_same_world [OF within_service(7)]) (simp split: prod.split)
  then show "keeps (goes_on ps rt) (wait_native_hotspot_state rt s op)"
    unfolding keeps_def wait_native_hotspot_state_def by (blast intro: keeps_goes_on_poll_loop)
  show "keeps (goes_on ps rt) (wait_native_hotspot_ssid rt ssid)"
    unfolding keeps_def wait_native_hotspot_ssid_def by (blast intro: keeps_goes_on_poll_loop within_ssid)
qed

lemma keeps_goes_on_sets:
  "keeps (goes_on ps rt) (ps_set rt name)" "keeps (goes_on ps rt) (set_field rt what name)"
  "keeps (goes_on ps rt) (ensure_tethering_operation_success op result)"
  "keeps (goes_on ps rt) (native_tethering_manager rt)"
  unfolding ps_set_def set_field_def ensure_tethering_operation_success_def native_tethering_manager_def Let_def
  by (intro keeps_goes_on_basic keeps_goes_on_api)+

lemmas keeps_goes_on =
  keeps_goes_on_basic keeps_goes_on_api keeps_goes_on_ps_call keeps_goes_on_waits keeps_goes_on_native_waits
  keeps_goes_on_sets

lemma start_script_sees: "sees ps rt State_on (start_script ps rt envs)"
proof -
  have band: "keeps (goes_on ps rt) (case switch_band ps b of
          Some band \<Rightarrow> perform (ps_set rt (lit ''SetBand'')) (\<lambda>_. give band)
        | None \<Rightarrow> fail (Unsupported_band b))" for b
    by (cases "switch_band ps b") (auto intro!: keeps_goes_on)
  have start: "sees ps rt State_on (perform (ps_call (wr_start rt)) (\<lambda>_.
          wait_hotspot_state rt State_on (lit ''StartTetheringAsync'')))"
    by (rule sees_later [OF keeps_goes_on_ps_call [OF within_service(8)] sees_waits(1)])
  have rest: "sees ps rt State_on
      (perform (ps_call (wr_state rt)) (\<lambda>state.
      perform (if state \<noteq> State_on
        then
          perform (ps_call (wr_start rt)) (\<lambda>_.
          wait_hotspot_state rt State_on (lit ''StartTetheringAsync''))
        else give ()) (\<lambda>_.
      perform (ps_call (wr_state rt)) (\<lambda>state. println (state_name state)))))"
    by (rule sees_asked_script [OF start])
  show ?thesis
    unfolding start_script_def Let_def
    by (rule rest | rule sees_later | rule band | rule keeps_goes_on)+
qed

lemma native_start_sees: "sees ps rt State_on (native_hotspot_start rt config)"
proof -
  have start: "sees ps rt State_on (perform (emit Start_tethering) (\<lambda>_.
       perform (api (lit ''start native StartTetheringAsync'') (wr_start rt)) (\<lambda>_.
       perform (api (lit ''wait for native StartTetheringAsync'') (wr_start_join rt)) (\<lambda>result.
       perform (ensure_tethering_operation_success (lit ''StartTetheringAsync'') result) (\<lambda>_.
       wait_native_hotspot_state rt State_on (lit ''StartTetheringAsync''))))))"
    by (intro sees_later sees_waits keeps_goes_on)
  show ?thesis
    unfolding native_hotspot_start_def
    by (rule sees_asked_native [OF start] | rule sees_later | rule sees_if_not | rule keeps_goes_on)+
qed

lemma native_stop_sees: "sees ps rt State_off (native_hotspot_stop rt)"
proof -
  have stop: "sees ps rt State_off (perform (emit Stop_tethering) (\<lambda>_.
       perform (api (lit ''start native StopTetheringAsync'') (wr_stop rt)) (\<lambda>_.
       perform (api (lit ''wait for native StopTetheringAsync'') (wr_stop_join rt)) (\<lambda>result.
       perform (ensure_tethering_operation_success (lit ''StopTetheringAsync'') result) (\<lambda>_.
       wait_native_hotspot_state rt State_off (lit ''StopTetheringAsync''))))))"
    by (intro sees_later sees_waits keeps_goes_on)
  show ?thesis
    unfolding native_hotspot_stop_def
    by (rule sees_asked_native [OF stop] | rule sees_later | rule keeps_goes_on)+
qed

text \<open>The stop script ends well if the service was seen off, or if there is no profile.\<close>

lemma stop_script_sees:
  assumes "stop_script rt h = (Ok (), h')"
  shows "seen_state ps rt (world h) State_off \<or> fst (wr_profile rt (world h)) = Inl 0"
proof -
  have stop: "sees ps rt State_off (perform (ps_call (wr_stop rt)) (\<lambda>_.
              wait_hotspot_state rt State_off (lit ''StopTetheringAsync'')))"
    by (rule sees_later [OF keeps_goes_on_ps_call [OF within_service(10)] sees_waits(1)])
  have rest: "sees ps rt State_off
      (perform (ps_call (wr_manager rt)) (\<lambda>_.
          perform (ps_call (wr_state rt)) (\<lambda>state.
          perform (if state \<noteq> State_off
            then
              perform (ps_call (wr_stop rt)) (\<lambda>_.
              wait_hotspot_state rt State_off (lit ''StopTetheringAsync''))
            else give ()) (\<lambda>_.
          perform (ps_call (wr_state rt)) (\<lambda>state.
          println (state_name state))))))"
    by (rule sees_asked_script [OF stop] | rule sees_later | rule keeps_goes_on)+
  obtain r h1 where a: "ask (wr_profile rt) h = (r, h1)" by fastforce
  have step: "reaches ps rt (world h) (world h1)"
    using keepsD [OF keeps_goes_on_call [OF within_service(1)] a] by (simp add: goes_on_def)
  show ?thesis
  proof (cases r)
    case (Ok u)
    with assms a rest have "seen_state ps rt (world h1) State_off"
      unfolding sees_def by (auto simp: stop_script_def)
    with step show ?thesis by (blast intro: seen_state_later)
  next
    case (Err e)
    with assms a have "e = 0" by (auto simp: stop_script_def split: if_splits)
    with Err a have "fst (wr_profile rt (world h)) = Inl 0"
      by (cases "fst (wr_profile rt (world h))") (auto simp: ask_def call_def split: prod.splits)
    then show ?thesis by simp
  qed (use assms a in \<open>simp add: stop_script_def\<close>)
qed
subsection \<open>The controller with its fallback\<close>

lemma version_command_other:
  "script_shell ps rt (lit ''$PSVersionTable.PSVersion.Major'') [] =
     ps_other ps (lit ''$PSVersionTable.PSVersion.Major'') []"
  by (simp add: script_shell_def hotspot_start_script_def hotspot_stop_script_def hotspot_status_script_def
      hotspot_access_point_script_def hotspot_interface_discovery_script_def lit_def)

lemma script_commands_differ [simp]:
  "hotspot_stop_script \<noteq> hotspot_start_script" "hotspot_status_script \<noteq> hotspot_start_script"
  "hotspot_status_script \<noteq> hotspot_stop_script"
  "hotspot_interface_discovery_script \<noteq> hotspot_start_script"
  "hotspot_interface_discovery_script \<noteq> hotspot_stop_script"
  "hotspot_interface_discovery_script \<noteq> hotspot_status_script"
  "hotspot_interface_discovery_script \<noteq> hotspot_access_point_script"
  by (simp_all add: hotspot_start_script_def hotspot_stop_script_def hotspot_status_script_def
      hotspot_access_point_script_def hotspot_interface_discovery_script_def lit_def)

lemma keeps_goes_on_available: "keeps (goes_on ps rt) (powershell_available (script_shell ps rt))"
proof -
  have "within ps rt (ps_other ps (lit ''$PSVersionTable.PSVersion.Major'') [])" by (rule within_service(12))
  then have "keeps (goes_on ps rt) (run_shell (script_shell ps rt) (lit ''$PSVersionTable.PSVersion.Major'') [])"
    unfolding run_shell_def version_command_other
    by (auto simp: keeps_def goes_on_def call_def within_def split: prod.split) (metis snd_conv)
  then show ?thesis
    unfolding powershell_available_def by (intro keeps_goes_on_basic)
qed

lemma keeps_goes_on_native:
  "keeps (goes_on ps rt) (native_hotspot_start rt config)" "keeps (goes_on ps rt) (native_hotspot_stop rt)"
  unfolding native_hotspot_start_def native_hotspot_stop_def by (intro keeps_goes_on)+

lemma with_fallback_reaches:
  assumes "with_fallback (script_shell ps rt) native script h = (Ok (), h')"
    and "keeps (goes_on ps rt) native"
  shows "native h = (Ok (), h') \<or> (\<exists>h1 text. reaches ps rt (world h) (world h1) \<and> script h1 = (Ok text, h'))"
proof -
  obtain r h0 where n: "native h = (r, h0)" by fastforce
  have g: "reaches ps rt (world h) (world h0)" using keepsD [OF assms(2) n] by (simp add: goes_on_def)
  note available = keeps_goes_on_available [of ps rt]
  show ?thesis
  proof (cases r)
    case (Ok u)
    with n assms(1) show ?thesis by (simp add: with_fallback_def caught_def give_def)
  next
    case (Err x)
    with n assms(1) obtain b1 h1 b2 h2 line where "powershell_available (script_shell ps rt) h0 = (Ok b1 :: (bool, control_error) res, h1)"
      "powershell_available (script_shell ps rt) h1 = (Ok b2 :: (bool, control_error) res, h2)"
      and w: "wrap (Fallback_failed x) script h2 = (Ok line, h')"
      by (auto simp: with_fallback_def caught_def perform_eq_Ok fail_def give_def split: if_splits)
    then have "reaches ps rt (world h0) (world h1)" "reaches ps rt (world h1) (world h2)"
      using keepsD [OF available] unfolding goes_on_def by blast+
    with g have "reaches ps rt (world h) (world h2)" by (meson rtranclp_trans)
    moreover have "\<exists>text. script h2 = (Ok text, h')"
      using w by (cases "script h2"; cases "fst (script h2)") (auto simp: wrap_def)
    ultimately show ?thesis by blast
  qed (use n assms(1) in \<open>simp add: with_fallback_def caught_def\<close>)
qed

lemma powershell_runs:
  assumes "powershell_with_env_named sh name command envs h = (Ok text, h')"
  shows "\<exists>out t. sh command envs (world h) = (Some out, t, world h') \<and> po_success out \<and>
     text = from_utf8_lossy (po_stdout out)"
proof -
  let ?h = "h\<lparr>actions := actions h @ [Run_powershell name]\<rparr>"
  obtain out where "wrap (\<lambda>_. Not_started name) (run_shell sh command envs) ?h = (Ok out, h')"
    and out: "po_success out" "text = from_utf8_lossy (po_stdout out)"
    using assms by (auto simp: powershell_with_env_named_def perform_eq_Ok emit_def fail_def give_def split: if_splits)
  then have "run_shell sh command envs ?h = (Ok out, h')"
    by (cases "run_shell sh command envs ?h"; cases "fst (run_shell sh command envs ?h)") (auto simp: wrap_def)
  from run_shell_Ok [OF this] out show ?thesis by (auto simp: answers_def)
qed

lemma run_script_success:
  assumes "run_script ps m w = (Some out, t, w')" and "po_success out"
  shows "\<exists>h'. m (process_start ps w) = (Ok (), h') \<and> world h' = w' \<and>
     po_stdout out = ps_encode ps (concat (map (\<lambda>l. l @ crlf) (printed (actions h'))))"
  using assms
  by (cases "m (process_start ps w)"; cases "fst (m (process_start ps w))") (auto simp: run_script_def)

lemma script_shell_simps:
  "script_shell ps rt hotspot_start_script envs = run_script ps (start_script ps rt envs)"
  "script_shell ps rt hotspot_stop_script envs = run_script ps (stop_script rt)"
  "script_shell ps rt hotspot_status_script envs = run_script ps (status_script rt)"
  "script_shell ps rt hotspot_interface_discovery_script envs = run_script ps (interface_discovery_script ps)"
  by (simp_all add: script_shell_def)

lemma world_process_start [simp]: "world (process_start ps w) = w" "actions (process_start ps w) = []"
  "clock (process_start ps w) = 0"
  by (simp_all add: process_start_def)

text \<open>A script that a controller has run with success, seen from the script.\<close>

lemma script_has_run:
  assumes "powershell_with_env_named (script_shell ps rt) name command envs h = (Ok text, h')"
    and "script_shell ps rt command envs = run_script ps m"
  shows "\<exists>k. m (process_start ps (world h)) = (Ok (), k) \<and> world k = world h'"
  using powershell_runs [OF assms(1)] assms(2) by (auto dest!: run_script_success)

subsection \<open>Output\<close>

definition ascii_console :: "'w scripting \<Rightarrow> bool" where
  "ascii_console ps \<longleftrightarrow> (\<forall>s. list_all (\<lambda>c. c < 128) s \<longrightarrow> from_utf8_lossy (ps_encode ps s) = s)"

lemma printed_append [simp]: "printed (as @ bs) = printed as @ printed bs"
  by (induction as rule: printed.induct) simp_all

lemma first_line_state: "first_line (state_name s @ crlf) = Some (state_name s)"
proof -
  have "10 \<notin> set (state_name s)" "trim (state_name s) = state_name s" "state_name s \<noteq> []"
    by (cases s; simp add: lit_def trim_plain is_whitespace_def)+
  then show ?thesis unfolding crlf_def by (rule first_line_crlf)
qed

lemma state_name_ascii: "list_all (\<lambda>c. c < 128) (state_name s @ crlf)"
  by (cases s) (simp_all add: lit_def crlf_def)

lemma parse_state_name:
  "parse_hotspot_status (state_name s @ crlf) =
     (case s of State_on \<Rightarrow> Running | State_off \<Rightarrow> Stopped | _ \<Rightarrow> Unknown)"
  unfolding parse_hotspot_status_def first_line_state by (cases s) (simp_all add: lit_def)

subsection \<open>Properties\<close>

text \<open>A wait that ends within b milliseconds without a panic and without acting on anything, and
  that reports its own timeout no sooner than after 30 s.\<close>

definition timely_wait ::
  "nat \<Rightarrow> ('e \<Rightarrow> bool) \<Rightarrow> ('w host, unit, 'e) io \<Rightarrow> 'w host \<Rightarrow> bool" where
  "timely_wait b gave_up m h \<longleftrightarrow>
     (case m h of (r, h') \<Rightarrow>
        r \<noteq> Panic \<and> clock h' \<le> clock h + b \<and> actions h' = actions h \<and>
        (\<forall>e. r = Err e \<and> gave_up e \<longrightarrow> clock h + 30000 \<le> clock h'))"

lemma timely_waitI:
  assumes "fst (m h) \<noteq> Panic" "clock (snd (m h)) \<le> clock h + b" "only_acts (\<lambda>a. False) h (snd (m h))"
    and "\<And>e. fst (m h) = Err e \<Longrightarrow> gave_up e \<Longrightarrow> clock h + 30000 \<le> clock (snd (m h))"
  shows "timely_wait b gave_up m h"
  using assms by (auto simp: timely_wait_def split_beta only_acts_def list_all_iff)

lemma timely_poll_loop:
  assumes "\<And>w. fst (snd (query w)) \<le> d" "\<And>t. late h t \<le> l"
    and "\<And>w x. fst (query w) = Inl x \<Longrightarrow> \<not> gave_up x"
  shows "timely_wait (30250 + l + d) gave_up (\<lambda>k. poll_loop query expected give_up (clock k + wait_timeout) k) h"
proof (rule timely_waitI)
  show "clock (snd (poll_loop query expected give_up (clock h + wait_timeout) h)) \<le> clock h + (30250 + l + d)"
    using poll_loop_time [of query d h l expected give_up "clock h + wait_timeout"] assms(1,2)
    by (simp add: wait_timeout_def)
  show "clock h + 30000 \<le> clock (snd (poll_loop query expected give_up (clock h + wait_timeout) h))"
    if "fst (poll_loop query expected give_up (clock h + wait_timeout) h) = Err e" "gave_up e" for e
    using poll_loop_patient [where gave_up = gave_up, OF assms(3) that] by (simp add: wait_timeout_def)
qed (simp_all add: poll_loop_no_panic keeps_poll_loop)

lemma timely_script_wait:
  assumes "\<And>w. fst (snd (query w)) \<le> d" "\<And>t. late h t \<le> l" and "\<And>x. \<not> gave_up (Winrt_failed x)"
  shows "timely_wait (30250 + l + 2 * d) gave_up
    (\<lambda>k. script_wait query expected (perform (ps_call query) (\<lambda>current. give (message current)))
       (clock k + 30000) k) h"
proof (rule timely_waitI)
  let ?g = "perform (ps_call query) (\<lambda>current. give (message current)) :: ('a host, script_error, script_error) io"
  have g: "keeps (only_acts A) ?g" for A
    unfolding ps_call_def by (intro keeps_acts keeps_ask)
  have t: "clock k \<le> clock (snd (?g k)) \<and> clock (snd (?g k)) \<le> clock k + d" for k
  proof -
    obtain r k' where a: "ask query k = (r, k')" by fastforce
    from ask_time [OF a] assms(1) [of "world k"] show ?thesis
      by (cases r) (simp_all add: a perform_def ps_call_def wrap_def give_def)
  qed
  show "clock (snd (script_wait query expected ?g (clock h + 30000) h)) \<le> clock h + (30250 + l + 2 * d)"
    using script_wait_time [of query d h l ?g expected "clock h + 30000"] assms(1,2) t by simp
  show "clock h + 30000 \<le> clock (snd (script_wait query expected ?g (clock h + 30000) h))"
    if "fst (script_wait query expected ?g (clock h + 30000) h) = Err e" "gave_up e" for e
    using script_wait_patient [OF that(1)] that(2) assms(3) t by blast
  show "only_acts (\<lambda>a. False) h (snd (script_wait query expected ?g (clock h + 30000) h))"
    by (rule keeps_script_wait [OF g])
  have "never_panics ?g" unfolding ps_call_def by (intro panics_never never_panics_ask)
  then show "fst (script_wait query expected ?g (clock h + 30000) h) \<noteq> Panic" by (rule script_wait_no_panic)
qed

lemma map_sum_api: "map_sum (Api what) f r = Inl x \<Longrightarrow> \<exists>code. x = Api what code"
  by (cases r) auto

lemma ssid_queries:
  "fst (snd (query_ssid rt w)) \<le> fst (snd (wr_access_point rt w)) \<and>
   fst (snd (script_ssid rt w)) \<le> fst (snd (wr_access_point rt w)) \<and>
   (fst (query_ssid rt w) = Inl x \<longrightarrow> (\<exists>what code. x = Api what code))"
proof (cases "wr_access_point rt w")
  case (fields r t w')
  show ?thesis
  proof (cases r)
    case (Inr ap)
    with fields show ?thesis by (cases "wr_read_ssid rt ap") (auto simp: query_ssid_def script_ssid_def)
  qed (auto simp: query_ssid_def script_ssid_def fields)
qed

text \<open>C23: Each of the four waits for the tethering service, those of the native path and those of
  the scripts, for a state and for the SSID, ends without a panic and without acting on anything,
  whatever the service answers. If no query of the service takes longer than d and no sleep ends
  more than l late, a native one is over within 30.25 s, one late sleep and one query, and a
  script's within 30.25 s, one late sleep and two queries, the second for its message. Each reports
  its timeout only when the 30 s are over.\<close>

theorem hotspot_waits_bounded:
  assumes "\<And>w. fst (snd (wr_state rt w)) \<le> d" and "\<And>w. fst (snd (wr_access_point rt w)) \<le> d"
    and "\<And>t. late h t \<le> l"
  shows "timely_wait (30250 + l + d) (\<lambda>e. \<exists>name s current. e = State_timeout name s current)
      (wait_native_hotspot_state rt expected op) h \<and>
    timely_wait (30250 + l + d) (\<lambda>e. \<exists>s current. e = Ssid_timeout s current)
      (wait_native_hotspot_ssid rt ssid) h \<and>
    timely_wait (30250 + l + 2 * d) (\<lambda>e. \<exists>name s current. e = State_not_reached name s current)
      (wait_hotspot_state rt expected op) h \<and>
    timely_wait (30250 + l + 2 * d) (\<lambda>e. \<exists>s current. e = Ssid_not_applied s current)
      (wait_hotspot_ssid ps rt ssid) h"
proof (intro conjI)
  let ?q = "\<lambda>w. case wr_state rt w of (r, t, w') \<Rightarrow>
      (map_sum (Api (lit ''query native WinRT tethering state'')) id r, t, w')"
  have q: "fst (snd (?q w)) \<le> d" "fst (?q w) = Inl x \<Longrightarrow> \<exists>what code. x = Api what code" for w x
    using assms(1) [of w] by (auto simp: split_beta dest: map_sum_api)
  note s = ssid_queries [of rt, THEN conjunct1, THEN order_trans, OF assms(2)]
    ssid_queries [of rt, THEN conjunct2, THEN conjunct1, THEN order_trans, OF assms(2)]
    ssid_queries [of rt, THEN conjunct2, THEN conjunct2]
  show "timely_wait (30250 + l + d) (\<lambda>e. \<exists>name s current. e = State_timeout name s current)
      (wait_native_hotspot_state rt expected op) h"
    unfolding wait_native_hotspot_state_def [abs_def]
    by (rule timely_poll_loop [OF q(1) assms(3)]) (use q(2) in blast)
  show "timely_wait (30250 + l + d) (\<lambda>e. \<exists>s current. e = Ssid_timeout s current)
      (wait_native_hotspot_ssid rt ssid) h"
    unfolding wait_native_hotspot_ssid_def [abs_def]
    by (rule timely_poll_loop [OF s(1) assms(3)]) (use s(3) in blast)
  show "timely_wait (30250 + l + 2 * d) (\<lambda>e. \<exists>name s current. e = State_not_reached name s current)
      (wait_hotspot_state rt expected op) h"
    unfolding wait_hotspot_state_def [abs_def] by (rule timely_script_wait [OF assms(1,3)]) simp_all
  show "timely_wait (30250 + l + 2 * d) (\<lambda>e. \<exists>s current. e = Ssid_not_applied s current)
      (wait_hotspot_ssid ps rt ssid) h"
    unfolding wait_hotspot_ssid_def [abs_def] by (rule timely_script_wait [OF s(2) assms(3)]) simp_all
qed

theorem hotspot_waits_bounded_witness:
  "\<exists>r h. wait_hotspot_state (sample_winrt\<lparr>wr_state := (\<lambda>w. (Inr w, 3, w))\<rparr>) State_on (lit ''Start'')
     (host_in State_off) = (r, h) \<and> clock h \<le> 30256 \<and> actions h = []"
  using hotspot_waits_bounded [of "sample_winrt\<lparr>wr_state := (\<lambda>w. (Inr w, 3, w))\<rparr>" 3 "host_in State_off" 0
      State_on "lit ''Start''" "[]" sample_scripting]
  by (auto simp: timely_wait_def sample_winrt_def host_in_def split: prod.splits)

text \<open>C19: A start of the hotspot that reports success, by the native path or by the script that
  follows when it fails, has seen the service report on, in a world that the calls of this start
  and of the test for PowerShell have led to from the first one.\<close>

theorem start_was_seen_on:
  assumes "windows_hotspot_start rt (script_shell ps rt) config h = (Ok (), h')"
  shows "seen_state ps rt (world h) State_on"
proof -
  from with_fallback_reaches [OF assms [unfolded windows_hotspot_start_def] keeps_goes_on_native(1)]
  consider (native) "native_hotspot_start rt config h = (Ok (), h')"
    | (script) h1 t envs where "reaches ps rt (world h) (world h1)"
      "powershell_with_env_named (script_shell ps rt) (lit ''hotspot start'') hotspot_start_script envs h1 = (Ok t, h')"
    by blast
  then show ?thesis
  proof cases
    case native
    then show ?thesis using native_start_sees [of ps rt config] unfolding sees_def by blast
  next
    case script
    from script_has_run [OF script(2) script_shell_simps(1)]
    have "seen_state ps rt (world h1) State_on"
      using start_script_sees [of ps rt envs] unfolding sees_def by fastforce
    with script(1) show ?thesis by (rule seen_state_later)
  qed
qed

text \<open>A console of ASCII, a PowerShell that answers the test for it, and a service the native path
  cannot configure, although the script can.\<close>

definition sample_scripting :: "'w scripting" where
  "sample_scripting =
     \<lparr>ps_encode = map word_of_nat, ps_describe = (\<lambda>e. []), ps_same = eq_ignore_ascii_case,
      ps_net_adapters = (\<lambda>w. [\<lparr>na_index = 12, na_description = lit ''Microsoft Wi-Fi Direct'', na_status = lit ''Up''\<rparr>]),
      ps_net_addresses = (\<lambda>w i. [(Ipv4Addr 169 254 1 1, 16), (Ipv4Addr 192 168 137 1, 24)]),
      ps_late = (\<lambda>w t. 0),
      ps_other = (\<lambda>command envs w. (Some \<lparr>po_success = True, po_stdout = [53], po_stderr = []\<rparr>, 1, w))\<rparr>"

definition scripted_winrt :: "tethering_state winrt" where
  "scripted_winrt = sample_winrt
     \<lparr>wr_configure_join := (\<lambda>w. (Inl 5, 1, w)), wr_start := (\<lambda>w. (Inr (), 1, State_on)),
      wr_stop := (\<lambda>w. (Inr (), 1, State_off))\<rparr>"

definition profileless_winrt :: "tethering_state winrt" where
  "profileless_winrt = sample_winrt\<lparr>wr_profile := (\<lambda>w. (Inl 0, 1, w))\<rparr>"

lemma sample_available:
  "powershell_available (script_shell sample_scripting rt) h = (Ok True, h\<lparr>clock := clock h + 1\<rparr>)"
  unfolding powershell_available_def run_shell_def version_command_other
  by (simp add: sample_scripting_def caught_def call_def give_def)

lemma hotspot_env_vars:
  "env_var [(lit ''HPROXY_HOTSPOT_SSID'', a), (lit ''HPROXY_HOTSPOT_PASSWORD'', b), (lit ''HPROXY_HOTSPOT_BAND'', c)]
     (lit ''HPROXY_HOTSPOT_SSID'') = a"
  "env_var [(lit ''HPROXY_HOTSPOT_SSID'', a), (lit ''HPROXY_HOTSPOT_PASSWORD'', b), (lit ''HPROXY_HOTSPOT_BAND'', c)]
     (lit ''HPROXY_HOTSPOT_PASSWORD'') = b"
  "env_var [(lit ''HPROXY_HOTSPOT_SSID'', a), (lit ''HPROXY_HOTSPOT_PASSWORD'', b), (lit ''HPROXY_HOTSPOT_BAND'', c)]
     (lit ''HPROXY_HOTSPOT_BAND'') = c"
  by (simp_all add: env_var_def lit_def)

lemma switch_band_sample:
  "switch_band sample_scripting (tethering_band_name b) = Some (native_tethering_band b)"
  by (cases b) (simp_all add: switch_band_def sample_scripting_def eq_ignore_ascii_case_def to_ascii_lowercase_def
      tethering_band_name_def native_tethering_band_def lit_def)

lemmas script_eval =
  native_eval sample_available run_shell_def powershell_named_def hotspot_env_vars
  powershell_with_env_named_def script_shell_simps run_script_def ps_call_def ps_set_def println_def
  sample_winrt_def host_in_def fail_def

theorem start_was_seen_on_witness:
  "\<exists>h. windows_hotspot_start scripted_winrt (script_shell sample_scripting scripted_winrt) sample_hotspot_config
       (host_in State_off) = (Ok (), h) \<and>
     seen_state sample_scripting scripted_winrt State_off State_on"
proof -
  have same: "ps_same sample_scripting s s" for s
    by (simp add: sample_scripting_def eq_ignore_ascii_case_def)
  obtain h where h: "windows_hotspot_start scripted_winrt (script_shell sample_scripting scripted_winrt)
      sample_hotspot_config (host_in State_off) = (Ok (), h)"
    by (simp add: script_eval start_script_def scripted_winrt_def sample_hotspot_config_def switch_band_sample
        wait_hotspot_state_def wait_hotspot_ssid_def script_wait.simps script_ssid_def same)
  with start_was_seen_on [OF h] show ?thesis by (simp add: host_in_def)
qed

text \<open>C20: A stop of the hotspot that reports success has seen the service report off in a world reached
  from the first one, unless there was no internet connection profile when the script looked for
  one: then the script prints Unknown and exits with success, and the hotspot may be on.\<close>

theorem stop_was_seen_off:
  assumes "windows_hotspot_stop rt (script_shell ps rt) h = (Ok (), h')"
  shows "seen_state ps rt (world h) State_off \<or>
     (\<exists>w. reaches ps rt (world h) w \<and> fst (wr_profile rt w) = Inl 0)"
proof -
  from with_fallback_reaches [OF assms [unfolded windows_hotspot_stop_def powershell_named_def] keeps_goes_on_native(2)]
  consider (native) "native_hotspot_stop rt h = (Ok (), h')"
    | (script) h1 t where "reaches ps rt (world h) (world h1)"
      "powershell_with_env_named (script_shell ps rt) (lit ''hotspot stop'') hotspot_stop_script [] h1 = (Ok t, h')"
    by blast
  then show ?thesis
  proof cases
    case native
    then show ?thesis using native_stop_sees [of ps rt] unfolding sees_def by blast
  next
    case script
    from script_has_run [OF script(2) script_shell_simps(2)] stop_script_sees
    have "seen_state ps rt (world h1) State_off \<or> fst (wr_profile rt (world h1)) = Inl 0"
      by fastforce
    with script(1) show ?thesis by (blast intro: seen_state_later)
  qed
qed

theorem stop_was_seen_off_witness:
  "\<exists>h. windows_hotspot_stop profileless_winrt (script_shell sample_scripting profileless_winrt)
       (host_in State_on) = (Ok (), h) \<and> world h = State_on \<and>
     (seen_state sample_scripting profileless_winrt State_on State_off \<or>
      (\<exists>w. reaches sample_scripting profileless_winrt State_on w \<and> fst (wr_profile profileless_winrt w) = Inl 0))"
proof -
  obtain h where h: "windows_hotspot_stop profileless_winrt (script_shell sample_scripting profileless_winrt)
      (host_in State_on) = (Ok (), h)" "world h = State_on"
    by (simp add: script_eval stop_script_def profileless_winrt_def)
  with stop_was_seen_off [OF h(1)] show ?thesis by (simp add: host_in_def)
qed

lemma wrapped_call_Ok:
  "ps_call f h = (Ok a, h') \<longleftrightarrow> ask f h = (Ok a, h')" "api what f h = (Ok a, h') \<longleftrightarrow> ask f h = (Ok a, h')"
  by (cases "ask f h"; cases "fst (ask f h)"; simp add: ps_call_def api_def wrap_def)+

lemma ask_actions: "ask f h = (r, h') \<Longrightarrow> actions h' = actions h"
  by (auto simp: ask_def call_def split: prod.splits)

text \<open>What the status script prints, if it ends well.\<close>

lemma status_script_prints:
  assumes "status_script rt h = (Ok (), h')"
  shows "\<exists>s. actions h' = actions h @ [Printed (state_name s)] \<and>
     (case s of State_on \<Rightarrow> Running | State_off \<Rightarrow> Stopped | _ \<Rightarrow> Unknown) =
     (case fst (native_hotspot_status rt h) of Ok s \<Rightarrow> s | _ \<Rightarrow> Unknown)"
proof -
  obtain r h1 where a: "(ask (wr_profile rt) :: ('a host, unit, nat) io) h = (r, h1)" by fastforce
  note acts = ask_actions [OF a]
  show ?thesis
  proof (cases r)
    case (Ok u)
    with assms a obtain h2 s h3 where m: "ask (wr_manager rt) h1 = (Ok (), h2)" and s: "ask (wr_state rt) h2 = (Ok s, h3)"
      and p: "println (state_name s) h3 = (Ok () :: (unit, script_error) res, h')"
      by (auto simp: status_script_def caught_def perform_eq_Ok wrapped_call_Ok)
    from a Ok m s have "native_hotspot_status rt h =
       (Ok (case s of State_on \<Rightarrow> Running | State_off \<Rightarrow> Stopped | _ \<Rightarrow> Unknown), h3)"
      by (auto simp: native_hotspot_status_def native_tethering_manager_def perform_eq_Ok wrapped_call_Ok give_def
          split: tethering_state.split)
    moreover have "actions h' = actions h @ [Printed (state_name s)]"
      using p acts ask_actions [OF m] ask_actions [OF s] by (auto simp: println_def emit_def)
    ultimately show ?thesis by auto
  next
    case (Err e)
    with a have "fst (native_hotspot_status rt h) = Err (Api (lit ''get internet connection profile'') e)"
      by (simp add: native_hotspot_status_def native_tethering_manager_def api_def wrap_def perform_def)
    moreover have "actions h' = actions h @ [Printed (state_name State_unknown)]"
      using assms a Err acts by (auto simp: status_script_def caught_def println_def emit_def)
    ultimately show ?thesis by (intro exI [of _ State_unknown]) simp
  qed (use a ask_no_panic in \<open>metis\<close>)
qed

text \<open>On a console that writes ASCII as it is, the status script answers what the native query
  answers in the same world: a run of it that succeeds is read as the native status, and as
  unknown when the native query fails.\<close>

theorem status_script_is_native:
  assumes "ascii_console ps" and "run_script ps (status_script rt) w = (Some out, t, w')" and "po_success out"
  shows "parse_hotspot_status (from_utf8_lossy (po_stdout out)) =
     (case fst (native_hotspot_status rt (process_start ps w)) of Ok s \<Rightarrow> s | _ \<Rightarrow> Unknown)"
proof -
  obtain h where run: "status_script rt (process_start ps w) = (Ok (), h)"
    and out: "po_stdout out = ps_encode ps (concat (map (\<lambda>l. l @ crlf) (printed (actions h))))"
    using run_script_success [OF assms(2,3)] by blast
  from status_script_prints [OF run] obtain s where s: "actions h = [Printed (state_name s)]"
    "(case s of State_on \<Rightarrow> Running | State_off \<Rightarrow> Stopped | _ \<Rightarrow> Unknown) =
     (case fst (native_hotspot_status rt (process_start ps w)) of Ok s \<Rightarrow> s | _ \<Rightarrow> Unknown)" by auto
  have "from_utf8_lossy (po_stdout out) = state_name s @ crlf"
    using assms(1) state_name_ascii [of s] unfolding ascii_console_def out s(1) by simp
  with s(2) parse_state_name [of s] show ?thesis by simp
qed

lemma sample_ascii_console: "ascii_console sample_scripting"
  by (simp add: ascii_console_def sample_scripting_def utf8_ascii)

theorem status_script_is_native_witness:
  "\<exists>out t w. run_script sample_scripting (status_script sample_winrt) State_on = (Some out, t, w) \<and>
     parse_hotspot_status (from_utf8_lossy (po_stdout out)) = Running"
proof -
  obtain out t w where r: "run_script sample_scripting (status_script sample_winrt) State_on = (Some out, t, w)"
    and s: "po_success out"
    by (simp add: run_script_def status_script_def process_start_def script_eval ps_call_def println_def)
  moreover have "fst (native_hotspot_status sample_winrt (process_start sample_scripting State_on)) = Ok Running"
    by (simp add: native_hotspot_status_def process_start_def script_eval)
  ultimately show ?thesis
    using status_script_is_native [OF sample_ascii_console r s] by simp
qed

lemma script_adapters_Nil: "script_adapters ps w = [] \<longleftrightarrow> (\<forall>a\<in>set (ps_net_adapters ps w). \<not> script_wifi_direct ps a)"
  unfolding script_adapters_def by (metis filter_empty_conv set_empty set_sort)

lemma script_adapters_first:
  assumes "script_adapters ps w = a # rest"
  shows "a \<in> set (ps_net_adapters ps w) \<and> script_wifi_direct ps a \<and>
     (\<forall>b\<in>set (ps_net_adapters ps w). script_wifi_direct ps b \<longrightarrow> na_index a \<le> na_index b)"
proof -
  have "a \<in> set (filter (script_wifi_direct ps) (ps_net_adapters ps w))"
    using assms unfolding script_adapters_def by (metis list.set_intros(1) set_sort)
  with hd_sort_key_least [OF assms [unfolded script_adapters_def]] show ?thesis by auto
qed

lemma script_addresses_Nil:
  "script_addresses ps w i = [] \<longleftrightarrow> (\<forall>(ip, p)\<in>set (ps_net_addresses ps w i). \<not> script_usable ip)"
proof -
  have "script_addresses ps w i = [] \<longleftrightarrow> filter (\<lambda>(ip, p). script_usable ip) (ps_net_addresses ps w i) = []"
    unfolding script_addresses_def by (metis set_empty set_sort)
  then show ?thesis by (auto simp: filter_empty_conv)
qed

lemma script_addresses_first:
  assumes "script_addresses ps w i = (ip, p) # rest"
  shows "(ip, p) \<in> set (ps_net_addresses ps w i) \<and> script_usable ip \<and>
     (\<forall>(ip', p')\<in>set (ps_net_addresses ps w i). script_usable ip' \<longrightarrow> p \<le> p')"
proof -
  have "(ip, p) \<in> set (filter (\<lambda>(ip, p). script_usable ip) (ps_net_addresses ps w i))"
    using assms unfolding script_addresses_def by (metis list.set_intros(1) set_sort)
  with hd_sort_key_least [OF assms [unfolded script_addresses_def]] show ?thesis by auto
qed

lemma discovery_line_ascii: "list_all (\<lambda>c. c < 128) (discovery_line i ip p @ crlf)"
  using show_nat_digits [of _ "unat i"] show_ipv4_chars [of _ ip] show_nat_digits [of _ "unat p"]
  by (force simp: discovery_line_def lit_def crlf_def list_all_iff)

lemma parse_nothing: "parse_hotspot_runtime [] = Err NoActiveInterface"
  by (simp add: parse_hotspot_runtime_def first_line_def lines.simps [of "[]"])

lemma discovery_script_prints:
  assumes "ascii_console ps" and "run_script ps (interface_discovery_script ps) w = (Some out, t, w')"
  shows "parse_hotspot_runtime (from_utf8_lossy (po_stdout out)) =
     (case script_adapters ps w of
        [] \<Rightarrow> Err NoActiveInterface
      | a # _ \<Rightarrow>
          (case script_addresses ps w (na_index a) of
             [] \<Rightarrow> Err NoActiveInterface
           | (ip, p) # _ \<Rightarrow> Ok (runtime_of (na_index a, p, ip))))"
proof -
  have console: "list_all (\<lambda>c. c < 128) s \<Longrightarrow> from_utf8_lossy (ps_encode ps s) = s" for s
    using assms(1) by (simp add: ascii_console_def)
  show ?thesis
  proof (cases "script_adapters ps w")
    case Nil
    with assms(2) console [of "[]"] show ?thesis
      by (auto simp: run_script_def interface_discovery_script_def parse_nothing)
  next
    case (Cons a as)
    show ?thesis
    proof (cases "script_addresses ps w (na_index a)")
      case Nil
      with Cons assms(2) console [of "[]"] show ?thesis
        by (auto simp: run_script_def interface_discovery_script_def parse_nothing)
    next
      case found: (Cons addr rest)
      obtain ip p where ip: "addr = (ip, p)" by fastforce
      have "from_utf8_lossy (po_stdout out) = discovery_line (na_index a) ip p @ crlf"
        using assms(2) Cons found ip console [OF discovery_line_ascii [of "na_index a" ip p]]
        by (auto simp: run_script_def interface_discovery_script_def println_def emit_def discovery_line_def)
      with Cons found ip show ?thesis by (simp add: crlf_def parse_discovery_line)
    qed
  qed
qed

text \<open>C39: On a console that writes ASCII as it is, what the discovery script prints is read as the
  gateway of the Wi-Fi Direct adapter with the least index, with its shortest prefix, or as no
  active interface; the latter also if only an adapter with a higher index has a usable address.\<close>

theorem discovery_script_finds:
  assumes "ascii_console ps" and "run_script ps (interface_discovery_script ps) w = (Some out, t, w')"
  shows "case parse_hotspot_runtime (from_utf8_lossy (po_stdout out)) of
     Ok r \<Rightarrow> \<exists>a ip p. a \<in> set (ps_net_adapters ps w) \<and> script_wifi_direct ps a \<and>
       (\<forall>b\<in>set (ps_net_adapters ps w). script_wifi_direct ps b \<longrightarrow> na_index a \<le> na_index b) \<and>
       (ip, p) \<in> set (ps_net_addresses ps w (na_index a)) \<and> script_usable ip \<and>
       (\<forall>(ip', p')\<in>set (ps_net_addresses ps w (na_index a)). script_usable ip' \<longrightarrow> p \<le> p') \<and>
       r = runtime_of (na_index a, p, ip)
   | Err e \<Rightarrow> e = NoActiveInterface \<and>
       (\<forall>a\<in>set (ps_net_adapters ps w). script_wifi_direct ps a \<longrightarrow>
          (\<exists>b\<in>set (ps_net_adapters ps w). script_wifi_direct ps b \<and> na_index b \<le> na_index a \<and>
             (\<forall>(ip, p)\<in>set (ps_net_addresses ps w (na_index b)). \<not> script_usable ip)))
   | Panic \<Rightarrow> False"
proof (cases "script_adapters ps w")
  case Nil
  then show ?thesis by (simp add: discovery_script_prints [OF assms] script_adapters_Nil [THEN iffD1])
next
  case (Cons a as)
  note first = script_adapters_first [OF Cons]
  show ?thesis
  proof (cases "script_addresses ps w (na_index a)")
    case Nil
    with first script_addresses_Nil [of ps w "na_index a"] Cons show ?thesis
      by (auto simp: discovery_script_prints [OF assms])
  next
    case found: (Cons addr rest)
    obtain ip p where ip: "addr = (ip, p)" by fastforce
    show ?thesis
      unfolding discovery_script_prints [OF assms]
      using Cons found ip first script_addresses_first [OF found [unfolded ip]] by auto
  qed
qed

theorem discovery_script_finds_witness:
  "\<exists>out t w. run_script sample_scripting (interface_discovery_script sample_scripting) State_on = (Some out, t, w) \<and>
     parse_hotspot_runtime (from_utf8_lossy (po_stdout out)) = Ok (runtime_of (12, 24, Ipv4Addr 192 168 137 1))"
proof -
  obtain out t w where r:
    "run_script sample_scripting (interface_discovery_script sample_scripting) State_on = (Some out, t, w)"
    unfolding run_script_def by (cases "interface_discovery_script sample_scripting (process_start sample_scripting State_on)") simp
  have "\<not> script_usable (Ipv4Addr 169 254 1 1)" "script_usable (Ipv4Addr 192 168 137 1)"
    by (simp_all add: script_usable_def show_nat.simps lit_def starts_with_def)
  moreover have "script_wifi_direct sample_scripting
      \<lparr>na_index = 12, na_description = lit ''Microsoft Wi-Fi Direct'', na_status = lit ''Up''\<rparr>"
    by (simp add: script_wifi_direct_def sample_scripting_def to_ascii_lowercase_def eq_ignore_ascii_case_def
        starts_with_def lit_def)
  ultimately have "parse_hotspot_runtime (from_utf8_lossy (po_stdout out)) = Ok (runtime_of (12, 24, Ipv4Addr 192 168 137 1))"
    using discovery_script_finds [OF sample_ascii_console r]
    by (cases "parse_hotspot_runtime (from_utf8_lossy (po_stdout out))") (auto simp: sample_scripting_def)
  with r show ?thesis by blast
qed

end
