(* ===== verification/Doctor.thy ===== *)
theory Doctor
  imports Host
begin

section \<open>Capability probes (src/src/doctor.rs)\<close>

text \<open>
  What \<open>hproxy doctor\<close> finds out about the host: where the WinDivert files are, what the
  Wi-Fi hardware can do and whether the Windows build tools are there. The probes run PowerShell
  and read lines of the form \<open>key: value\<close> from its output. The scripts are PowerShell
  programs; the one for the build tools stands here under the name of its constant, and
  \<open>Build_Script\<close> has what it does.

  File names are strings. What the environment variables, the current directory, the
  directory of the executable and \<open>Path::is_file\<close> answer is the record \<open>search_env\<close>.

  The lemmas show that the field parser reads a printed report as the association list it was
  printed from, and which verdicts follow.
\<close>

subsection \<open>Fields of a report\<close>

text \<open>\<open>Iterator::find_map\<close>, and the number of \<open>str::matches\<close> of a pattern.\<close>

fun find_map :: "('a \<Rightarrow> 'b option) \<Rightarrow> 'a list \<Rightarrow> 'b option" where
  "find_map f [] = None"
| "find_map f (x # xs) = (case f x of None \<Rightarrow> find_map f xs | Some y \<Rightarrow> Some y)"

function count_matches :: "str \<Rightarrow> str \<Rightarrow> nat" where
  "count_matches p s =
     (if p = [] \<or> s = [] then 0
      else if starts_with s p then 1 + count_matches p (drop (length p) s)
      else count_matches p (tl s))"
  by pat_completeness auto
termination
  by (relation "measure (length \<circ> snd)") (auto simp: diff_less)

declare count_matches.simps [simp del]

definition parse_string_field :: "str \<Rightarrow> str \<Rightarrow> str option" where
  "parse_string_field text field =
     find_map (\<lambda>line.
       case split_once 58 line of
         None \<Rightarrow> None
       | Some (key, v) \<Rightarrow> if trim key = field then Some (trim v) else None) (lines text)"

definition parse_bool_field :: "str \<Rightarrow> str \<Rightarrow> bool option" where
  "parse_bool_field text field =
     (case parse_string_field text field of
        None \<Rightarrow> None
      | Some v \<Rightarrow>
          let normalized = to_ascii_lowercase v in
          if starts_with normalized (lit ''yes'') \<or> normalized = lit ''supported'' then Some True
          else if starts_with normalized (lit ''no'') \<or> normalized = lit ''not supported'' then Some False
          else None)"

definition parse_u16_field :: "str \<Rightarrow> str \<Rightarrow> u16 option" where
  "parse_u16_field text field =
     (case parse_string_field text field of
        None \<Rightarrow> None
      | Some v \<Rightarrow> map_option word_of_nat (parse_uint (2 ^ 16) v))"

definition parse_non_empty_field :: "str \<Rightarrow> str \<Rightarrow> str option" where
  "parse_non_empty_field text field =
     (case parse_string_field text field of
        None \<Rightarrow> None
      | Some v \<Rightarrow> if v \<noteq> [] then Some v else None)"

subsection \<open>The build tools\<close>

record build_tool_probe =
  bt_probe_available :: bool
  bt_rustc_version :: "str option"
  bt_cargo_version :: "str option"
  bt_dotnet_sdk_version :: "str option"
  bt_visual_studio_path :: "str option"
  bt_msvc_version :: "str option"
  bt_cl_path :: "str option"
  bt_msbuild_path :: "str option"
  bt_windows_sdk_version :: "str option"
  bt_signtool_path :: "str option"
  bt_wfp_header_path :: "str option"

definition native_windows_toolchain_ready :: "build_tool_probe \<Rightarrow> bool option" where
  "native_windows_toolchain_ready p =
     (if \<not> bt_probe_available p then None
      else Some
        (bt_rustc_version p \<noteq> None \<and> bt_cargo_version p \<noteq> None \<and>
         bt_visual_studio_path p \<noteq> None \<and> bt_msvc_version p \<noteq> None \<and>
         bt_cl_path p \<noteq> None \<and> bt_msbuild_path p \<noteq> None \<and> bt_windows_sdk_version p \<noteq> None))"

definition wfp_driver_sdk_ready :: "build_tool_probe \<Rightarrow> bool option" where
  "wfp_driver_sdk_ready p =
     (if \<not> bt_probe_available p then None
      else Some
        (bt_cl_path p \<noteq> None \<and> bt_msbuild_path p \<noteq> None \<and> bt_windows_sdk_version p \<noteq> None \<and>
         bt_signtool_path p \<noteq> None \<and> bt_wfp_header_path p \<noteq> None))"

definition parse_build_tool_probe :: "str \<Rightarrow> build_tool_probe" where
  "parse_build_tool_probe text =
     \<lparr>bt_probe_available = True,
      bt_rustc_version = parse_non_empty_field text (lit ''rustc''),
      bt_cargo_version = parse_non_empty_field text (lit ''cargo''),
      bt_dotnet_sdk_version = parse_non_empty_field text (lit ''dotnet sdk''),
      bt_visual_studio_path = parse_non_empty_field text (lit ''visual studio''),
      bt_msvc_version = parse_non_empty_field text (lit ''msvc''),
      bt_cl_path = parse_non_empty_field text (lit ''cl path''),
      bt_msbuild_path = parse_non_empty_field text (lit ''msbuild path''),
      bt_windows_sdk_version = parse_non_empty_field text (lit ''windows sdk''),
      bt_signtool_path = parse_non_empty_field text (lit ''signtool path''),
      bt_wfp_header_path = parse_non_empty_field text (lit ''wfp header'')\<rparr>"

definition no_build_tool_probe :: build_tool_probe where
  "no_build_tool_probe =
     \<lparr>bt_probe_available = False, bt_rustc_version = None, bt_cargo_version = None,
      bt_dotnet_sdk_version = None, bt_visual_studio_path = None, bt_msvc_version = None,
      bt_cl_path = None, bt_msbuild_path = None, bt_windows_sdk_version = None,
      bt_signtool_path = None, bt_wfp_header_path = None\<rparr>"

datatype probe_error = Probe_failed str shell_error

definition build_tool_probe_script :: str where
  "build_tool_probe_script = lit ''BUILD_TOOL_PROBE_SCRIPT''"

definition run_build_tool_probe :: "'w shell \<Rightarrow> ('w host, build_tool_probe, probe_error) io" where
  "run_build_tool_probe sh =
     perform (powershell_available sh) (\<lambda>available.
       if \<not> available then give no_build_tool_probe
       else
         perform (wrap (Probe_failed (lit ''query Windows build toolchain''))
           (powershell sh build_tool_probe_script)) (\<lambda>output.
         give (parse_build_tool_probe output)))"

subsection \<open>The Wi-Fi hardware\<close>

record host_probe =
  hp_probe_available :: bool
  hp_wifi_driver :: "str option"
  hp_hosted_network_supported :: "bool option"
  hp_station_supported :: "bool option"
  hp_soft_ap_supported :: "bool option"
  hp_wifi_direct_go_supported :: "bool option"
  hp_p2p_max_mobile_ap_clients :: "u16 option"
  hp_wifi_direct_virtual_adapters :: nat
  hp_mobile_hotspot_service_status :: "str option"

definition mobile_hotspot_likely_supported :: "host_probe \<Rightarrow> bool option" where
  "mobile_hotspot_likely_supported p =
     (case (hp_station_supported p, hp_wifi_direct_go_supported p,
            0 < hp_wifi_direct_virtual_adapters p) of
        (Some True, Some True, True) \<Rightarrow> Some True
      | (Some False, _, _) \<Rightarrow> Some False
      | (_, Some False, _) \<Rightarrow> Some False
      | _ \<Rightarrow> None)"

definition no_host_probe :: host_probe where
  "no_host_probe =
     \<lparr>hp_probe_available = False, hp_wifi_driver = None, hp_hosted_network_supported = None,
      hp_station_supported = None, hp_soft_ap_supported = None,
      hp_wifi_direct_go_supported = None, hp_p2p_max_mobile_ap_clients = None,
      hp_wifi_direct_virtual_adapters = 0, hp_mobile_hotspot_service_status = None\<rparr>"

definition adapter_inventory_script :: str where
  "adapter_inventory_script =
     lit ''Get-NetAdapter -IncludeHidden | Where-Object { $_.InterfaceDescription -match '' @ [39] @
     lit ''Wi-Fi Direct|WiFi Direct|Wireless|WLAN|AX211'' @ [39] @ lit '' -or $_.Name -match '' @ [39] @
     lit ''Wi-Fi Direct|WiFi Direct|Wireless|WLAN'' @ [39] @
     lit '' } | Format-List Name,InterfaceDescription,Status,ifIndex''"

definition host_probe_of :: "str \<Rightarrow> str \<Rightarrow> str \<Rightarrow> str \<Rightarrow> host_probe" where
  "host_probe_of drivers wireless_capabilities adapters hotspot_service =
     \<lparr>hp_probe_available = True,
      hp_wifi_driver = parse_string_field drivers (lit ''Driver''),
      hp_hosted_network_supported = parse_bool_field drivers (lit ''Hosted network supported''),
      hp_station_supported = parse_bool_field wireless_capabilities (lit ''Station''),
      hp_soft_ap_supported = parse_bool_field wireless_capabilities (lit ''Soft AP''),
      hp_wifi_direct_go_supported = parse_bool_field wireless_capabilities (lit ''Wi-Fi Direct GO''),
      hp_p2p_max_mobile_ap_clients =
        parse_u16_field wireless_capabilities (lit ''P2P Max Mobile AP Clients''),
      hp_wifi_direct_virtual_adapters =
        count_matches (lit ''Microsoft Wi-Fi Direct Virtual Adapter'') adapters,
      hp_mobile_hotspot_service_status = parse_string_field hotspot_service (lit ''Status'')\<rparr>"

definition run_host_probe :: "'w shell \<Rightarrow> ('w host, host_probe, probe_error) io" where
  "run_host_probe sh =
     perform (powershell_available sh) (\<lambda>available.
       if \<not> available then give no_host_probe
       else
         perform (wrap (Probe_failed (lit ''query Wi-Fi driver capabilities''))
           (powershell sh (lit ''netsh wlan show drivers''))) (\<lambda>drivers.
         perform (wrap (Probe_failed (lit ''query wireless device capabilities''))
           (powershell sh (lit ''netsh wlan show wirelesscapabilities''))) (\<lambda>wireless_capabilities.
         perform (wrap (Probe_failed (lit ''query Wi-Fi adapter inventory''))
           (powershell sh adapter_inventory_script)) (\<lambda>adapters.
         perform (wrap (Probe_failed (lit ''query Windows Mobile Hotspot service''))
           (powershell sh
             (lit ''Get-Service icssvc | Format-List Name,DisplayName,Status,StartType''))) (\<lambda>hotspot_service.
         give (host_probe_of drivers wireless_capabilities adapters hotspot_service))))))"

subsection \<open>The WinDivert files\<close>

type_synonym path = str

record search_env =
  se_var :: "str \<Rightarrow> path option"
  se_current_dir :: "path option"
  se_exe_dir :: "path option"
  se_is_file :: "path \<Rightarrow> bool"

text \<open>\<open>Path::join\<close> of a relative path on Windows. A bare drive takes no separator.\<close>

definition is_drive :: "path \<Rightarrow> bool" where
  "is_drive p \<longleftrightarrow> length p = 2 \<and> p ! 1 = 58 \<and> (65 \<le> p ! 0 \<and> p ! 0 \<le> 90 \<or> 97 \<le> p ! 0 \<and> p ! 0 \<le> 122)"

definition path_join :: "path \<Rightarrow> path \<Rightarrow> path" where
  "path_join base rel =
     (if base = [] \<or> last base = 47 \<or> last base = 92 \<or> is_drive base then base @ rel
      else base @ [92] @ rel)"

record windivert_probe =
  wp_dll_path :: "path option"
  wp_driver_path :: "path option"

definition files_present :: "windivert_probe \<Rightarrow> bool" where
  "files_present p \<longleftrightarrow> wp_dll_path p \<noteq> None \<and> wp_driver_path p \<noteq> None"

definition usable_on_this_host :: "windivert_probe \<Rightarrow> bool" where
  "usable_on_this_host p \<longleftrightarrow> files_present p"

definition candidate_dirs :: "search_env \<Rightarrow> path list" where
  "candidate_dirs e =
     (case se_var e (lit ''HPROXY_WINDIVERT_DIR'') of Some dir \<Rightarrow> [dir] | None \<Rightarrow> []) @
     (case se_current_dir e of
        Some dir \<Rightarrow> [path_join dir (lit ''third_party/windivert/win-x64'')] | None \<Rightarrow> []) @
     (case se_exe_dir e of
        Some dir \<Rightarrow> [dir, path_join dir (lit ''windivert/win-x64'')] | None \<Rightarrow> []) @
     (case se_var e (lit ''SystemRoot'') of
        Some root \<Rightarrow> [path_join root (lit ''System32''), path_join root (lit ''System32/drivers'')]
      | None \<Rightarrow> [])"

definition run_windivert_probe :: "search_env \<Rightarrow> windivert_probe" where
  "run_windivert_probe e =
     \<lparr>wp_dll_path = find (se_is_file e) (map (\<lambda>dir. path_join dir (lit ''WinDivert.dll'')) (candidate_dirs e)),
      wp_driver_path = find (se_is_file e) (map (\<lambda>dir. path_join dir (lit ''WinDivert64.sys'')) (candidate_dirs e))\<rparr>"

subsection \<open>Reading a printed report\<close>

text \<open>The output of the build tool script: \<open>Write-Field\<close> prints one line per field.\<close>

definition field_line :: "str \<times> str \<Rightarrow> str" where
  "field_line = (\<lambda>(key, v). key @ [58, 32] @ v)"

definition report :: "(str \<times> str) list \<Rightarrow> str" where
  "report kvs = concat (map (\<lambda>kv. field_line kv @ crlf) kvs)"

definition plain_field :: "str \<times> str \<Rightarrow> bool" where
  "plain_field = (\<lambda>(key, v). trim key = key \<and> 58 \<notin> set key \<and> 10 \<notin> set key \<and> 10 \<notin> set v)"

lemma lines_report:
  "list_all plain_field kvs \<Longrightarrow> lines (report kvs) = map field_line kvs"
proof (induction kvs)
  case Nil
  then show ?case by (simp add: report_def lines.simps)
next
  case (Cons kv kvs)
  obtain key v where kv: "kv = (key, v)" by fastforce
  with Cons.prems have "10 \<notin> set (field_line kv)" by (simp add: field_line_def plain_field_def)
  with Cons show ?case by (simp add: report_def lines_crlf)
qed

lemma trim_space: "trim (32 # v) = trim v"
  by (simp add: trim_def is_whitespace_def)

lemma split_field: "plain_field (key, v) \<Longrightarrow> split_once 58 (field_line (key, v)) = Some (key, 32 # v)"
  by (simp add: split_once_Some field_line_def plain_field_def)

lemma parse_report:
  assumes "list_all plain_field kvs"
  shows "parse_string_field (report kvs) f = map_option trim (map_of kvs f)"
proof -
  let ?g = "\<lambda>line. case split_once 58 line of
         None \<Rightarrow> None
       | Some (key, v) \<Rightarrow> if trim key = f then Some (trim v) else None"
  have "find_map ?g (map field_line kvs) = map_option trim (map_of kvs f)"
    using assms
  proof (induction kvs)
    case (Cons kv kvs)
    then show ?case
      by (cases kv) (auto simp: split_field trim_space plain_field_def)
  qed simp
  with assms show ?thesis by (simp add: parse_string_field_def lines_report)
qed

text \<open>A field counts as present if the first line of its name has a value that is not blank.\<close>

definition reported :: "(str \<times> str) list \<Rightarrow> str \<Rightarrow> bool" where
  "reported kvs f \<longleftrightarrow> (case map_of kvs f of None \<Rightarrow> False | Some v \<Rightarrow> trim v \<noteq> [])"

lemma parse_non_empty_report:
  "list_all plain_field kvs \<Longrightarrow>
     parse_non_empty_field (report kvs) f =
       (if reported kvs f then map_option trim (map_of kvs f) else None)"
  by (auto simp: parse_non_empty_field_def parse_report reported_def split: option.splits)

lemma reported_Some: "reported kvs f \<Longrightarrow> \<exists>v. map_of kvs f = Some v"
  by (auto simp: reported_def split: option.splits)

lemma parse_non_empty_iff:
  "list_all plain_field kvs \<Longrightarrow> parse_non_empty_field (report kvs) f \<noteq> None \<longleftrightarrow> reported kvs f"
  by (auto simp: parse_non_empty_report dest: reported_Some)

subsection \<open>Properties\<close>

text \<open>The report of the build tool script is read back as it was printed: whatever values the
  script prints for its fields, each field of the probe is the trimmed value of the first line
  with its name, or missing if there is none or it is blank; and the two verdicts say exactly
  whether the fields they need are there.\<close>

theorem build_tool_report_roundtrip:
  assumes "list_all plain_field kvs"
  shows "map (\<lambda>field. field (parse_build_tool_probe (report kvs)))
       [bt_rustc_version, bt_cargo_version, bt_dotnet_sdk_version, bt_visual_studio_path,
        bt_msvc_version, bt_cl_path, bt_msbuild_path, bt_windows_sdk_version, bt_signtool_path,
        bt_wfp_header_path] =
     map (\<lambda>name. if reported kvs name then map_option trim (map_of kvs name) else None)
       [lit ''rustc'', lit ''cargo'', lit ''dotnet sdk'', lit ''visual studio'', lit ''msvc'',
        lit ''cl path'', lit ''msbuild path'', lit ''windows sdk'', lit ''signtool path'',
        lit ''wfp header''] \<and>
     native_windows_toolchain_ready (parse_build_tool_probe (report kvs)) =
       Some (list_all (reported kvs) [lit ''rustc'', lit ''cargo'', lit ''visual studio'', lit ''msvc'',
         lit ''cl path'', lit ''msbuild path'', lit ''windows sdk'']) \<and>
     wfp_driver_sdk_ready (parse_build_tool_probe (report kvs)) =
       Some (list_all (reported kvs) [lit ''cl path'', lit ''msbuild path'', lit ''windows sdk'',
         lit ''signtool path'', lit ''wfp header''])"
  by (simp add: parse_build_tool_probe_def native_windows_toolchain_ready_def wfp_driver_sdk_ready_def
      parse_non_empty_iff [OF assms] del: not_None_eq)
    (simp add: parse_non_empty_report [OF assms])

theorem build_tool_report_roundtrip_witness:
  "bt_msvc_version (parse_build_tool_probe (report [(lit ''cargo'', []), (lit ''msvc'', lit ''14.44 '')])) =
     Some (lit ''14.44'')"
proof -
  have "list_all plain_field [(lit ''cargo'', []), (lit ''msvc'', lit ''14.44 '')]" by code_simp
  moreover have "reported [(lit ''cargo'', []), (lit ''msvc'', lit ''14.44 '')] (lit ''msvc'')" by code_simp
  moreover have "map_option trim (map_of [(lit ''cargo'', []), (lit ''msvc'', lit ''14.44 '')] (lit ''msvc'')) =
    Some (lit ''14.44'')" by code_simp
  ultimately show ?thesis
    using build_tool_report_roundtrip [of "[(lit ''cargo'', []), (lit ''msvc'', lit ''14.44 '')]"] by simp
qed

end
