(* ===== verification/Build_Script.thy ===== *)
theory Build_Script
  imports Doctor Hotspot_Control "HOL-Library.List_Lexorder"
begin

section \<open>The build tool script (src/src/doctor.rs)\<close>

text \<open>
  \<open>BUILD_TOOL_PROBE_SCRIPT\<close>, the PowerShell program that looks for the Windows build tools, and
  what \<open>run_build_tool_probe\<close> makes of its output. The cmdlets the script calls and the programs it
  runs are the record \<open>tool_host\<close>: a found command with the lines it prints, \<open>Join-Path\<close>,
  \<open>Test-Path\<close>, the directories in a directory, the one line of \<open>vswhere -latest\<close>, and the collation
  of \<open>Sort-Object\<close>, which compares names by a key. The script goes on after an error, so an unset
  \<open>ProgramFiles(x86)\<close> only makes the two searches below it find nothing.

  The lemmas show, for each field of the probe, which command or which file at which path decides
  it, and that the toolset and the SDK looked into are the ones with the greatest names in the order
  of the collation, which need not be a version.
\<close>

record tool_host =
  th_run :: "str \<Rightarrow> str list \<Rightarrow> str list option"
  th_program_files :: "str option"
  th_join :: "str \<Rightarrow> str \<Rightarrow> str"
  th_test_path :: "str \<Rightarrow> bool"
  th_vswhere :: "str \<Rightarrow> str option"
  th_directories :: "str \<Rightarrow> str list"
  th_collate :: "str \<Rightarrow> nat list"

fun win_path :: "string list \<Rightarrow> str" where
  "win_path [] = []"
| "win_path [p] = lit p"
| "win_path (p # q # ps) = lit p @ [92] @ win_path (q # ps)"

subsection \<open>The functions of the script\<close>

definition write_field :: "str \<Rightarrow> str \<Rightarrow> str" where
  "write_field name v = (if trim v = [] then field_line (name, []) else field_line (name, v))"

definition command_version :: "tool_host \<Rightarrow> str \<Rightarrow> str list \<Rightarrow> str" where
  "command_version th command args =
     (case th_run th command args of
        None \<Rightarrow> []
      | Some [] \<Rightarrow> []
      | Some (first # _) \<Rightarrow> trim first)"

definition latest_child_name :: "tool_host \<Rightarrow> str \<Rightarrow> str" where
  "latest_child_name th p =
     (if \<not> th_test_path th p then []
      else
        (case rev (sort_key (th_collate th) (th_directories th p)) of
           [] \<Rightarrow> []
         | name # _ \<Rightarrow> name))"

text \<open>\<open>if (Test-Path $candidate) { $x = $candidate }\<close>, with \<open>$x\<close> empty before.\<close>

definition if_there :: "tool_host \<Rightarrow> str \<Rightarrow> str" where
  "if_there th candidate = (if th_test_path th candidate then candidate else [])"

subsection \<open>The script\<close>

definition vs_path :: "tool_host \<Rightarrow> str" where
  "vs_path th =
     (case th_program_files th of
        None \<Rightarrow> []
      | Some program_files \<Rightarrow>
          let vswhere = th_join th program_files
            (win_path [''Microsoft Visual Studio'', ''Installer'', ''vswhere.exe'']) in
          if \<not> th_test_path th vswhere then []
          else (case th_vswhere th vswhere of None \<Rightarrow> [] | Some p \<Rightarrow> trim p))"

definition msvc_root :: "tool_host \<Rightarrow> str" where
  "msvc_root th = th_join th (vs_path th) (win_path [''VC'', ''Tools'', ''MSVC''])"

definition msvc_version :: "tool_host \<Rightarrow> str" where
  "msvc_version th = (if vs_path th = [] then [] else latest_child_name th (msvc_root th))"

definition cl_path :: "tool_host \<Rightarrow> str" where
  "cl_path th =
     (if msvc_version th = [] then []
      else if_there th (th_join th (msvc_root th)
        (msvc_version th @ [92] @ win_path [''bin'', ''Hostx64'', ''x64'', ''cl.exe''])))"

definition msbuild_path :: "tool_host \<Rightarrow> str" where
  "msbuild_path th =
     (if vs_path th = [] then []
      else if_there th (th_join th (vs_path th)
        (win_path [''MSBuild'', ''Current'', ''Bin'', ''amd64'', ''MSBuild.exe''])))"

definition sdk_root :: "tool_host \<Rightarrow> str option" where
  "sdk_root th =
     map_option (\<lambda>program_files. th_join th program_files (win_path [''Windows Kits'', ''10'']))
       (th_program_files th)"

definition include_root :: "tool_host \<Rightarrow> str option" where
  "include_root th = map_option (\<lambda>root. th_join th root (lit ''Include'')) (sdk_root th)"

definition sdk_version :: "tool_host \<Rightarrow> str" where
  "sdk_version th =
     (case include_root th of
        None \<Rightarrow> []
      | Some root \<Rightarrow> if th_test_path th root then latest_child_name th root else [])"

definition wfp_header :: "tool_host \<Rightarrow> str" where
  "wfp_header th =
     (case include_root th of
        None \<Rightarrow> []
      | Some root \<Rightarrow>
          if sdk_version th = [] then []
          else if_there th (th_join th root (sdk_version th @ [92] @ win_path [''um'', ''fwpmu.h''])))"

definition signtool :: "tool_host \<Rightarrow> str" where
  "signtool th =
     (case sdk_root th of
        None \<Rightarrow> []
      | Some root \<Rightarrow>
          if sdk_version th = [] then []
          else if_there th (th_join th root
            (lit ''bin'' @ [92] @ sdk_version th @ [92] @ win_path [''x64'', ''signtool.exe''])))"

definition tool_fields :: "tool_host \<Rightarrow> (str \<times> str) list" where
  "tool_fields th =
     [(lit ''rustc'', command_version th (lit ''rustc'') [lit ''--version'']),
      (lit ''cargo'', command_version th (lit ''cargo'') [lit ''--version'']),
      (lit ''dotnet sdk'', command_version th (lit ''dotnet'') [lit ''--version'']),
      (lit ''visual studio'', vs_path th),
      (lit ''msvc'', msvc_version th),
      (lit ''cl path'', cl_path th),
      (lit ''msbuild path'', msbuild_path th),
      (lit ''windows sdk'', sdk_version th),
      (lit ''signtool path'', signtool th),
      (lit ''wfp header'', wfp_header th)]"

definition build_tool_output :: "tool_host \<Rightarrow> str" where
  "build_tool_output th = concat (map (\<lambda>(name, v). write_field name v @ crlf) (tool_fields th))"

text \<open>A PowerShell that runs the script, on a console with an encoding; everything else as before.\<close>

definition tool_shell :: "(str \<Rightarrow> byte list) \<Rightarrow> ('w \<Rightarrow> tool_host) \<Rightarrow> 'w shell \<Rightarrow> 'w shell" where
  "tool_shell encode th other command envs =
     (if command = build_tool_probe_script
      then (\<lambda>w. (Some \<lparr>po_success = True, po_stdout = encode (build_tool_output (th w)), po_stderr = []\<rparr>, 1, w))
      else other command envs)"

subsection \<open>Reading what the script has printed\<close>

definition blanked :: "str \<times> str \<Rightarrow> str \<times> str" where
  "blanked = (\<lambda>(name, v). (name, if trim v = [] then [] else v))"

lemma build_tool_output_report: "build_tool_output th = report (map blanked (tool_fields th))"
proof -
  have "(\<lambda>(name, v). write_field name v @ crlf) = (\<lambda>kv. field_line kv @ crlf) \<circ> blanked"
    by (rule ext) (auto simp: write_field_def blanked_def)
  then show ?thesis by (simp add: build_tool_output_def report_def)
qed

text \<open>No line break in a value: versions are first lines, the rest are names of files.\<close>

definition one_line :: "tool_host \<Rightarrow> bool" where
  "one_line th \<longleftrightarrow> list_all (\<lambda>(name, v). 10 \<notin> set v) (tool_fields th)"

text \<open>What counts as found.\<close>

definition present :: "str \<Rightarrow> str option" where
  "present v = (if trim v = [] then None else Some (trim v))"

lemma trim_Nil [simp]: "trim [] = []"
  by (simp add: trim_def)

lemma plain_output: "one_line th \<Longrightarrow> list_all plain_field (map blanked (tool_fields th))"
  by (simp add: one_line_def tool_fields_def plain_field_def blanked_def trim_plain is_whitespace_def lit_def)

lemma output_field:
  assumes "one_line th" and "map_of (tool_fields th) name = Some v"
  shows "parse_non_empty_field (build_tool_output th) name = present v"
proof -
  have "map_of (map blanked kvs) name = map_option (\<lambda>v. if trim v = [] then [] else v) (map_of kvs name)" for kvs
    by (induction kvs) (auto simp: blanked_def)
  with assms show ?thesis
    by (simp add: build_tool_output_report parse_non_empty_report [OF plain_output] reported_def present_def)
qed

lemma parse_build_tool_output:
  assumes "one_line th"
  shows "parse_build_tool_probe (build_tool_output th) =
     \<lparr>bt_probe_available = True,
      bt_rustc_version = present (command_version th (lit ''rustc'') [lit ''--version'']),
      bt_cargo_version = present (command_version th (lit ''cargo'') [lit ''--version'']),
      bt_dotnet_sdk_version = present (command_version th (lit ''dotnet'') [lit ''--version'']),
      bt_visual_studio_path = present (vs_path th),
      bt_msvc_version = present (msvc_version th),
      bt_cl_path = present (cl_path th),
      bt_msbuild_path = present (msbuild_path th),
      bt_windows_sdk_version = present (sdk_version th),
      bt_signtool_path = present (signtool th),
      bt_wfp_header_path = present (wfp_header th)\<rparr>"
  unfolding parse_build_tool_probe_def
  by (simp add: output_field [OF assms] tool_fields_def lit_def)

lemma latest_child_name_greatest:
  assumes "latest_child_name th p = name" and "name \<noteq> []"
  shows "th_test_path th p \<and> name \<in> set (th_directories th p) \<and>
     (\<forall>other\<in>set (th_directories th p). th_collate th other \<le> th_collate th name)"
proof -
  let ?s = "sort_key (th_collate th) (th_directories th p)"
  from assms obtain rest where test: "th_test_path th p" and s: "rev ?s = name # rest"
    by (auto simp: latest_child_name_def split: if_splits list.splits)
  then have "?s = rev rest @ [name]" by (metis rev.simps(2) rev_rev_ident)
  moreover have "sorted (map (th_collate th) ?s)" by (rule sorted_sort_key)
  ultimately have "\<forall>other\<in>set ?s. th_collate th other \<le> th_collate th name" and "name \<in> set ?s"
    by (auto simp: sorted_append)
  with test show ?thesis by simp
qed

lemma if_there_Nil: "if_there th p \<noteq> [] \<Longrightarrow> th_test_path th p"
  by (auto simp: if_there_def split: if_splits)

lemma present_Nil [simp]: "present [] = None"
  by (simp add: present_def)

lemma present_not_Nil: "present v \<noteq> None \<Longrightarrow> v \<noteq> []"
  by (auto simp: present_def)

lemma tool_shell_other:
  "tool_shell encode th other (lit ''$PSVersionTable.PSVersion.Major'') envs =
     other (lit ''$PSVersionTable.PSVersion.Major'') envs"
  by (simp add: tool_shell_def build_tool_probe_script_def lit_def)

lemma tool_script_run:
  "\<exists>k'. powershell (tool_shell encode th other) build_tool_probe_script k =
     (Ok (from_utf8_lossy (encode (build_tool_output (th (world k))))), k') \<and> world k' = world k"
  by (simp add: powershell_def powershell_named_def powershell_with_env_named_def run_shell_def call_def
      tool_shell_def emit_def perform_def wrap_def give_def)

lemma run_build_tool_probe_Ok:
  assumes "run_build_tool_probe (tool_shell encode th other) h = (Ok p, h')" and "bt_probe_available p"
  shows "p = parse_build_tool_probe (from_utf8_lossy (encode (build_tool_output (th (world h')))))"
proof -
  obtain b k where "powershell_available (tool_shell encode th other) h = (Ok b :: (bool, probe_error) res, k)"
    and r: "(if \<not> b then give no_build_tool_probe
       else
         perform (wrap (Probe_failed (lit ''query Windows build toolchain''))
           (powershell (tool_shell encode th other) build_tool_probe_script)) (\<lambda>output.
         give (parse_build_tool_probe output))) k = (Ok p, h')"
    using assms(1) by (auto simp: run_build_tool_probe_def perform_eq_Ok)
  have "b"
    using r assms(2) by (cases b) (auto simp: give_def no_build_tool_probe_def)
  moreover obtain k' where "powershell (tool_shell encode th other) build_tool_probe_script k =
     (Ok (from_utf8_lossy (encode (build_tool_output (th (world k))))), k')" "world k' = world k"
    using tool_script_run by blast
  ultimately show ?thesis
    using r by (auto simp: perform_def wrap_def give_def)
qed

subsection \<open>Properties\<close>

text \<open>What the fields of the probe stand for, said without the functions of the script: the first
  line a command prints, the file at a path, and the directory with the greatest name. Names of
  directories are neither blank nor padded and, like all lines and paths, have no line break.\<close>

definition first_line_of :: "tool_host \<Rightarrow> str \<Rightarrow> str option" where
  "first_line_of t command =
     (case th_run t command [lit ''--version''] of Some (first # _) \<Rightarrow> present first | _ \<Rightarrow> None)"

definition file_at :: "tool_host \<Rightarrow> str \<Rightarrow> str option" where
  "file_at t p = (if th_test_path t p then present p else None)"

definition greatest_in :: "tool_host \<Rightarrow> str \<Rightarrow> str option \<Rightarrow> bool" where
  "greatest_in t dir f \<longleftrightarrow>
     (case f of
        None \<Rightarrow> \<not> th_test_path t dir \<or> th_directories t dir = []
      | Some name \<Rightarrow> th_test_path t dir \<and> name \<in> set (th_directories t dir) \<and>
          (\<forall>other\<in>set (th_directories t dir). th_collate t other \<le> th_collate t name))"

definition plain_host :: "tool_host \<Rightarrow> bool" where
  "plain_host t \<longleftrightarrow>
     (\<forall>dir. \<forall>name\<in>set (th_directories t dir). name \<noteq> [] \<and> trim name = name \<and> 10 \<notin> set name) \<and>
     (\<forall>command args ls. th_run t command args = Some ls \<longrightarrow> list_all (\<lambda>l. 10 \<notin> set l) ls) \<and>
     (\<forall>p out. th_vswhere t p = Some out \<longrightarrow> 10 \<notin> set out) \<and>
     (\<forall>pf. th_program_files t = Some pf \<longrightarrow> 10 \<notin> set pf) \<and>
     (\<forall>p c. 10 \<notin> set p \<longrightarrow> 10 \<notin> set c \<longrightarrow> 10 \<notin> set (th_join t p c))"

lemma trim_subset: "set (trim s) \<subseteq> set s"
  unfolding trim_def by (auto dest!: set_dropWhileD)

lemma trim_trim [simp]: "trim (trim s) = trim s"
proof (rule trim_plain)
  let ?t = "dropWhile is_whitespace s"
  have last: "\<not> is_whitespace (last (trim s))" if "trim s \<noteq> []"
    using that hd_dropWhile [of is_whitespace "rev ?t"] by (simp add: trim_def last_rev)
  have "\<exists>u. ?t = trim s @ u" by (metis trim_def rev_append rev_rev_ident takeWhile_dropWhile_id)
  then obtain u where "?t = trim s @ u" by blast
  then have "\<not> is_whitespace (hd (trim s))" if "trim s \<noteq> []"
    using that hd_dropWhile [of is_whitespace s] by (cases "trim s") auto
  with last show "trim s = [] \<or> \<not> is_whitespace (hd (trim s)) \<and> \<not> is_whitespace (last (trim s))" by blast
qed

lemma present_trim [simp]: "present (trim v) = present v"
  by (simp add: present_def)

lemma present_command_version: "present (command_version t command [lit ''--version'']) = first_line_of t command"
  by (auto simp: command_version_def first_line_of_def split: option.split list.split)

lemma present_if_there: "present (if_there t p) = file_at t p"
  by (simp add: if_there_def file_at_def)

lemma latest_child_name_plain:
  assumes "plain_host t"
  shows "greatest_in t p (present (latest_child_name t p))" and "10 \<notin> set (latest_child_name t p)"
    and "present (latest_child_name t p) = (if latest_child_name t p = [] then None else Some (latest_child_name t p))"
proof -
  define v where "v = latest_child_name t p"
  have names: "\<forall>name\<in>set (th_directories t p). name \<noteq> [] \<and> trim name = name \<and> 10 \<notin> set name"
    using assms unfolding plain_host_def by blast
  have some: "th_test_path t p \<and> v \<in> set (th_directories t p) \<and>
     (\<forall>other\<in>set (th_directories t p). th_collate t other \<le> th_collate t v)" if "v \<noteq> []"
    using latest_child_name_greatest [OF v_def [symmetric] that] .
  have none: "\<not> th_test_path t p \<or> th_directories t p = []" if "v = []"
  proof (rule ccontr)
    assume "\<not> ?thesis"
    then obtain x xs where x: "rev (sort_key (th_collate t) (th_directories t p)) = x # xs" and "th_test_path t p"
      by (cases "rev (sort_key (th_collate t) (th_directories t p))")
        (metis set_empty set_rev set_sort, blast)
    then have "v = x" by (simp add: v_def latest_child_name_def)
    moreover have "x \<in> set (th_directories t p)"
      using x by (metis list.set_intros(1) set_rev set_sort)
    ultimately show False using names that by blast
  qed
  show p: "present (latest_child_name t p) = (if latest_child_name t p = [] then None else Some (latest_child_name t p))"
    using some names unfolding v_def [symmetric] by (auto simp: present_def)
  show "greatest_in t p (present (latest_child_name t p))"
    using some none unfolding p unfolding v_def [symmetric] by (simp add: greatest_in_def)
  show "10 \<notin> set (latest_child_name t p)"
    using some names unfolding v_def [symmetric] by (cases "v = []") auto
qed

lemma plain_host_one_line:
  assumes "plain_host t"
  shows "one_line t"
proof -
  have join: "10 \<notin> set q \<Longrightarrow> 10 \<notin> set c \<Longrightarrow> 10 \<notin> set (th_join t q c)" for q c
    using assms unfolding plain_host_def by blast
  have trimmed: "10 \<notin> set v \<Longrightarrow> 10 \<notin> set (trim v)" for v using trim_subset [of v] by blast
  have there: "10 \<notin> set q \<Longrightarrow> 10 \<notin> set (if_there t q)" for q by (simp add: if_there_def)
  have latest: "10 \<notin> set (latest_child_name t q)" for q by (rule latest_child_name_plain [OF assms])
  have command: "10 \<notin> set (command_version t c args)" for c args
  proof -
    have "list_all (\<lambda>l. 10 \<notin> set l) ls" if "th_run t c args = Some ls" for ls
      using assms that unfolding plain_host_def by blast
    moreover have "10 \<in> set (trim v) \<Longrightarrow> 10 \<in> set v" for v using trim_subset [of v] by blast
    ultimately show ?thesis
      by (cases "th_run t c args"; cases "the (th_run t c args)") (auto simp: command_version_def)
  qed
  have pf: "10 \<notin> set pf" if "th_program_files t = Some pf" for pf
    using assms that unfolding plain_host_def by blast
  have vs: "10 \<notin> set (vs_path t)"
  proof -
    have "10 \<notin> set out" if "th_vswhere t q = Some out" for q out
      using assms that unfolding plain_host_def by blast
    moreover have "10 \<in> set (trim v) \<Longrightarrow> 10 \<in> set v" for v using trim_subset [of v] by blast
    moreover have "vs_path t = [] \<or> (\<exists>q out. th_vswhere t q = Some out \<and> vs_path t = trim out)"
      by (auto simp: vs_path_def Let_def simp del: win_path.simps split: option.split)
    ultimately show ?thesis by force
  qed
  have root: "10 \<notin> set (msvc_root t)" using vs by (simp add: msvc_root_def join lit_def)
  have version: "10 \<notin> set (msvc_version t)" using latest by (simp add: msvc_version_def)
  have sdk: "10 \<notin> set (sdk_version t)" using latest by (simp add: sdk_version_def split: option.split)
  have roots: "10 \<notin> set q" if "sdk_root t = Some q \<or> include_root t = Some q" for q
  proof -
    from that obtain f where "th_program_files t = Some f" and
      "q = th_join t f (win_path [''Windows Kits'', ''10'']) \<or>
       q = th_join t (th_join t f (win_path [''Windows Kits'', ''10''])) (lit ''Include'')"
      by (auto simp: sdk_root_def include_root_def)
    moreover have "10 \<notin> set (win_path [''Windows Kits'', ''10''])" "10 \<notin> set (lit ''Include'')"
      by (simp_all add: lit_def)
    ultimately show ?thesis using pf join by blast
  qed
  have "10 \<notin> set (cl_path t)" "10 \<notin> set (msbuild_path t)"
    using root version vs by (simp_all add: cl_path_def msbuild_path_def there join lit_def)
  moreover have "10 \<notin> set (signtool t)" "10 \<notin> set (wfp_header t)"
    by (cases "sdk_root t"; simp add: signtool_def there join roots sdk lit_def)
      (cases "include_root t"; simp add: wfp_header_def there join roots sdk lit_def)
  ultimately show ?thesis using command vs version sdk by (simp add: one_line_def tool_fields_def)
qed

lemma vs_path_trimmed: "present (vs_path t) = (if vs_path t = [] then None else Some (vs_path t))"
proof -
  have "trim (vs_path t) = vs_path t" by (simp add: vs_path_def Let_def split: option.split)
  then show ?thesis by (simp add: present_def)
qed

text \<open>C21: What the build tool probe reports, script, console and parser together. If there is a
  PowerShell and its console writes the report as it is, then in the world the script ran in: the
  version of rustc, cargo and dotnet is the first line each prints for --version; the Visual Studio
  is where vswhere, if it is installed, says the latest is; the toolset is the directory with the
  greatest name in VC, Tools, MSVC there, and cl.exe and MSBuild.exe are those of that toolset and
  that Visual Studio; the SDK is the directory with the greatest name in Include of Windows Kits
  10, and fwpmu.h and signtool.exe are those of that SDK; a file is reported exactly if it is
  there, and what is missing above is missing below. The greatest name need not be a version.\<close>

theorem build_tools_found:
  assumes "run_build_tool_probe (tool_shell encode th other) h = (Ok p, h')" and "bt_probe_available p"
    and "t = th (world h')" and "plain_host t"
    and "from_utf8_lossy (encode (build_tool_output t)) = build_tool_output t"
  shows "bt_rustc_version p = first_line_of t (lit ''rustc'') \<and>
    bt_cargo_version p = first_line_of t (lit ''cargo'') \<and>
    bt_dotnet_sdk_version p = first_line_of t (lit ''dotnet'') \<and>
    (case th_program_files t of
       None \<Rightarrow> bt_visual_studio_path p = None \<and> bt_windows_sdk_version p = None \<and>
         bt_wfp_header_path p = None \<and> bt_signtool_path p = None
     | Some pf \<Rightarrow>
         let vswhere = th_join t pf (win_path [''Microsoft Visual Studio'', ''Installer'', ''vswhere.exe'']);
             kits = th_join t pf (win_path [''Windows Kits'', ''10'']);
             include = th_join t kits (lit ''Include'') in
         bt_visual_studio_path p =
           (if th_test_path t vswhere then Option.bind (th_vswhere t vswhere) present else None) \<and>
         greatest_in t include (bt_windows_sdk_version p) \<and>
         bt_wfp_header_path p = Option.bind (bt_windows_sdk_version p) (\<lambda>v.
           file_at t (th_join t include (v @ [92] @ win_path [''um'', ''fwpmu.h'']))) \<and>
         bt_signtool_path p = Option.bind (bt_windows_sdk_version p) (\<lambda>v.
           file_at t (th_join t kits (lit ''bin'' @ [92] @ v @ [92] @ win_path [''x64'', ''signtool.exe''])))) \<and>
    (case bt_visual_studio_path p of
       None \<Rightarrow> bt_msvc_version p = None \<and> bt_cl_path p = None \<and> bt_msbuild_path p = None
     | Some vs \<Rightarrow>
         let tools = th_join t vs (win_path [''VC'', ''Tools'', ''MSVC'']) in
         greatest_in t tools (bt_msvc_version p) \<and>
         bt_cl_path p = Option.bind (bt_msvc_version p) (\<lambda>v.
           file_at t (th_join t tools (v @ [92] @ win_path [''bin'', ''Hostx64'', ''x64'', ''cl.exe'']))) \<and>
         bt_msbuild_path p =
           file_at t (th_join t vs (win_path [''MSBuild'', ''Current'', ''Bin'', ''amd64'', ''MSBuild.exe''])))"
proof -
  have p: "bt_rustc_version p = first_line_of t (lit ''rustc'')" "bt_cargo_version p = first_line_of t (lit ''cargo'')"
    "bt_dotnet_sdk_version p = first_line_of t (lit ''dotnet'')" "bt_visual_studio_path p = present (vs_path t)"
    "bt_msvc_version p = present (msvc_version t)" "bt_cl_path p = present (cl_path t)"
    "bt_msbuild_path p = present (msbuild_path t)" "bt_windows_sdk_version p = present (sdk_version t)"
    "bt_signtool_path p = present (signtool t)" "bt_wfp_header_path p = present (wfp_header t)"
    using run_build_tool_probe_Ok [OF assms(1,2)] parse_build_tool_output [OF plain_host_one_line [OF assms(4)]]
      assms(3,5) by (simp_all add: present_command_version)
  note latest = latest_child_name_plain [OF assms(4)]
  have sdk: "greatest_in t inc (present (sdk_version t)) \<and>
      present (wfp_header t) = Option.bind (present (sdk_version t)) (\<lambda>v.
        file_at t (th_join t inc (v @ [92] @ win_path [''um'', ''fwpmu.h'']))) \<and>
      present (signtool t) = Option.bind (present (sdk_version t)) (\<lambda>v.
        file_at t (th_join t kits (lit ''bin'' @ [92] @ v @ [92] @ win_path [''x64'', ''signtool.exe''])))"
    if "sdk_root t = Some kits" "include_root t = Some inc" for kits inc
  proof -
    have "sdk_version t = latest_child_name t inc"
      using that by (simp add: sdk_version_def latest_child_name_def)
    with latest [of inc] that show ?thesis
      by (simp add: wfp_header_def signtool_def present_if_there del: win_path.simps)
  qed
  have vs: "greatest_in t (msvc_root t) (present (msvc_version t)) \<and>
      present (cl_path t) = Option.bind (present (msvc_version t)) (\<lambda>v.
        file_at t (th_join t (msvc_root t) (v @ [92] @ win_path [''bin'', ''Hostx64'', ''x64'', ''cl.exe'']))) \<and>
      present (msbuild_path t) =
        file_at t (th_join t (vs_path t) (win_path [''MSBuild'', ''Current'', ''Bin'', ''amd64'', ''MSBuild.exe'']))"
    if "vs_path t \<noteq> []"
  proof -
    have "msvc_version t = latest_child_name t (msvc_root t)" using that by (simp add: msvc_version_def)
    with latest [of "msvc_root t"] that show ?thesis
      by (simp add: cl_path_def msbuild_path_def present_if_there del: win_path.simps)
  qed
  have none: "present (msvc_version t) = None" "present (cl_path t) = None" "present (msbuild_path t) = None"
    if "vs_path t = []"
    using that by (simp_all add: msvc_version_def cl_path_def msbuild_path_def)
  have roots: "case th_program_files t of
       None \<Rightarrow> present (vs_path t) = None \<and> sdk_root t = None \<and> include_root t = None
     | Some pf \<Rightarrow>
         (let vswhere = th_join t pf (win_path [''Microsoft Visual Studio'', ''Installer'', ''vswhere.exe'']) in
          present (vs_path t) = (if th_test_path t vswhere then Option.bind (th_vswhere t vswhere) present else None)) \<and>
         sdk_root t = Some (th_join t pf (win_path [''Windows Kits'', ''10''])) \<and>
         include_root t = Some (th_join t (th_join t pf (win_path [''Windows Kits'', ''10''])) (lit ''Include''))"
    by (simp add: vs_path_def sdk_root_def include_root_def Let_def del: win_path.simps split: option.split)
  have fields: "case present (vs_path t) of
       None \<Rightarrow> present (msvc_version t) = None \<and> present (cl_path t) = None \<and> present (msbuild_path t) = None
     | Some v \<Rightarrow> v = vs_path t \<and> vs_path t \<noteq> []"
    using none by (simp add: vs_path_trimmed)
  show ?thesis
  proof (cases "th_program_files t")
    case None
    with roots have "present (vs_path t) = None" "sdk_root t = None" "include_root t = None" by simp_all
    with None p fields show ?thesis by (simp add: sdk_version_def wfp_header_def signtool_def)
  next
    case (Some pf)
    let ?kits = "th_join t pf (win_path [''Windows Kits'', ''10''])"
    from Some roots have r: "let vswhere = th_join t pf (win_path [''Microsoft Visual Studio'', ''Installer'', ''vswhere.exe'']) in
          present (vs_path t) = (if th_test_path t vswhere then Option.bind (th_vswhere t vswhere) present else None)"
      "sdk_root t = Some ?kits" "include_root t = Some (th_join t ?kits (lit ''Include''))"
      by simp_all
    have v: "case present (vs_path t) of
       None \<Rightarrow> present (msvc_version t) = None \<and> present (cl_path t) = None \<and> present (msbuild_path t) = None
     | Some w \<Rightarrow>
         let tools = th_join t w (win_path [''VC'', ''Tools'', ''MSVC'']) in
         greatest_in t tools (present (msvc_version t)) \<and>
         present (cl_path t) = Option.bind (present (msvc_version t)) (\<lambda>v.
           file_at t (th_join t tools (v @ [92] @ win_path [''bin'', ''Hostx64'', ''x64'', ''cl.exe'']))) \<and>
         present (msbuild_path t) =
           file_at t (th_join t w (win_path [''MSBuild'', ''Current'', ''Bin'', ''amd64'', ''MSBuild.exe'']))"
    proof (cases "vs_path t = []")
      case True
      with none show ?thesis by (simp add: present_def trim_def)
    next
      case False
      with vs [OF this] show ?thesis
        by (simp only: vs_path_trimmed Let_def msvc_root_def option.case simp_thms if_False)
    qed
    show ?thesis
      unfolding p Some option.case using r(1) sdk [OF r(2,3)] v by (simp only: Let_def simp_thms)
  qed
qed

text \<open>A host on which only cargo is installed, printing ASCII.\<close>

definition sample_tool_host :: tool_host where
  "sample_tool_host =
     \<lparr>th_run = (\<lambda>c args. if c = lit ''cargo'' then Some [lit ''cargo 1.95.0 ''] else None),
      th_program_files = Some (lit ''P''), th_join = (\<lambda>p c. p @ [92] @ c), th_test_path = (\<lambda>p. False),
      th_vswhere = (\<lambda>p. None), th_directories = (\<lambda>p. []), th_collate = id\<rparr>"

lemma sample_tool_fields:
  "command_version sample_tool_host (lit ''rustc'') args = []"
  "command_version sample_tool_host (lit ''cargo'') args = lit ''cargo 1.95.0''"
  "command_version sample_tool_host (lit ''dotnet'') args = []"
  "vs_path sample_tool_host = []" "msvc_version sample_tool_host = []" "cl_path sample_tool_host = []"
  "msbuild_path sample_tool_host = []" "sdk_version sample_tool_host = []" "signtool sample_tool_host = []"
  "wfp_header sample_tool_host = []"
  by (simp_all add: command_version_def sample_tool_host_def vs_path_def msvc_version_def cl_path_def
      msbuild_path_def sdk_version_def signtool_def wfp_header_def include_root_def sdk_root_def lit_def
      trim_def is_whitespace_def Let_def)

definition sample_tool_shell :: "tool_host \<Rightarrow> 'w shell" where
  "sample_tool_shell th = tool_shell (map word_of_nat) (\<lambda>w. th)
     (\<lambda>c envs w. (Some \<lparr>po_success = True, po_stdout = [], po_stderr = []\<rparr>, 1, w))"

lemma sample_tool_run:
  "\<exists>p k'. run_build_tool_probe (sample_tool_shell th) k = (Ok p, k') \<and> bt_probe_available p"
proof -
  let ?k = "k\<lparr>clock := clock k + 1\<rparr>"
  have "powershell_available (sample_tool_shell th) k = (Ok True :: (bool, probe_error) res, ?k)"
    by (simp add: sample_tool_shell_def powershell_available_def run_shell_def tool_shell_other caught_def call_def give_def)
  moreover obtain t k' where "powershell (sample_tool_shell th) build_tool_probe_script ?k = (Ok t, k')"
    unfolding sample_tool_shell_def using tool_script_run by blast
  ultimately show ?thesis
    by (simp add: run_build_tool_probe_def perform_def wrap_def give_def parse_build_tool_probe_def)
qed

text \<open>C22: The verdict on the driver SDK is sound for the files: it is positive only if the compiler
  of the last MSVC version in the order of names, MSBuild, and the signing tool and the WFP header
  of one and the same SDK version, the last name in the include directory, were all found.\<close>

theorem driver_sdk_ready_sound:
  assumes "one_line th" and "wfp_driver_sdk_ready (parse_build_tool_probe (build_tool_output th)) = Some True"
  shows "\<exists>sdk inc. sdk_root th = Some sdk \<and> inc = th_join th sdk (lit ''Include'') \<and>
     sdk_version th \<in> set (th_directories th inc) \<and>
     (\<forall>other\<in>set (th_directories th inc). th_collate th other \<le> th_collate th (sdk_version th)) \<and>
     th_test_path th (th_join th inc (sdk_version th @ [92] @ win_path [''um'', ''fwpmu.h''])) \<and>
     th_test_path th (th_join th sdk (lit ''bin'' @ [92] @ sdk_version th @ [92] @ win_path [''x64'', ''signtool.exe''])) \<and>
     msvc_version th \<in> set (th_directories th (msvc_root th)) \<and>
     (\<forall>other\<in>set (th_directories th (msvc_root th)). th_collate th other \<le> th_collate th (msvc_version th)) \<and>
     th_test_path th (th_join th (msvc_root th)
       (msvc_version th @ [92] @ win_path [''bin'', ''Hostx64'', ''x64'', ''cl.exe''])) \<and>
     th_test_path th (th_join th (vs_path th) (win_path [''MSBuild'', ''Current'', ''Bin'', ''amd64'', ''MSBuild.exe'']))"
proof -
  have found: "cl_path th \<noteq> []" "msbuild_path th \<noteq> []" "sdk_version th \<noteq> []" "signtool th \<noteq> []" "wfp_header th \<noteq> []"
    using assms(2) unfolding parse_build_tool_output [OF assms(1)] wfp_driver_sdk_ready_def
    by (auto dest: present_not_Nil)
  from found(4,5) obtain sdk where sdk: "sdk_root th = Some sdk"
    by (auto simp: signtool_def split: option.splits)
  let ?inc = "th_join th sdk (lit ''Include'')"
  have inc: "include_root th = Some ?inc" using sdk by (simp add: include_root_def)
  have "latest_child_name th ?inc = sdk_version th"
    using found(3) inc by (auto simp: sdk_version_def split: if_splits)
  note version = latest_child_name_greatest [OF this found(3)]
  have msvc: "msvc_version th \<noteq> []" using found(1) by (auto simp: cl_path_def)
  then have "latest_child_name th (msvc_root th) = msvc_version th"
    by (auto simp: msvc_version_def split: if_splits)
  note toolset = latest_child_name_greatest [OF this msvc]
  have "if_there th (th_join th ?inc (sdk_version th @ [92] @ win_path [''um'', ''fwpmu.h''])) \<noteq> []"
    "if_there th (th_join th sdk (lit ''bin'' @ [92] @ sdk_version th @ [92] @ win_path [''x64'', ''signtool.exe''])) \<noteq> []"
    using found(3,4,5) inc sdk by (simp_all add: wfp_header_def signtool_def del: win_path.simps)
  moreover have "if_there th (th_join th (msvc_root th)
       (msvc_version th @ [92] @ win_path [''bin'', ''Hostx64'', ''x64'', ''cl.exe''])) \<noteq> []"
    "if_there th (th_join th (vs_path th) (win_path [''MSBuild'', ''Current'', ''Bin'', ''amd64'', ''MSBuild.exe''])) \<noteq> []"
    using found(1,2) msvc by (auto simp: cl_path_def msbuild_path_def simp del: win_path.simps split: if_splits)
  ultimately show ?thesis
    using sdk version toolset by (auto dest!: if_there_Nil simp del: win_path.simps)
qed

text \<open>A host that has everything, and the same host with the directory \<open>wdf\<close> that the driver kit
  puts beside the versions of the SDK.\<close>

definition full_tool_host :: "str list \<Rightarrow> tool_host" where
  "full_tool_host includes = sample_tool_host
     \<lparr>th_test_path := (\<lambda>p. \<not> str_contains p (lit ''wdf'')), th_vswhere := (\<lambda>p. Some (lit ''V'')),
      th_directories := (\<lambda>p. if str_contains p (lit ''Include'') then includes else [lit ''14.44'', lit ''14.29''])\<rparr>"


definition sample_includes :: "str list" where
  "sample_includes = [lit ''10.0.22621.0'', lit ''10.0.26100.0'']"

lemma full_tool_host_found:
  "th_join (full_tool_host includes) p c = p @ [92] @ c"
  "if_there (full_tool_host includes) p = (if str_contains p (lit ''wdf'') then [] else p)"
  by (simp_all add: full_tool_host_def sample_tool_host_def if_there_def)

lemma full_tool_host_tests:
  "th_test_path (full_tool_host includes) p \<longleftrightarrow> \<not> str_contains p (lit ''wdf'')"
  "th_directories (full_tool_host includes) p =
     (if str_contains p (lit ''Include'') then includes else [lit ''14.44'', lit ''14.29''])"
  "th_collate (full_tool_host includes) = id" "th_program_files (full_tool_host includes) = Some (lit ''P'')"
  "th_vswhere (full_tool_host includes) p = Some (lit ''V'')"
  by (simp_all add: full_tool_host_def sample_tool_host_def)

lemma full_tool_host_roots:
  "vs_path (full_tool_host includes) = lit ''V''"
  "sdk_root (full_tool_host includes) = Some (win_path [''P'', ''Windows Kits'', ''10''])"
  "include_root (full_tool_host includes) = Some (win_path [''P'', ''Windows Kits'', ''10'', ''Include''])"
  unfolding vs_path_def sdk_root_def include_root_def full_tool_host_found full_tool_host_tests
  by (simp_all add: lit_def starts_with_def trim_plain is_whitespace_def Let_def)

lemma full_tool_host_versions:
  "msvc_version (full_tool_host includes) = lit ''14.44''"
  "sdk_version (full_tool_host sample_includes) = lit ''10.0.26100.0''"
  "sdk_version (full_tool_host (sample_includes @ [lit ''wdf''])) = lit ''wdf''"
  unfolding msvc_version_def sdk_version_def msvc_root_def latest_child_name_def full_tool_host_found
    full_tool_host_tests full_tool_host_roots sample_includes_def
  by (simp_all add: lit_def starts_with_def)

lemma full_tool_host_commands:
  "command_version (full_tool_host includes) c args = command_version sample_tool_host c args"
  by (simp add: command_version_def full_tool_host_def)

lemmas full_tool_host_facts =
  cl_path_def msbuild_path_def signtool_def wfp_header_def msvc_root_def full_tool_host_found full_tool_host_roots
  full_tool_host_versions full_tool_host_commands

lemma full_tool_host_lines:
  "one_line (full_tool_host sample_includes)"
  "one_line (full_tool_host (sample_includes @ [lit ''wdf'']))"
  unfolding one_line_def tool_fields_def full_tool_host_facts sample_tool_fields
  by (simp_all add: lit_def starts_with_def)

lemma full_tool_host_files:
  "present (cl_path (full_tool_host sample_includes)) \<noteq> None"
  "present (msbuild_path (full_tool_host sample_includes)) \<noteq> None"
  "present (sdk_version (full_tool_host sample_includes)) \<noteq> None"
  "present (signtool (full_tool_host sample_includes)) \<noteq> None"
  "present (wfp_header (full_tool_host sample_includes)) \<noteq> None"
  "present (wfp_header (full_tool_host (sample_includes @ [lit ''wdf'']))) = None"
  unfolding full_tool_host_facts by (simp_all add: present_def trim_plain is_whitespace_def lit_def starts_with_def)

theorem driver_sdk_ready_sound_witness:
  "\<exists>sdk. sdk_root (full_tool_host sample_includes) = Some sdk \<and>
     th_test_path (full_tool_host sample_includes)
       (th_join (full_tool_host sample_includes) (th_join (full_tool_host sample_includes) sdk (lit ''Include''))
         (sdk_version (full_tool_host sample_includes) @ [92] @ win_path [''um'', ''fwpmu.h'']))"
proof -
  have "wfp_driver_sdk_ready (parse_build_tool_probe (build_tool_output (full_tool_host sample_includes))) = Some True"
    using full_tool_host_files(1-5)
    by (simp add: parse_build_tool_output [OF full_tool_host_lines(1)] wfp_driver_sdk_ready_def)
  from driver_sdk_ready_sound [OF full_tool_host_lines(1) this] show ?thesis by blast
qed

lemma full_tool_host_plain: "plain_host (full_tool_host sample_includes)"
proof -
  have "name \<in> {lit ''10.0.22621.0'', lit ''10.0.26100.0'', lit ''14.44'', lit ''14.29''}"
    if "name \<in> set (th_directories (full_tool_host sample_includes) dir)" for name dir
    using that by (auto simp: full_tool_host_tests sample_includes_def split: if_splits)
  moreover have "name \<noteq> [] \<and> trim name = name \<and> 10 \<notin> set name"
    if "name \<in> {lit ''10.0.22621.0'', lit ''10.0.26100.0'', lit ''14.44'', lit ''14.29''}" for name
    using that by (auto simp: lit_def trim_plain is_whitespace_def)
  ultimately show ?thesis
    unfolding plain_host_def full_tool_host_found full_tool_host_tests(3-)
    by (auto simp: full_tool_host_def sample_tool_host_def lit_def split: if_splits)
qed

theorem build_tools_found_witness:
  "\<exists>p h. run_build_tool_probe (sample_tool_shell (full_tool_host sample_includes)) (host_in ()) = (Ok p, h) \<and>
     bt_rustc_version p = None \<and>
     bt_msbuild_path p = Some (win_path [''V'', ''MSBuild'', ''Current'', ''Bin'', ''amd64'', ''MSBuild.exe'']) \<and>
     bt_cl_path p = Some (win_path [''V'', ''VC'', ''Tools'', ''MSVC'', ''14.44'', ''bin'', ''Hostx64'', ''x64'', ''cl.exe''])"
proof -
  let ?t = "full_tool_host sample_includes"
  obtain p h where r: "run_build_tool_probe (sample_tool_shell ?t) (host_in ()) = (Ok p, h)" "bt_probe_available p"
    using sample_tool_run by blast
  have "list_all (\<lambda>c. c < 128) (build_tool_output ?t)"
    unfolding build_tool_output_def tool_fields_def full_tool_host_facts sample_tool_fields
    by (simp add: write_field_def field_line_def crlf_def trim_plain is_whitespace_def lit_def starts_with_def)
  then have "from_utf8_lossy (map word_of_nat (build_tool_output ?t)) = build_tool_output ?t" by (rule utf8_ascii)
  note found = build_tools_found [OF r [unfolded sample_tool_shell_def] refl full_tool_host_plain this]
  have v: "bt_visual_studio_path p = present (lit ''V'')" "bt_rustc_version p = None"
    using found by (simp_all add: full_tool_host_tests full_tool_host_found Let_def first_line_of_def
        full_tool_host_def sample_tool_host_def) (simp_all add: lit_def starts_with_def)
  then have V: "bt_visual_studio_path p = Some (lit ''V'')"
    by (simp add: present_def trim_plain is_whitespace_def lit_def)
  let ?tools = "win_path [''V'', ''VC'', ''Tools'', ''MSVC'']"
  have c: "greatest_in ?t ?tools (bt_msvc_version p)"
    "bt_cl_path p = Option.bind (bt_msvc_version p) (\<lambda>v.
       file_at ?t (?tools @ [92] @ v @ [92] @ win_path [''bin'', ''Hostx64'', ''x64'', ''cl.exe'']))"
    "bt_msbuild_path p = file_at ?t (win_path [''V'', ''MSBuild'', ''Current'', ''Bin'', ''amd64'', ''MSBuild.exe''])"
    using found by (simp_all add: V full_tool_host_found Let_def)
  have d: "th_test_path ?t ?tools" "th_directories ?t ?tools = [lit ''14.44'', lit ''14.29'']"
    by (simp_all add: full_tool_host_tests lit_def starts_with_def)
  then obtain name where n: "bt_msvc_version p = Some name" "name \<in> {lit ''14.44'', lit ''14.29''}" "lit ''14.44'' \<le> name"
    using c(1) by (cases "bt_msvc_version p") (auto simp: greatest_in_def full_tool_host_tests)
  have "\<not> lit ''14.44'' \<le> lit ''14.29''" by (simp add: lit_def)
  with n have "bt_msvc_version p = Some (lit ''14.44'')" by auto
  with c(2,3) r v(2) show ?thesis
    by (simp add: file_at_def full_tool_host_tests present_def trim_plain is_whitespace_def lit_def starts_with_def)
qed

text \<open>With the driver kit installed the greatest name in the include directory is not a version: the
  SDK is there with its header and its tools, and the verdict is that it is not.\<close>

theorem wdf_hides_the_sdk:
  "th_test_path (full_tool_host (sample_includes @ [lit ''wdf'']))
     (win_path [''P'', ''Windows Kits'', ''10'', ''Include'', ''10.0.26100.0'', ''um'', ''fwpmu.h'']) \<and>
   wfp_driver_sdk_ready (parse_build_tool_probe (build_tool_output
     (full_tool_host (sample_includes @ [lit ''wdf''])))) = Some False"
proof -
  have "th_test_path (full_tool_host (sample_includes @ [lit ''wdf'']))
     (win_path [''P'', ''Windows Kits'', ''10'', ''Include'', ''10.0.26100.0'', ''um'', ''fwpmu.h''])" by code_simp
  then show ?thesis
    using full_tool_host_files(6)
    by (simp add: parse_build_tool_output [OF full_tool_host_lines(2)] wfp_driver_sdk_ready_def)
qed

end
