(* ===== verification/Flow.thy ===== *)
theory Flow
  imports Rust_Net "HOL-Library.AList"
begin

section \<open>The flow table (src/src/flow.rs)\<close>

text \<open>
  The bounded table from a client's protocol, address and port to the original destination of
  its redirected packets. A \<open>HashMap\<close> is an association list with distinct keys; its order
  stands for the iteration order, which Rust leaves unspecified, so every statement holds for
  any order of the entries. The clock is an argument: an \<open>Instant\<close> is a number of
  nanoseconds and \<open>duration_since\<close> saturates at 0, as \<^typ>\<open>nat\<close> subtraction does. The
  mutex makes each operation one step; the \<open>expect\<close> on a poisoned lock is not modelled,
  since no operation panics while it holds the lock.

  The lemmas show that the table stays within its bound and has distinct keys, what each
  operation does to the partial map it stands for, and that an insertion refines the abstract
  one in which the evicted flow is any that was seen least recently. The locale
  \<open>flow_store\<close> is what the redirector and the relay rely on.
\<close>

type_synonym instant = nat

datatype transport_protocol = Tcp | Udp

record flow_key =
  fk_protocol :: transport_protocol
  fk_client_ip :: ip_addr
  fk_client_port :: u16

record flow_value =
  original_dst_ip :: ip_addr
  original_dst_port :: u16
  redirected_dst_ip :: ip_addr
  redirected_dst_port :: u16
  created_at :: instant
  last_seen :: instant

definition flow_value_new :: "ip_addr \<Rightarrow> u16 \<Rightarrow> ip_addr \<Rightarrow> u16 \<Rightarrow> instant \<Rightarrow> flow_value" where
  "flow_value_new odst oport rdst rport now =
     \<lparr>original_dst_ip = odst, original_dst_port = oport,
      redirected_dst_ip = rdst, redirected_dst_port = rport,
      created_at = now, last_seen = now\<rparr>"

record flow_table =
  ft_capacity :: nat
  ft_flows :: "(flow_key \<times> flow_value) list"

definition ft_new :: "nat \<Rightarrow> flow_table" where
  "ft_new n = \<lparr>ft_capacity = n, ft_flows = []\<rparr>"

text \<open>\<open>Iterator::min_by_key\<close>: the first of the least elements.\<close>

fun min_by_key :: "('a \<Rightarrow> 'b :: linorder) \<Rightarrow> 'a list \<Rightarrow> 'a option" where
  "min_by_key f [] = None"
| "min_by_key f (x # xs) =
     (case min_by_key f xs of
        None \<Rightarrow> Some x
      | Some y \<Rightarrow> if f x \<le> f y then Some x else Some y)"

definition oldest_key :: "flow_table \<Rightarrow> flow_key option" where
  "oldest_key t = map_option fst (min_by_key (\<lambda>(k, flow). last_seen flow) (ft_flows t))"

definition ft_insert :: "flow_table \<Rightarrow> flow_key \<Rightarrow> flow_value \<Rightarrow> flow_table" where
  "ft_insert t k v =
     (let kept =
        (if ft_capacity t \<le> length (ft_flows t)
         then (case oldest_key t of
                 Some old \<Rightarrow> AList.delete old (ft_flows t)
               | None \<Rightarrow> ft_flows t)
         else ft_flows t)
      in t\<lparr>ft_flows := AList.update k v kept\<rparr>)"

definition ft_get :: "instant \<Rightarrow> flow_table \<Rightarrow> flow_key \<Rightarrow> flow_value option \<times> flow_table" where
  "ft_get now t k =
     (case map_of (ft_flows t) k of
        None \<Rightarrow> (None, t)
      | Some flow \<Rightarrow>
          let flow' = flow\<lparr>last_seen := now\<rparr>
          in (Some flow', t\<lparr>ft_flows := AList.update k flow' (ft_flows t)\<rparr>))"

definition ft_remove :: "flow_table \<Rightarrow> flow_key \<Rightarrow> flow_value option \<times> flow_table" where
  "ft_remove t k = (map_of (ft_flows t) k, t\<lparr>ft_flows := AList.delete k (ft_flows t)\<rparr>)"

definition ft_prune_older_than :: "instant \<Rightarrow> flow_table \<Rightarrow> nat \<Rightarrow> nat \<times> flow_table" where
  "ft_prune_older_than now t max_idle =
     (let before = length (ft_flows t);
          kept = filter (\<lambda>(_, flow). now - last_seen flow \<le> max_idle) (ft_flows t)
      in (before - length kept, t\<lparr>ft_flows := kept\<rparr>))"

definition ft_len :: "flow_table \<Rightarrow> nat" where
  "ft_len t = length (ft_flows t)"

definition ft_is_empty :: "flow_table \<Rightarrow> bool" where
  "ft_is_empty t \<longleftrightarrow> ft_len t = 0"

subsection \<open>The map a table stands for, and its invariant\<close>

definition ft_lookup :: "flow_table \<Rightarrow> flow_key \<rightharpoonup> flow_value" where
  "ft_lookup t = map_of (ft_flows t)"

definition ft_wf :: "flow_table \<Rightarrow> bool" where
  "ft_wf t \<longleftrightarrow> distinct (map fst (ft_flows t)) \<and> ft_len t \<le> max 1 (ft_capacity t)"

definition touch :: "instant \<Rightarrow> flow_value \<Rightarrow> flow_value" where
  "touch now f = f\<lparr>last_seen := now\<rparr>"

lemma ft_wf_new: "ft_wf (ft_new n)"
  by (simp add: ft_wf_def ft_new_def ft_len_def)

lemma ft_lookup_new [simp]: "ft_lookup (ft_new n) = Map.empty"
  by (simp add: ft_lookup_def ft_new_def)

lemma min_by_key_None [simp]: "min_by_key f xs = None \<longleftrightarrow> xs = []"
  by (cases xs) (auto split: option.splits)

lemma min_by_key_Some:
  "min_by_key f xs = Some x \<Longrightarrow> x \<in> set xs \<and> (\<forall>y \<in> set xs. f x \<le> f y)"
proof (induction xs arbitrary: x)
  case (Cons a xs)
  show ?case
  proof (cases "min_by_key f xs")
    case None
    with Cons.prems show ?thesis by simp
  next
    case (Some y)
    with Cons.IH [of y] Cons.prems show ?thesis by (auto split: if_splits)
  qed
qed simp

lemma oldest_key_None: "oldest_key t = None \<longleftrightarrow> ft_flows t = []"
  by (simp add: oldest_key_def)

lemma oldest_key_Some:
  assumes "oldest_key t = Some old" and "distinct (map fst (ft_flows t))"
  obtains f where "ft_lookup t old = Some f"
    and "\<And>k' f'. ft_lookup t k' = Some f' \<Longrightarrow> last_seen f \<le> last_seen f'"
proof -
  from assms(1) obtain f where "min_by_key (\<lambda>(k, flow). last_seen flow) (ft_flows t) = Some (old, f)"
    by (auto simp: oldest_key_def)
  from min_by_key_Some [OF this] assms(2) show thesis
    by (intro that [of f]) (auto simp: ft_lookup_def dest: map_of_SomeD)
qed

lemma length_delete_key:
  "distinct (map fst al) \<Longrightarrow> k \<in> fst ` set al \<Longrightarrow> Suc (length (AList.delete k al)) = length al"
proof (induction al)
  case (Cons a al)
  then show ?case by (cases a) (auto simp: delete_id split: if_splits)
qed simp

lemma length_update_key:
  "length (AList.update k v al) = (if k \<in> fst ` set al then length al else Suc (length al))"
  by (induction al) auto

lemma oldest_key_in: "oldest_key t = Some old \<Longrightarrow> old \<in> fst ` set (ft_flows t)"
  by (auto simp: oldest_key_def dest!: min_by_key_Some intro: rev_image_eqI)

lemma ft_wf_insert: "ft_wf t \<Longrightarrow> ft_wf (ft_insert t k v)"
proof -
  assume wf: "ft_wf t"
  show ?thesis
  proof (cases "ft_capacity t \<le> length (ft_flows t)")
    case True
    show ?thesis
    proof (cases "oldest_key t")
      case None
      then have "ft_flows t = []" by (simp add: oldest_key_None)
      with None show ?thesis by (simp add: ft_insert_def ft_wf_def ft_len_def)
    next
      case (Some old)
      with wf have "Suc (length (AList.delete old (ft_flows t))) = length (ft_flows t)"
        by (intro length_delete_key oldest_key_in) (simp_all add: ft_wf_def)
      with True Some wf show ?thesis
        by (auto simp: ft_insert_def ft_wf_def ft_len_def distinct_update distinct_delete
            length_update_key)
    qed
  next
    case False
    with wf show ?thesis
      by (simp add: ft_insert_def ft_wf_def ft_len_def distinct_update length_update_key)
  qed
qed

lemma ft_wf_get: "ft_wf t \<Longrightarrow> ft_wf (snd (ft_get now t k))"
  by (auto simp: ft_get_def ft_wf_def ft_len_def Let_def distinct_update length_update_key
      dest: map_of_SomeD split: option.split) (force dest: map_of_SomeD)+

lemma ft_wf_remove: "ft_wf t \<Longrightarrow> ft_wf (snd (ft_remove t k))"
  by (auto simp: ft_remove_def ft_wf_def ft_len_def distinct_delete
      intro: order_trans [OF length_delete_le])

lemma ft_wf_prune: "ft_wf t \<Longrightarrow> ft_wf (snd (ft_prune_older_than now t d))"
  by (auto simp: ft_prune_older_than_def ft_wf_def ft_len_def Let_def distinct_map_filter
      intro: order_trans [OF length_filter_le])

lemma ft_capacity_ops [simp]:
  "ft_capacity (ft_insert t k v) = ft_capacity t"
  "ft_capacity (snd (ft_get now t k)) = ft_capacity t"
  "ft_capacity (snd (ft_remove t k)) = ft_capacity t"
  "ft_capacity (snd (ft_prune_older_than now t d)) = ft_capacity t"
  by (simp_all add: ft_insert_def ft_get_def ft_remove_def ft_prune_older_than_def Let_def
      split: option.split)

subsection \<open>What each operation does to the map\<close>

lemma ft_lookup_insert_same [simp]: "ft_lookup (ft_insert t k v) k = Some v"
  by (simp add: ft_lookup_def ft_insert_def Let_def update_conv)

lemma ft_lookup_insert:
  "ft_lookup (ft_insert t k v) =
     (case if ft_capacity t \<le> ft_len t then oldest_key t else None of
        None \<Rightarrow> (ft_lookup t)(k \<mapsto> v)
      | Some old \<Rightarrow> (ft_lookup t)(old := None, k \<mapsto> v))"
  by (auto simp: ft_lookup_def ft_insert_def ft_len_def Let_def update_conv' delete_conv'
      split: option.split)

lemma ft_lookup_get:
  "ft_get now t k =
     (map_option (touch now) (ft_lookup t k), snd (ft_get now t k))"
  "ft_lookup (snd (ft_get now t k)) =
     (case ft_lookup t k of None \<Rightarrow> ft_lookup t | Some f \<Rightarrow> (ft_lookup t)(k \<mapsto> touch now f))"
  by (auto simp: ft_get_def ft_lookup_def touch_def Let_def update_conv' split: option.split)

lemma ft_lookup_remove:
  "fst (ft_remove t k) = ft_lookup t k"
  "ft_lookup (snd (ft_remove t k)) = (ft_lookup t)(k := None)"
  by (simp_all add: ft_remove_def ft_lookup_def delete_conv')

lemma map_of_filter_distinct:
  "distinct (map fst al) \<Longrightarrow>
    map_of (filter (\<lambda>(_, v). P v) al) k = (case map_of al k of None \<Rightarrow> None | Some v \<Rightarrow> if P v then Some v else None)"
proof (induction al)
  case (Cons a al)
  obtain k' v where a: "a = (k', v)" by (cases a)
  show ?case
  proof (cases "k' = k")
    case True
    with Cons.prems a have "map_of al k = None" by (simp add: map_of_eq_None_iff)
    with Cons a True show ?thesis by simp
  qed (use Cons a in auto)
qed simp

lemma ft_lookup_prune:
  "ft_wf t \<Longrightarrow> ft_lookup (snd (ft_prune_older_than now t d)) k =
     (case ft_lookup t k of
        None \<Rightarrow> None
      | Some f \<Rightarrow> if now - last_seen f \<le> d then Some f else None)"
  by (simp add: ft_lookup_def ft_prune_older_than_def Let_def ft_wf_def map_of_filter_distinct)

lemma card_dom_lookup: "distinct (map fst (ft_flows t)) \<Longrightarrow> card (dom (ft_lookup t)) = ft_len t"
  by (simp add: ft_lookup_def ft_len_def dom_map_of_conv_image_fst distinct_card flip: set_map)

subsection \<open>The abstract table\<close>

text \<open>
  The contract of an insertion on the partial map, without an iteration order: a table that
  holds its capacity or more first loses some flow that no other flow is older than.
\<close>

definition insert_spec ::
  "nat \<Rightarrow> (flow_key \<rightharpoonup> flow_value) \<Rightarrow> flow_key \<Rightarrow> flow_value \<Rightarrow> (flow_key \<rightharpoonup> flow_value) \<Rightarrow> bool" where
  "insert_spec cap m k v m' \<longleftrightarrow>
     (if card (dom m) < cap \<or> m = Map.empty then m' = m(k \<mapsto> v)
      else \<exists>old f. m old = Some f \<and> (\<forall>k' f'. m k' = Some f' \<longrightarrow> last_seen f \<le> last_seen f')
             \<and> m' = (m(old := None))(k \<mapsto> v))"

lemma ft_insert_refines_spec:
  assumes "ft_wf t"
  shows "insert_spec (ft_capacity t) (ft_lookup t) k v (ft_lookup (ft_insert t k v))"
proof -
  have dist: "distinct (map fst (ft_flows t))" using assms by (simp add: ft_wf_def)
  show ?thesis
  proof (cases "ft_len t < ft_capacity t")
    case True
    with dist show ?thesis by (simp add: insert_spec_def ft_lookup_insert card_dom_lookup)
  next
    case full: False
    show ?thesis
    proof (cases "oldest_key t")
      case None
      then have "ft_lookup t = Map.empty" by (simp add: oldest_key_None ft_lookup_def)
      with None show ?thesis by (simp add: insert_spec_def ft_lookup_insert)
    next
      case (Some old)
      then obtain f where f: "ft_lookup t old = Some f"
        "\<And>k' f'. ft_lookup t k' = Some f' \<Longrightarrow> last_seen f \<le> last_seen f'"
        using dist by (rule oldest_key_Some) blast
      then have "ft_lookup t \<noteq> Map.empty" by auto
      with full Some f dist show ?thesis
        by (auto simp: insert_spec_def ft_lookup_insert card_dom_lookup)
    qed
  qed
qed

subsection \<open>The interface the data path uses\<close>

text \<open>A relation between keys and original destinations that every recorded flow satisfies.\<close>

definition flows_satisfy ::
  "(flow_key \<Rightarrow> ip_addr \<Rightarrow> u16 \<Rightarrow> bool) \<Rightarrow> (flow_key \<rightharpoonup> flow_value) \<Rightarrow> bool" where
  "flows_satisfy P m \<longleftrightarrow>
     (\<forall>k f. m k = Some f \<longrightarrow> P k (original_dst_ip f) (original_dst_port f))"

text \<open>
  What the redirector and the relay rely on, and nothing more: an inserted flow is found, a
  lookup only refreshes the time, another key keeps its flow or loses it, and a removal takes
  one key out.
\<close>

locale flow_store =
  fixes look :: "'t \<Rightarrow> flow_key \<rightharpoonup> flow_value"
    and ins :: "'t \<Rightarrow> flow_key \<Rightarrow> flow_value \<Rightarrow> 't"
    and get :: "instant \<Rightarrow> 't \<Rightarrow> flow_key \<Rightarrow> flow_value option \<times> 't"
    and rem :: "'t \<Rightarrow> flow_key \<Rightarrow> flow_value option \<times> 't"
  assumes look_ins_same: "look (ins t k v) k = Some v"
    and look_ins_other: "k' \<noteq> k \<Longrightarrow> look (ins t k v) k' = look t k' \<or> look (ins t k v) k' = None"
    and fst_get: "fst (get now t k) = map_option (touch now) (look t k)"
    and look_get: "look (snd (get now t k)) k' =
      (if k' = k then map_option (touch now) (look t k) else look t k')"
    and fst_rem: "fst (rem t k) = look t k"
    and look_rem: "look (snd (rem t k)) k' = (if k' = k then None else look t k')"
begin

lemma get_after_ins: "fst (get now (ins t k v) k) = Some (touch now v)"
  by (simp add: fst_get look_ins_same)

lemma flows_satisfy_ins:
  assumes "flows_satisfy P (look t)" and "P k (original_dst_ip v) (original_dst_port v)"
  shows "flows_satisfy P (look (ins t k v))"
  unfolding flows_satisfy_def
proof (intro allI impI)
  fix k' f assume "look (ins t k v) k' = Some f"
  then show "P k' (original_dst_ip f) (original_dst_port f)"
    using assms look_ins_same [of t k v] look_ins_other [of k' k t v]
    by (cases "k' = k") (auto simp: flows_satisfy_def)
qed

lemma flows_satisfy_get: "flows_satisfy P (look t) \<Longrightarrow> flows_satisfy P (look (snd (get now t k)))"
  by (auto simp: flows_satisfy_def look_get touch_def split: if_splits)

lemma flows_satisfy_rem: "flows_satisfy P (look t) \<Longrightarrow> flows_satisfy P (look (snd (rem t k)))"
  by (auto simp: flows_satisfy_def look_rem split: if_splits)

lemma get_origin:
  "flows_satisfy P (look t) \<Longrightarrow> fst (get now t k) = Some f \<Longrightarrow> P k (original_dst_ip f) (original_dst_port f)"
  by (auto simp: flows_satisfy_def fst_get touch_def)

lemma get_get: "fst (get now' (snd (get now t k)) k) = map_option (touch now') (look t k)"
  by (cases "look t k") (simp_all add: fst_get look_get touch_def)

lemma get_after_rem: "fst (get now (snd (rem t k)) k) = None"
  by (simp add: fst_get look_rem)

end

interpretation ft: flow_store ft_lookup ft_insert ft_get ft_remove
proof unfold_locales
  show "k' \<noteq> k \<Longrightarrow> ft_lookup (ft_insert t k v) k' = ft_lookup t k' \<or> ft_lookup (ft_insert t k v) k' = None"
    for t k v k'
    by (auto simp: ft_lookup_insert split: option.split)
  show "fst (ft_get now t k) = map_option (touch now) (ft_lookup t k)" for now t k
    by (metis fst_conv ft_lookup_get(1))
  show "ft_lookup (snd (ft_get now t k)) k' =
      (if k' = k then map_option (touch now) (ft_lookup t k) else ft_lookup t k')" for now t k k'
    by (simp add: ft_lookup_get(2) split: option.split)
qed (simp_all add: ft_lookup_remove)

subsection \<open>Runs of operations\<close>

datatype flow_op =
  Op_insert flow_key flow_value
| Op_get instant flow_key
| Op_remove flow_key
| Op_prune instant nat

fun exec_op :: "flow_op \<Rightarrow> flow_table \<Rightarrow> flow_table" where
  "exec_op (Op_insert k v) t = ft_insert t k v"
| "exec_op (Op_get now k) t = snd (ft_get now t k)"
| "exec_op (Op_remove k) t = snd (ft_remove t k)"
| "exec_op (Op_prune now d) t = snd (ft_prune_older_than now t d)"

lemma ft_wf_run: "ft_wf t \<Longrightarrow> ft_wf (fold exec_op ops t) \<and> ft_capacity (fold exec_op ops t) = ft_capacity t"
proof (induction ops arbitrary: t)
  case (Cons op ops)
  have "ft_wf (exec_op op t)" "ft_capacity (exec_op op t) = ft_capacity t"
    using Cons.prems by (cases op; simp add: ft_wf_insert ft_wf_get ft_wf_remove ft_wf_prune)+
  with Cons.IH [of "exec_op op t"] show ?case by simp
qed simp

lemma ft_new_run:
  "ft_wf (fold exec_op ops (ft_new n))" "ft_capacity (fold exec_op ops (ft_new n)) = n"
  using ft_wf_run [OF ft_wf_new, of ops n] by (simp_all add: ft_new_def)

text \<open>What one operation may do to the map, without the order of the entries.\<close>

fun op_spec :: "nat \<Rightarrow> (flow_key \<rightharpoonup> flow_value) \<Rightarrow> flow_op \<Rightarrow> (flow_key \<rightharpoonup> flow_value) \<Rightarrow> bool" where
  "op_spec cap m (Op_insert k v) m' = insert_spec cap m k v m'"
| "op_spec cap m (Op_get now k) m' = (m' = m(k := map_option (touch now) (m k)))"
| "op_spec cap m (Op_remove k) m' = (m' = m(k := None))"
| "op_spec cap m (Op_prune now d) m' =
     (m' = (\<lambda>k. case m k of None \<Rightarrow> None | Some f \<Rightarrow> if now - last_seen f \<le> d then Some f else None))"

subsection \<open>Properties\<close>

text \<open>C28: However the table is used, it never holds more flows than its capacity (one flow for
  a capacity of 0) and never two flows of one client endpoint.\<close>

theorem flow_table_bounded:
  "ft_len (fold exec_op ops (ft_new n)) \<le> max 1 n \<and>
   distinct (map fst (ft_flows (fold exec_op ops (ft_new n))))"
  using ft_new_run [of ops n] by (simp add: ft_wf_def)

text \<open>C27: In every table the program can reach, each operation does to the map of flows what
  its specification says: a lookup refreshes one time, a removal takes one key out, pruning keeps
  the flows seen recently enough, and an insertion into a full table evicts a flow that no other
  flow is older than, before it records the new one.\<close>

theorem flow_table_refines:
  "op_spec n (ft_lookup (fold exec_op ops (ft_new n))) op
     (ft_lookup (exec_op op (fold exec_op ops (ft_new n))))"
proof -
  let ?t = "fold exec_op ops (ft_new n)"
  note wf = ft_new_run [of ops n]
  show ?thesis
  proof (cases op)
    case (Op_insert k v)
    then show ?thesis using ft_insert_refines_spec [OF wf(1), of k v] by (simp add: wf(2))
  next
    case (Op_get now k)
    then show ?thesis by (auto simp: ft.look_get)
  next
    case (Op_remove k)
    then show ?thesis by (simp add: ft_lookup_remove)
  next
    case (Op_prune now d)
    then show ?thesis using ft_lookup_prune [OF wf(1)] by auto
  qed
qed

text \<open>A full table evicts its oldest flow even when the inserted flow is already recorded,
  which every further packet of a redirected connection does: the table loses the oldest
  client's flow although it does not need the room, and is then below its capacity.\<close>

theorem reinsert_evicts_other:
  assumes "ft_wf t" and "ft_len t = ft_capacity t" and "ft_lookup t k = Some f"
    and "oldest_key t = Some old" and "old \<noteq> k"
  shows "ft_lookup (ft_insert t k v) old = None \<and> ft_lookup (ft_insert t k v) k = Some v \<and>
    ft_len (ft_insert t k v) < ft_capacity t"
proof -
  have dist: "distinct (map fst (ft_flows t))" using assms(1) by (simp add: ft_wf_def)
  have "map_of (AList.delete old (ft_flows t)) k = Some f"
    using assms(3,5) by (simp add: ft_lookup_def)
  then have k: "k \<in> fst ` set (AList.delete old (ft_flows t))"
    by (metis map_of_eq_None_iff option.distinct(1))
  have "Suc (length (AList.delete old (ft_flows t))) = length (ft_flows t)"
    using dist assms(4) by (intro length_delete_key oldest_key_in)
  then have "ft_len (ft_insert t k v) < ft_capacity t"
    using k assms(2,4) by (simp add: ft_insert_def ft_len_def length_update_key)
  then show ?thesis
    using assms(2,4,5) by (simp add: ft_lookup_insert)
qed

definition sample_key :: "u16 \<Rightarrow> flow_key" where
  "sample_key port =
     \<lparr>fk_protocol = Tcp, fk_client_ip = V4 (Ipv4Addr 192 168 137 20), fk_client_port = port\<rparr>"

definition sample_flow :: "instant \<Rightarrow> flow_value" where
  "sample_flow now =
     flow_value_new (V4 (Ipv4Addr 93 184 216 34)) 443 (V4 (Ipv4Addr 192 168 137 1)) 16000 now"

definition sample_full :: flow_table where
  "sample_full = ft_insert (ft_insert (ft_new 2) (sample_key 1) (sample_flow 1)) (sample_key 2) (sample_flow 2)"

theorem reinsert_evicts_other_witness:
  "ft_lookup sample_full (sample_key 2) = Some (sample_flow 2) \<and>
   ft_lookup (ft_insert sample_full (sample_key 2) (sample_flow 3)) (sample_key 1) = None"
proof -
  have wf: "ft_wf sample_full"
    unfolding sample_full_def by (intro ft_wf_insert ft_wf_new)
  have k: "sample_key 1 \<noteq> sample_key 2" by (simp add: sample_key_def)
  have "ft_flows sample_full = [(sample_key 1, sample_flow 1), (sample_key 2, sample_flow 2)]"
    "ft_capacity sample_full = 2"
    using k by (simp_all add: sample_full_def ft_insert_def ft_new_def)
  then have "ft_len sample_full = ft_capacity sample_full"
    "ft_lookup sample_full (sample_key 2) = Some (sample_flow 2)"
    "oldest_key sample_full = Some (sample_key 1)"
    using k by (simp_all add: ft_len_def ft_lookup_def oldest_key_def sample_flow_def flow_value_new_def)
  then show ?thesis using reinsert_evicts_other [OF wf] k by blast
qed

end
