(* ===== verification/Packet.thy ===== *)
theory Packet
  imports Flow
begin

section \<open>IPv4 packets (src/src/redirector.rs, parsing and rewriting)\<close>

text \<open>
  The bytes of a captured packet: the IPv4 and transport headers as the redirector parses
  them, with every index as a checked access, the Internet checksum on 32-bit words, and the
  rewriting of the destination or the source with both checksums recomputed. A function that
  mutates the buffer returns the buffer with its \<open>Option\<close>; \<open>question\<close> is the question mark
  of such a function: on \<open>None\<close> it returns \<open>None\<close> with the buffer as it is at that point.

  The lemmas give each parser a closed form (so none of them can panic), relate the checksum
  loop to one's complement addition, and describe a rewritten packet: which bytes differ, how
  it parses, that its checksums verify, and when readdressing it back gives the packet it was.
\<close>

unbundle bit_operations_syntax

subsection \<open>Headers\<close>

record ipv4_packet_header =
  h_header_len :: nat
  h_total_len :: nat
  h_protocol :: u8
  h_src_ip :: ipv4addr
  h_dst_ip :: ipv4addr

record transport_header =
  t_offset :: nat
  t_src_port :: u16
  t_dst_port :: u16

record packet_meta =
  pm_protocol :: transport_protocol
  pm_src_ip :: ip_addr
  pm_src_port :: u16
  pm_dst_ip :: ip_addr
  pm_dst_port :: u16

definition idx_ipv4 :: "byte list \<Rightarrow> nat \<Rightarrow> (ipv4addr \<Rightarrow> ('b, 'e) res) \<Rightarrow> ('b, 'e) res" where
  "idx_ipv4 xs i k =
     idx xs i (\<lambda>a. idx xs (i + 1) (\<lambda>b. idx xs (i + 2) (\<lambda>c. idx xs (i + 3) (\<lambda>d.
       k (Ipv4Addr a b c d)))))"

definition parse_header :: "byte list \<Rightarrow> (ipv4_packet_header, unit) res" where
  "parse_header packet =
     (if length packet < 20 then Nothing
      else idx packet 0 (\<lambda>b0.
        let version = drop_bit 4 b0 in
        if version \<noteq> 4 then Nothing
        else
          let header_len = unat (b0 AND 0x0f) * 4 in
          if header_len < 20 \<or> length packet < header_len then Nothing
          else idx packet 2 (\<lambda>b2. idx packet 3 (\<lambda>b3.
            let total_len = unat (from_be16 b2 b3) in
            if total_len < header_len \<or> length packet < total_len then Nothing
            else idx packet 6 (\<lambda>b6. idx packet 7 (\<lambda>b7.
              let frag = from_be16 b6 b7 in
              if frag AND 0x1fff \<noteq> 0 then Nothing
              else idx packet 9 (\<lambda>protocol.
                idx_ipv4 packet 12 (\<lambda>src_ip.
                idx_ipv4 packet 16 (\<lambda>dst_ip.
                Ok \<lparr>h_header_len = header_len, h_total_len = total_len,
                    h_protocol = protocol, h_src_ip = src_ip, h_dst_ip = dst_ip\<rparr>)))))))))"

definition min_transport_len :: "transport_protocol \<Rightarrow> nat" where
  "min_transport_len p = (case p of Tcp \<Rightarrow> 20 | Udp \<Rightarrow> 8)"

definition parse_transport ::
  "byte list \<Rightarrow> nat \<Rightarrow> transport_protocol \<Rightarrow> (transport_header, unit) res" where
  "parse_transport packet offset protocol =
     (let min_len = min_transport_len protocol in
      if length packet < offset + min_len then Nothing
      else
        idx packet offset (\<lambda>s0. idx packet (offset + 1) (\<lambda>s1.
        idx packet (offset + 2) (\<lambda>d0. idx packet (offset + 3) (\<lambda>d1.
        Ok \<lparr>t_offset = offset, t_src_port = from_be16 s0 s1, t_dst_port = from_be16 d0 d1\<rparr>)))))"

definition protocol_of :: "u8 \<Rightarrow> transport_protocol option" where
  "protocol_of p = (if p = 6 then Some Tcp else if p = 17 then Some Udp else None)"

definition parse_ipv4_packet_meta :: "byte list \<Rightarrow> (packet_meta, unit) res" where
  "parse_ipv4_packet_meta packet =
     attempt (parse_header packet) (\<lambda>header.
     attempt (ok_or (protocol_of (h_protocol header)) ()) (\<lambda>protocol.
     attempt (parse_transport packet (h_header_len header) protocol) (\<lambda>transport.
     Ok \<lparr>pm_protocol = protocol,
         pm_src_ip = V4 (h_src_ip header), pm_src_port = t_src_port transport,
         pm_dst_ip = V4 (h_dst_ip header), pm_dst_port = t_dst_port transport\<rparr>)))"

subsection \<open>Checksums\<close>

text \<open>The loop over \<open>chunks_exact(2)\<close> and the remainder, on a wrapping 32-bit sum.\<close>

fun sum_chunks :: "u32 \<Rightarrow> byte list \<Rightarrow> u32" where
  "sum_chunks s [] = s"
| "sum_chunks s [b] = s + ucast (from_be16 b 0)"
| "sum_chunks s (a # b # rest) = sum_chunks (s + ucast (from_be16 a b)) rest"

lemma unat_fold_step:
  fixes s :: u32
  shows "unat ((s AND 0xffff) + drop_bit 16 s) = unat s mod 65536 + unat s div 65536"
proof -
  have s: "unat s < 2 ^ 32" using unsigned_less [of s, where ?'a = nat] by simp
  have "s AND 0xffff = take_bit 16 s" by (simp add: take_bit_eq_mask mask_eq_exp_minus_1)
  then have a: "unat (s AND 0xffff) = unat s mod 65536"
    by (simp add: unsigned_take_bit_eq) (simp add: take_bit_eq_mod)
  have d: "unat (drop_bit 16 s) = unat s div 65536"
    by (subst unat_drop_bit_eq) (simp add: drop_bit_eq_div [where ?'a = nat] del: drop_bit_eq_div [where ?'a = "32 word"])
  have "unat s div 65536 < 65536" using s by (simp add: less_mult_imp_div_less)
  moreover have "unat s mod 65536 < 65536" by simp
  ultimately show ?thesis by (simp add: unat_word_ariths a d)
qed

function fold_carry :: "u32 \<Rightarrow> u32" where
  "fold_carry s =
     (if 0xffff < s then fold_carry ((s AND 0xffff) + drop_bit 16 s) else s)"
  by pat_completeness auto
termination
proof (relation "measure unat")
  fix s :: u32 assume "0xffff < s"
  then have "65535 < unat s" by (simp add: word_less_nat_alt)
  then have "unat s mod 65536 + unat s div 65536 < unat s"
    using mod_mult_div_eq [of "unat s" 65536] by linarith
  then show "((s AND 0xffff) + drop_bit 16 s, s) \<in> measure unat"
    by (simp only: in_measure unat_fold_step)
qed simp

declare fold_carry.simps [simp del]

definition checksum :: "byte list \<Rightarrow> u16" where
  "checksum bytes = NOT (ucast (fold_carry (sum_chunks 0 bytes)))"

definition transport_checksum :: "byte list \<Rightarrow> byte list \<Rightarrow> u8 \<Rightarrow> byte list \<Rightarrow> u16" where
  "transport_checksum src_ip dst_ip protocol segment =
     checksum (src_ip @ dst_ip @ [0] @ [protocol] @ to_be16 (word_of_nat (length segment)) @ segment)"

subsection \<open>Rewriting\<close>

type_synonym mutation = "(unit option \<times> byte list, unit) res"

definition question :: "('a, unit) res \<Rightarrow> byte list \<Rightarrow> ('a \<Rightarrow> mutation) \<Rightarrow> mutation" where
  "question r packet k =
     (case r of Ok a \<Rightarrow> k a | Err _ \<Rightarrow> Ok (None, packet) | Panic \<Rightarrow> Panic)"

definition recalculate_ipv4_checksums :: "byte list \<Rightarrow> mutation" where
  "recalculate_ipv4_checksums packet =
     question (parse_header packet) packet (\<lambda>header.
     let hl = h_header_len header; total_len = h_total_len header in
     copy_at packet 10 [0, 0] (\<lambda>p1.
     slice p1 0 hl (\<lambda>ip_header.
     copy_at p1 10 (to_be16 (checksum ip_header)) (\<lambda>p2.
     case (if h_protocol header = 6 then Some (hl + 16)
           else if h_protocol header = 17 then Some (hl + 6) else None) of
       None \<Rightarrow> Ok (Some (), p2)
     | Some checksum_offset \<Rightarrow>
         if length p2 < checksum_offset + 2 then Ok (None, p2)
         else
           copy_at p2 checksum_offset [0, 0] (\<lambda>p3.
           slice p3 12 16 (\<lambda>src. slice p3 16 20 (\<lambda>dst. slice p3 hl total_len (\<lambda>segment.
           let tc = transport_checksum src dst (h_protocol header) segment;
               tc' = (if h_protocol header = 17 \<and> tc = 0 then 0xffff else tc) in
           copy_at p3 checksum_offset (to_be16 tc') (\<lambda>p4. Ok (Some (), p4))))))))))"

definition rewrite_destination :: "byte list \<Rightarrow> ip_addr \<Rightarrow> u16 \<Rightarrow> mutation" where
  "rewrite_destination packet dst_ip dst_port =
     (case dst_ip of
        V6 _ \<Rightarrow> Ok (None, packet)
      | V4 ip \<Rightarrow>
          question (parse_header packet) packet (\<lambda>header.
          question (ok_or (protocol_of (h_protocol header)) ()) packet (\<lambda>protocol.
          question (parse_transport packet (h_header_len header) protocol) packet (\<lambda>transport.
          copy_at packet 16 (octets ip) (\<lambda>p1.
          copy_at p1 (t_offset transport + 2) (to_be16 dst_port) (\<lambda>p2.
          recalculate_ipv4_checksums p2))))))"

definition rewrite_source :: "byte list \<Rightarrow> ip_addr \<Rightarrow> u16 \<Rightarrow> mutation" where
  "rewrite_source packet src_ip src_port =
     (case src_ip of
        V6 _ \<Rightarrow> Ok (None, packet)
      | V4 ip \<Rightarrow>
          question (parse_header packet) packet (\<lambda>header.
          question (ok_or (protocol_of (h_protocol header)) ()) packet (\<lambda>protocol.
          question (parse_transport packet (h_header_len header) protocol) packet (\<lambda>transport.
          copy_at packet 12 (octets ip) (\<lambda>p1.
          copy_at p1 (t_offset transport) (to_be16 src_port) (\<lambda>p2.
          recalculate_ipv4_checksums p2))))))"

subsection \<open>Closed forms of the parsers\<close>

definition header_len_of :: "byte list \<Rightarrow> nat" where
  "header_len_of p = unat (p ! 0 AND 0x0f) * 4"

definition total_len_of :: "byte list \<Rightarrow> nat" where
  "total_len_of p = unat (be16_at p 2)"

definition header_ok :: "byte list \<Rightarrow> bool" where
  "header_ok p \<longleftrightarrow>
     20 \<le> length p \<and> drop_bit 4 (p ! 0) = 4 \<and> 20 \<le> header_len_of p \<and>
     header_len_of p \<le> total_len_of p \<and> total_len_of p \<le> length p \<and>
     be16_at p 6 AND 0x1fff = 0"

definition header_of :: "byte list \<Rightarrow> ipv4_packet_header" where
  "header_of p =
     \<lparr>h_header_len = header_len_of p, h_total_len = total_len_of p, h_protocol = p ! 9,
      h_src_ip = ipv4_at p 12, h_dst_ip = ipv4_at p 16\<rparr>"

lemma header_of_simps [simp]:
  "h_header_len (header_of p) = header_len_of p" "h_total_len (header_of p) = total_len_of p"
  "h_protocol (header_of p) = p ! 9" "h_src_ip (header_of p) = ipv4_at p 12"
  "h_dst_ip (header_of p) = ipv4_at p 16"
  by (simp_all add: header_of_def)

lemma idx_ipv4_in: "i + 4 \<le> length xs \<Longrightarrow> idx_ipv4 xs i k = k (ipv4_at xs i)"
  by (simp add: idx_ipv4_def ipv4_at_def)

lemma parse_header_eq: "parse_header p = (if header_ok p then Ok (header_of p) else Nothing)"
proof (cases "length p < 20")
  case True
  then show ?thesis by (simp add: parse_header_def header_ok_def)
next
  case False
  then have "20 \<le> length p" "p \<noteq> []" by auto
  then show ?thesis
    by (simp add: parse_header_def header_ok_def header_of_def header_len_of_def total_len_of_def
        Let_def idx_ipv4_in be16_at_def)
qed

lemma header_ok_len:
  "header_ok p \<Longrightarrow> 20 \<le> length p" "header_ok p \<Longrightarrow> 20 \<le> header_len_of p"
  "header_ok p \<Longrightarrow> header_len_of p \<le> total_len_of p" "header_ok p \<Longrightarrow> total_len_of p \<le> length p"
  "header_ok p \<Longrightarrow> header_len_of p \<le> length p"
  by (simp_all add: header_ok_def)

lemma parse_transport_eq:
  "parse_transport p i pr =
     (if i + min_transport_len pr \<le> length p
      then Ok \<lparr>t_offset = i, t_src_port = be16_at p i, t_dst_port = be16_at p (i + 2)\<rparr>
      else Nothing)"
  by (cases pr) (auto simp: parse_transport_def min_transport_len_def Let_def be16_at_def
      numeral_3_eq_3)


lemma parse_meta_eq:
  "parse_ipv4_packet_meta p =
     (case protocol_of (p ! 9) of
        Some pr \<Rightarrow>
          if header_ok p \<and> header_len_of p + min_transport_len pr \<le> length p
          then Ok \<lparr>pm_protocol = pr,
                   pm_src_ip = V4 (ipv4_at p 12), pm_src_port = be16_at p (header_len_of p),
                   pm_dst_ip = V4 (ipv4_at p 16), pm_dst_port = be16_at p (header_len_of p + 2)\<rparr>
          else Nothing
      | None \<Rightarrow> Nothing)"
  by (simp add: parse_ipv4_packet_meta_def parse_header_eq parse_transport_eq split: option.split)

lemma parse_meta_no_panic [panic_free]: "parse_ipv4_packet_meta p \<noteq> Panic"
  by (simp add: parse_meta_eq split: option.split)

subsection \<open>The checksum as a one's complement sum\<close>

text \<open>
  The reference: the sum of the big-endian 16-bit words of the data as a number, the last odd
  byte as the high byte of a word, and one's complement addition, which is the sum modulo
  65535 with 65535 (not 0) for the nonzero multiples.
\<close>

fun word_sum :: "byte list \<Rightarrow> nat" where
  "word_sum [] = 0"
| "word_sum [b] = unat b * 256"
| "word_sum (a # b # rest) = unat a * 256 + unat b + word_sum rest"

definition ones_complement :: "nat \<Rightarrow> nat" where
  "ones_complement n = (if n = 0 then 0 else (n - 1) mod 65535 + 1)"

lemma ones_complement_small: "n \<le> 65535 \<Longrightarrow> ones_complement n = n"
  by (simp add: ones_complement_def)

lemma ones_complement_fold: "ones_complement (n mod 65536 + n div 65536) = ones_complement n"
proof (cases "n = 0")
  case False
  define q r where "q = n div 65536" and "r = n mod 65536"
  have n: "n = q * 65536 + r" by (simp add: q_def r_def)
  have pos: "0 < r + q" using False n by (cases "r + q") auto
  have "(n - 1) mod 65535 = (q * 65535 + (r + q - 1)) mod 65535"
    using n pos by (intro arg_cong2 [where f = "(mod)"]) auto
  also have "\<dots> = (r + q - 1) mod 65535" by simp
  finally show ?thesis using False pos by (simp add: ones_complement_def q_def r_def)
qed simp

lemma ones_complement_le: "ones_complement n \<le> 65535"
  using mod_less_divisor [of 65535 "n - 1"] by (simp add: ones_complement_def del: mod_less_divisor)

lemma ones_complement_add: "ones_complement (n + (65535 - ones_complement n)) = 65535"
proof (cases "n = 0")
  case False
  define q r where "q = (n - 1) div 65535" and "r = (n - 1) mod 65535"
  have n: "n = q * 65535 + r + 1" using False by (simp add: q_def r_def)
  have r: "r < 65535" by (simp add: r_def)
  have "n + (65535 - (r + 1)) - 1 = (q + 1) * 65535 - 1" using n r by simp
  also have "\<dots> = q * 65535 + 65534" by simp
  finally have "(n + (65535 - (r + 1)) - 1) mod 65535 = 65534" by simp
  moreover have "ones_complement n = r + 1" using False by (simp add: ones_complement_def r_def)
  moreover have "n + (65535 - (r + 1)) \<noteq> 0" using False by simp
  ultimately show ?thesis by (simp only: ones_complement_def if_False)
qed (simp add: ones_complement_def)

lemma word_sum_bound: "word_sum xs \<le> 65535 * ((length xs + 1) div 2)"
proof (induction xs rule: word_sum.induct)
  case (2 b)
  then show ?case using unat_byte_less [of b] by simp
next
  case (3 a b rest)
  then show ?case using unat_byte_less [of a] unat_byte_less [of b] by simp
qed simp

lemma unat_ucast_be16: "unat (ucast (from_be16 a b) :: u32) = unat a * 256 + unat b"
  using unat_byte_less [of a] unat_byte_less [of b]
  by (simp add: unsigned_ucast_eq take_bit_eq_mod unat_from_be16)

lemma unat_not: "unat (NOT w) = 65535 - unat w" for w :: u16
proof -
  have "NOT w = - 1 - w" by (simp add: not_eq_complement)
  moreover have "unat (- 1 - w) = unat (- 1 :: u16) - unat w" by (rule unat_sub) (rule word_n1_ge)
  ultimately show ?thesis by (simp add: unsigned_minus_1_eq_mask mask_eq_exp_minus_1)
qed

lemma unat_sum_chunks:
  "unat s + word_sum xs < 2 ^ 32 \<Longrightarrow> unat (sum_chunks s xs) = unat s + word_sum xs"
proof (induction s xs rule: sum_chunks.induct)
  case (2 s b)
  then show ?case by (simp add: unat_word_ariths unat_ucast_be16)
next
  case (3 s a b rest)
  then have "unat (s + ucast (from_be16 a b)) = unat s + (unat a * 256 + unat b)"
    by (simp add: unat_word_ariths unat_ucast_be16)
  with 3 show ?case by simp
qed simp

lemma unat_fold_carry: "unat (fold_carry s) = ones_complement (unat s)"
proof (induction s rule: fold_carry.induct)
  case (1 s)
  show ?case
  proof (cases "0xffff < s")
    case True
    then have "fold_carry s = fold_carry ((s AND 0xffff) + drop_bit 16 s)"
      by (subst fold_carry.simps) simp
    with 1 [OF True] show ?thesis by (simp only: unat_fold_step ones_complement_fold)
  next
    case False
    then have "unat s \<le> 65535" by (simp add: word_less_nat_alt)
    with False show ?thesis by (subst fold_carry.simps) (simp add: ones_complement_small)
  qed
qed

text \<open>
  No buffer a captured packet fits in (at most 65535 bytes and a pseudo header) can overflow
  the 32-bit sum, so the checksum is the complement of the one's complement sum.
\<close>

lemma unat_checksum:
  assumes "length xs \<le> 131072"
  shows "unat (checksum xs) = 65535 - ones_complement (word_sum xs)"
proof -
  have "word_sum xs \<le> 65535 * ((length xs + 1) div 2)" by (rule word_sum_bound)
  also have "\<dots> \<le> 65535 * 65536" using assms by (intro mult_le_mono2) simp
  finally have "unat (sum_chunks 0 xs) = word_sum xs" by (subst unat_sum_chunks) simp_all
  then have s: "unat (fold_carry (sum_chunks 0 xs)) = ones_complement (word_sum xs)"
    by (simp add: unat_fold_carry)
  moreover have "unat (ucast (fold_carry (sum_chunks 0 xs)) :: u16) = unat (fold_carry (sum_chunks 0 xs))"
    using s ones_complement_le [of "word_sum xs"]
    by (simp add: unsigned_ucast_eq take_bit_eq_mod)
  ultimately show ?thesis
    by (simp add: checksum_def unat_not)
qed


text \<open>
  A receiver sums the data with the checksum field in it. Writing into a zeroed field, at an
  even offset, the checksum of the data (or all ones for a zero checksum, as UDP demands)
  makes that sum all ones, so the checksum of the result is 0.
\<close>

lemma word_sum_append: "even (length xs) \<Longrightarrow> word_sum (xs @ ys) = word_sum xs + word_sum ys"
proof (induction xs rule: word_sum.induct)
  case (3 a b rest)
  then show ?case by simp
qed simp_all

lemma word_sum_patch:
  assumes "even a" "a + 2 \<le> length xs"
  shows "word_sum (patch xs a (to_be16 w)) = word_sum (patch xs a [0, 0]) + unat w"
proof -
  have "word_sum (to_be16 w @ ys) = unat w + word_sum ys" for ys
    using unat_from_be16 [of "ucast (drop_bit 8 w)" "ucast w"]
    by (simp add: to_be16_def from_to_be16)
  then show ?thesis using assms by (simp add: patch_def word_sum_append)
qed

lemma checksum_verifies:
  assumes "even a" "a + 2 \<le> length xs" "length xs \<le> 131072"
    and w: "w = checksum (patch xs a [0, 0]) \<or> checksum (patch xs a [0, 0]) = 0 \<and> w = 0xffff"
  shows "checksum (patch xs a (to_be16 w)) = 0"
proof -
  define n where "n = word_sum (patch xs a [0, 0])"
  have c: "unat (checksum (patch xs a [0, 0])) = 65535 - ones_complement n"
    using assms by (simp add: unat_checksum n_def)
  have "ones_complement (n + unat w) = 65535"
    using w
  proof
    assume "w = checksum (patch xs a [0, 0])"
    with c show ?thesis by (simp add: ones_complement_add)
  next
    assume *: "checksum (patch xs a [0, 0]) = 0 \<and> w = 0xffff"
    then have full: "ones_complement n = 65535" using c ones_complement_le [of n] by simp
    then have "n \<noteq> 0" "(n - 1) mod 65535 = 65534" by (auto simp: ones_complement_def split: if_splits)
    then have "n + 65535 - 1 = (n - 1) + 65535" by simp
    with \<open>(n - 1) mod 65535 = 65534\<close> have "(n + 65535 - 1) mod 65535 = 65534"
      by (simp only: mod_add_self2)
    moreover have "unat w = 65535" using * by simp
    ultimately show ?thesis by (simp only: ones_complement_def) simp
  qed
  then have "unat (checksum (patch xs a (to_be16 w))) = 0"
    using assms by (simp add: unat_checksum word_sum_patch n_def)
  then show ?thesis by (simp only: unsigned_eq_0_iff)
qed

text \<open>Conversely no other value of the field makes the sum all ones, and a checksum over data that
  is not all zero is not all ones itself.\<close>

lemma ones_complement_full: "ones_complement n = 65535 \<longleftrightarrow> 0 < n \<and> n mod 65535 = 0"
proof (cases n)
  case (Suc k)
  then show ?thesis by (simp add: ones_complement_def mod_Suc)
qed (simp add: ones_complement_def)

lemma checksum_unique:
  assumes "even a" "a + 2 \<le> length xs" "length xs \<le> 131072"
    and ok: "checksum (patch xs a (to_be16 w)) = 0"
  shows "w = checksum (patch xs a [0, 0]) \<or> checksum (patch xs a [0, 0]) = 0 \<and> w = 0xffff"
proof -
  define n where "n = word_sum (patch xs a [0, 0])"
  define c where "c = unat (checksum (patch xs a [0, 0]))"
  have c: "c = 65535 - ones_complement n"
    using assms by (simp add: unat_checksum n_def c_def)
  have w: "unat w \<le> 65535" using unsigned_less [of w, where ?'a = nat] by simp
  have "unat (checksum (patch xs a (to_be16 w))) = 65535 - ones_complement (n + unat w)"
    using assms(1-3) by (simp add: unat_checksum word_sum_patch n_def)
  then have "ones_complement (n + unat w) = 65535"
    using ok ones_complement_le [of "n + unat w"] by simp
  then have *: "0 < n + unat w" "(n + unat w) mod 65535 = 0" by (simp_all only: ones_complement_full)
  have "(n + c) mod 65535 = 0"
    using ones_complement_add [of n] c by (simp only: ones_complement_full)
  with * obtain k l where "n + unat w = 65535 * k" "n + c = 65535 * l"
    by (auto simp: mod_eq_0_iff_dvd elim!: dvdE)
  then have "unat w + 65535 * l = c + 65535 * k" by simp
  then have "unat w mod 65535 = c mod 65535" by (metis mod_mult_self2)
  then have "unat w = c \<or> {unat w, c} = {0, 65535}"
    using w c by (cases "unat w = 65535"; cases "c = 65535") (auto simp: mod_if split: if_splits)
  moreover have "c \<noteq> 65535" if "unat w = 0"
    using * that c by (auto simp: ones_complement_def split: if_splits)
  ultimately have "unat w = c \<or> unat w = 65535 \<and> c = 0" by (auto simp: doubleton_eq_iff)
  then show ?thesis
    by (auto simp: c_def word_unat_eq_iff)
qed

lemma word_sum_pos: "\<lbrakk>i < length xs; xs ! i \<noteq> 0\<rbrakk> \<Longrightarrow> 0 < word_sum xs"
proof (induction xs arbitrary: i rule: word_sum.induct)
  case (3 a b rest)
  then show ?case
    by (cases i; cases "i - 1") (auto simp: unsigned_eq_0_iff intro: gr0I)
qed (auto simp: unsigned_eq_0_iff intro: gr0I)

lemma checksum_not_full:
  assumes "i < length xs" "xs ! i \<noteq> 0" "length xs \<le> 131072"
  shows "checksum xs \<noteq> 0xffff"
proof
  assume "checksum xs = 0xffff"
  then have "unat (checksum xs) = 65535" by simp
  then have "ones_complement (word_sum xs) = 0"
    using assms(3) by (simp add: unat_checksum)
  with word_sum_pos [OF assms(1,2)] show False by (simp add: ones_complement_def)
qed


subsection \<open>Rewriting a packet\<close>

definition checksum_at :: "byte list \<Rightarrow> nat" where
  "checksum_at p = header_len_of p + (if p ! 9 = 6 then 16 else 6)"

definition segment_of :: "byte list \<Rightarrow> byte list" where
  "segment_of p = take (total_len_of p - header_len_of p) (drop (header_len_of p) p)"

definition ip_checksum_ok :: "byte list \<Rightarrow> bool" where
  "ip_checksum_ok p \<longleftrightarrow> checksum (take (header_len_of p) p) = 0"

definition transport_checksum_ok :: "byte list \<Rightarrow> bool" where
  "transport_checksum_ok p \<longleftrightarrow>
     transport_checksum (take 4 (drop 12 p)) (take 4 (drop 16 p)) (p ! 9) (segment_of p) = 0"

definition has_transport :: "transport_protocol \<Rightarrow> byte list \<Rightarrow> bool" where
  "has_transport pr p \<longleftrightarrow>
     header_ok p \<and> protocol_of (p ! 9) = Some pr \<and>
     header_len_of p + min_transport_len pr \<le> length p"

lemma protocol_of_Some: "protocol_of b = Some pr \<longleftrightarrow> b = (case pr of Tcp \<Rightarrow> 6 | Udp \<Rightarrow> 17)"
  by (auto simp: protocol_of_def split: transport_protocol.split)

lemma header_len_even: "even (header_len_of p)" "header_len_of p \<le> 60"
proof -
  show "even (header_len_of p)" by (simp add: header_len_of_def)
  have "p ! 0 AND 0x0f = take_bit 4 (p ! 0)" by (simp add: take_bit_eq_mask mask_eq_exp_minus_1)
  then have "unat (p ! 0 AND 0x0f) = unat (p ! 0) mod 16"
    by (simp add: unsigned_take_bit_eq) (simp add: take_bit_eq_mod)
  moreover have "unat (p ! 0) mod 16 < 16" by simp
  ultimately show "header_len_of p \<le> 60" by (simp add: header_len_of_def)
qed

lemma total_len_le: "total_len_of p < 65536"
  using unsigned_less [of "be16_at p 2", where ?'a = nat] by (simp add: total_len_of_def)

lemma checksum_at_bounds:
  assumes "has_transport pr p"
  shows "header_len_of p \<le> checksum_at p" "even (checksum_at p)" "checksum_at p + 2 \<le> length p"
    "20 \<le> checksum_at p"
  using assms header_len_even(1) [of p]
  by (cases pr; auto simp: has_transport_def checksum_at_def min_transport_len_def protocol_of_Some
      header_ok_def)+

text \<open>What the header of a packet says depends only on its length and a few bytes.\<close>

lemma header_same:
  assumes "same_except S p q" "20 \<le> length p" "S \<inter> {0, 2, 3, 6, 7, 9} = {}"
  shows "header_len_of q = header_len_of p" "total_len_of q = total_len_of p"
    "header_ok q = header_ok p" "q ! 9 = p ! 9" "checksum_at q = checksum_at p"
    "has_transport pr q = has_transport pr p"
proof -
  have e: "q ! 0 = p ! 0" "q ! 2 = p ! 2" "q ! 3 = p ! 3" "q ! 6 = p ! 6" "q ! 7 = p ! 7"
    "q ! 9 = p ! 9" "length q = length p"
    using assms by (auto intro!: same_except_nth [of S p q] simp: same_except_len)
  then show *: "header_len_of q = header_len_of p" "total_len_of q = total_len_of p"
    "q ! 9 = p ! 9"
    by (simp_all add: header_len_of_def total_len_of_def be16_at_def)
  with e show "header_ok q = header_ok p"
    by (simp add: header_ok_def be16_at_def)
  with * e show "checksum_at q = checksum_at p" "has_transport pr q = has_transport pr p"
    by (simp_all add: checksum_at_def has_transport_def)
qed


definition with_ip_checksum :: "byte list \<Rightarrow> byte list" where
  "with_ip_checksum p =
     patch p 10 (to_be16 (checksum (take (header_len_of p) (patch p 10 [0, 0]))))"

definition with_transport_checksum :: "byte list \<Rightarrow> byte list" where
  "with_transport_checksum p =
     (let co = checksum_at p; z = patch p co [0, 0];
          c = transport_checksum (take 4 (drop 12 p)) (take 4 (drop 16 p)) (p ! 9) (segment_of z)
      in patch p co (to_be16 (if p ! 9 = 17 \<and> c = 0 then 0xffff else c)))"

lemma with_ip_checksum_same:
  assumes "header_ok p"
  shows "same_except {10, 11} p (with_ip_checksum p)"
proof -
  have "same_except {10..<10 + 2} p (with_ip_checksum p)"
    using assms same_except_patch [of 10 "to_be16 w" p for w]
    by (simp add: with_ip_checksum_def header_ok_def)
  then show ?thesis by (auto simp: same_except_def)
qed

lemma with_transport_checksum_same:
  assumes "checksum_at p + 2 \<le> length p"
  shows "same_except {checksum_at p, checksum_at p + 1} p (with_transport_checksum p)"
proof -
  have "same_except {checksum_at p..<checksum_at p + 2} p (with_transport_checksum p)"
    using assms same_except_patch [of "checksum_at p" "to_be16 w" p for w]
    by (simp add: with_transport_checksum_def Let_def)
  then show ?thesis by (auto simp: same_except_def)
qed

lemma with_ip_checksum_ok:
  assumes "header_ok p"
  shows "ip_checksum_ok (with_ip_checksum p)"
proof -
  define h where "h = take (header_len_of p) p"
  have len: "length h = header_len_of p" "12 \<le> length h" "length h \<le> 60"
    using assms header_len_even [of p] by (auto simp: h_def header_ok_def)
  have "header_len_of (with_ip_checksum p) = header_len_of p"
    by (rule header_same [OF with_ip_checksum_same]) (use assms in \<open>auto simp: header_ok_def\<close>)
  moreover have "take (header_len_of p) (with_ip_checksum p) = patch h 10 (to_be16 (checksum (patch h 10 [0, 0])))"
    using len assms by (simp add: with_ip_checksum_def take_patch header_ok_def flip: h_def)
  moreover have "checksum (patch h 10 (to_be16 (checksum (patch h 10 [0, 0])))) = 0"
    using len by (intro checksum_verifies) simp_all
  ultimately show ?thesis by (simp add: ip_checksum_ok_def)
qed

lemma patch_be16_at: "a + 2 \<le> length p \<Longrightarrow> patch p a (to_be16 (be16_at p a)) = p"
  by (rule nth_equalityI) (auto simp: be16.enc_rd nth_patch)

lemma patch_be16_fixed: "a + 2 \<le> length p \<Longrightarrow> patch p a (to_be16 w) = p \<longleftrightarrow> w = be16_at p a"
  by (metis be16.rd_patch_same length_to_be16 patch_be16_at)

lemma with_ip_checksum_fixed:
  assumes "header_ok p"
  shows "with_ip_checksum p = p \<longleftrightarrow> ip_checksum_ok p \<and> be16_at p 10 \<noteq> 0xffff"
proof -
  define h where "h = take (header_len_of p) p"
  define c where "c = checksum (patch h 10 [0, 0])"
  have len: "length h = header_len_of p" "12 \<le> length h" "length h \<le> 60" "12 \<le> length p"
    "header_len_of p \<le> length p"
    using assms header_len_even [of p] by (auto simp: h_def header_ok_def)
  have z: "take (header_len_of p) (patch p 10 ys) = patch h 10 ys" if "length ys = 2" for ys
    using that len by (simp add: take_patch flip: h_def)
  have "with_ip_checksum p = patch p 10 (to_be16 c)"
    using z [of "[0, 0]"] by (simp add: with_ip_checksum_def c_def)
  then have fixed: "with_ip_checksum p = p \<longleftrightarrow> c = be16_at p 10" using len by (simp add: patch_be16_fixed)
  have h: "h = patch h 10 (to_be16 (be16_at p 10))"
    using z [of "to_be16 (be16_at p 10)"] len by (simp add: patch_be16_at flip: h_def)
  have "patch h 10 [0, 0] ! 0 \<noteq> 0" using assms len by (auto simp: nth_patch h_def header_ok_def)
  then have "c \<noteq> 0xffff" unfolding c_def using len by (intro checksum_not_full [of 0]) auto
  moreover have "ip_checksum_ok p \<longleftrightarrow> checksum (patch h 10 (to_be16 (be16_at p 10))) = 0"
    using h by (simp add: ip_checksum_ok_def h_def)
  moreover have "\<dots> \<longleftrightarrow> be16_at p 10 = c \<or> c = 0 \<and> be16_at p 10 = 0xffff"
    using checksum_unique [of 10 h "be16_at p 10"] checksum_verifies [of 10 h "be16_at p 10"] len
    by (auto simp: c_def)
  ultimately show ?thesis using fixed by auto
qed

lemma transport_checksum_patched:
  assumes t: "has_transport pr p" and inside: "checksum_at p + 2 \<le> total_len_of p"
  shows "\<exists>xs a. even a \<and> a + 2 \<le> length xs \<and> length xs \<le> 131072 \<and> 9 < a \<and> xs ! 9 = p ! 9 \<and>
    (\<forall>ys. length ys = 2 \<longrightarrow>
       transport_checksum (take 4 (drop 12 p)) (take 4 (drop 16 p)) (p ! 9)
         (segment_of (patch p (checksum_at p) ys)) = checksum (patch xs a ys))"
proof -
  define co hl where "co = checksum_at p" and "hl = header_len_of p"
  have b: "hl \<le> co" "even co" "even hl" "co + 2 \<le> length p" "20 \<le> co"
    using checksum_at_bounds [OF t] header_len_even [of p] by (simp_all add: co_def hl_def)
  have h: "header_ok p" using t by (simp add: has_transport_def)
  define s where "s = segment_of p"
  have slen: "length s = total_len_of p - hl" "length s < 65536"
    using h total_len_le [of p] by (auto simp: s_def segment_of_def hl_def header_ok_def)
  define pre where "pre = take 4 (drop 12 p) @ take 4 (drop 16 p) @ [0] @ [p ! 9] @
    to_be16 (word_of_nat (length s))"
  have pre: "length pre = 12" using header_ok_len(1) [OF h] by (simp add: pre_def)
  have "(pre @ s) ! 9 = p ! 9" using header_ok_len(1) [OF h] by (simp add: pre_def nth_append)
  moreover have "transport_checksum (take 4 (drop 12 p)) (take 4 (drop 16 p)) (p ! 9)
      (segment_of (patch p co ys)) = checksum (patch (pre @ s) (12 + (co - hl)) ys)" if "length ys = 2" for ys
  proof -
    have hz: "header_len_of (patch p co ys) = hl" "total_len_of (patch p co ys) = total_len_of p"
      using header_same [OF same_except_patch [of co ys p]] b h that
      unfolding hl_def by (auto simp: header_ok_def)
    have "co - hl + length ys \<le> total_len_of p - hl" "co \<le> length p"
      "total_len_of p - hl \<le> length (drop hl p)"
      using that b inside header_ok_len [OF h] by (simp_all add: co_def)
    then have "segment_of (patch p co ys) = patch s (co - hl) ys"
      using b by (simp add: drop_patch take_patch s_def segment_of_def hz hl_def)
    moreover have "length (patch s (co - hl) ys) = length s"
      using that b inside slen by (intro length_patch) (simp add: co_def)
    ultimately show ?thesis
      using that pre by (simp add: transport_checksum_def patch_append [of pre, unfolded pre]) (simp add: pre_def)
  qed
  ultimately show ?thesis
    using b inside pre slen header_ok_len [OF h]
    by (intro exI [of _ "pre @ s"] exI [of _ "12 + (co - hl)"] conjI; simp add: co_def; linarith)
qed

lemma with_transport_checksum_ok:
  assumes t: "has_transport pr p" and inside: "checksum_at p + 2 \<le> total_len_of p"
  shows "transport_checksum_ok (with_transport_checksum p)"
proof -
  define q co where "q = with_transport_checksum p" and "co = checksum_at p"
  note b = checksum_at_bounds [OF t, folded co_def]
  obtain xs a where x: "even a" "a + 2 \<le> length xs" "length xs \<le> 131072" and
    tc: "\<forall>ys. length ys = 2 \<longrightarrow>
      transport_checksum (take 4 (drop 12 p)) (take 4 (drop 16 p)) (p ! 9)
         (segment_of (patch p co ys)) = checksum (patch xs a ys)"
    using transport_checksum_patched [OF assms] unfolding co_def by blast
  define w where "w = (let c = checksum (patch xs a [0, 0]) in if p ! 9 = 17 \<and> c = 0 then 0xffff else c)"
  have q: "q = patch p co (to_be16 w)"
    by (simp add: q_def with_transport_checksum_def w_def Let_def tc flip: co_def)
  have "q ! 9 = p ! 9" using b by (simp add: q nth_patch)
  moreover have "take 4 (drop i q) = take 4 (drop i p)" if "i \<le> 16" for i
    using that b by (simp add: q drop_patch take_patch_before)
  moreover have "checksum (patch xs a (to_be16 w)) = 0"
    using x by (intro checksum_verifies) (auto simp: w_def Let_def)
  ultimately show ?thesis
    by (simp add: transport_checksum_ok_def flip: q_def) (simp add: q tc)
qed

lemma with_transport_checksum_fixed:
  assumes t: "has_transport pr p" and inside: "checksum_at p + 2 \<le> total_len_of p"
  shows "with_transport_checksum p = p \<longleftrightarrow>
    transport_checksum_ok p \<and> be16_at p (checksum_at p) \<noteq> (if p ! 9 = 17 then 0 else 0xffff)"
proof -
  define co where "co = checksum_at p"
  have p: "patch p co (to_be16 (be16_at p co)) = p"
    using checksum_at_bounds [OF t] by (simp add: patch_be16_at co_def)
  have p9: "p ! 9 = 6 \<or> p ! 9 = 17" using t by (auto simp: has_transport_def protocol_of_def split: if_splits)
  obtain xs a where x: "even a" "a + 2 \<le> length xs" "length xs \<le> 131072" "9 < a" "xs ! 9 = p ! 9" and
    tc: "\<forall>ys. length ys = 2 \<longrightarrow>
      transport_checksum (take 4 (drop 12 p)) (take 4 (drop 16 p)) (p ! 9)
         (segment_of (patch p co ys)) = checksum (patch xs a ys)"
    using transport_checksum_patched [OF assms] unfolding co_def by blast
  define c where "c = checksum (patch xs a [0, 0])"
  have "with_transport_checksum p = patch p co (to_be16 (if p ! 9 = 17 \<and> c = 0 then 0xffff else c))"
    by (simp add: with_transport_checksum_def Let_def tc c_def flip: co_def)
  then have fixed: "with_transport_checksum p = p \<longleftrightarrow>
      be16_at p co = (if p ! 9 = 17 \<and> c = 0 then 0xffff else c)"
    using checksum_at_bounds [OF t] by (auto simp: patch_be16_fixed co_def)
  have "patch xs a [0, 0] ! 9 \<noteq> 0" using x p9 by (auto simp: nth_patch)
  then have "c \<noteq> 0xffff" unfolding c_def using x by (intro checksum_not_full [of 9]) auto
  moreover have "transport_checksum_ok p \<longleftrightarrow> checksum (patch xs a (to_be16 (be16_at p co))) = 0"
    using tc [rule_format, of "to_be16 (be16_at p co)"] by (simp add: transport_checksum_ok_def p)
  moreover have "\<dots> \<longleftrightarrow> be16_at p co = c \<or> c = 0 \<and> be16_at p co = 0xffff"
    using checksum_unique [of a xs "be16_at p co"] checksum_verifies [of a xs "be16_at p co"] x
    by (auto simp: c_def)
  ultimately show ?thesis using fixed by (auto simp flip: co_def)
qed

lemma recalculate_eq:
  assumes t: "has_transport pr p"
  shows "recalculate_ipv4_checksums p =
     Ok (Some (), with_transport_checksum (with_ip_checksum p))"
proof -
  have h: "header_ok p" and l: "20 \<le> length p" using t by (auto simp: has_transport_def header_ok_def)
  define q where "q = with_ip_checksum p"
  note hs = header_same [OF with_ip_checksum_same [OF h] l, simplified, folded q_def]
  have tq: "has_transport pr q" using hs(6) t by blast
  note b = checksum_at_bounds [OF tq] header_ok_len [of q] same_except_len [OF with_ip_checksum_same [OF h], folded q_def]
  have p9: "p ! 9 = 6 \<or> p ! 9 = 17" using t by (auto simp: has_transport_def protocol_of_def split: if_splits)
  have hq: "header_ok q" using tq by (simp add: has_transport_def)
  have z: "header_len_of (patch q (checksum_at q) [0, 0]) = header_len_of q"
    "total_len_of (patch q (checksum_at q) [0, 0]) = total_len_of q"
    using header_same [OF same_except_patch [of "checksum_at q" "[0, 0]" q]] b hq by auto
  have q1: "patch p 10 (to_be16 (checksum (take (header_len_of p) (patch p 10 [0, 0])))) = q"
    by (simp add: q_def with_ip_checksum_def)
  have hl: "header_len_of p \<le> length p" using header_ok_len [OF h] by simp
  from p9 have "checksum_at p = (if p ! 9 = 6 then header_len_of p + 16 else header_len_of p + 6)"
    by (auto simp: checksum_at_def)
  with p9 show ?thesis
    using l hl b hq z
    by (elim disjE) (simp_all add: recalculate_ipv4_checksums_def parse_header_eq h question_def Let_def q1
        with_transport_checksum_def segment_of_def patch_patch hs drop_patch take_patch_before
        flip: q_def)
qed


text \<open>The packet with both checksums recomputed.\<close>

definition finish :: "byte list \<Rightarrow> byte list" where
  "finish p = with_transport_checksum (with_ip_checksum p)"

lemma has_transport_len:
  assumes "has_transport pr p"
  shows "header_ok p" "20 \<le> length p" "20 \<le> header_len_of p" "header_len_of p + 8 \<le> length p"
    "header_len_of p + 4 \<le> checksum_at p"
  using assms by (auto simp: has_transport_def header_ok_def min_transport_len_def checksum_at_def
      split: transport_protocol.splits)

lemma with_ip_checksum_header:
  assumes "header_ok p"
  shows "header_len_of (with_ip_checksum p) = header_len_of p"
    "total_len_of (with_ip_checksum p) = total_len_of p"
    "header_ok (with_ip_checksum p)" "with_ip_checksum p ! 9 = p ! 9"
    "checksum_at (with_ip_checksum p) = checksum_at p"
    "has_transport pr (with_ip_checksum p) = has_transport pr p"
    "length (with_ip_checksum p) = length p"
  using header_same [OF with_ip_checksum_same [OF assms]] same_except_len [OF with_ip_checksum_same [OF assms]]
    assms header_ok_len(1) [OF assms] by auto

lemma finish_same:
  assumes "has_transport pr p"
  shows "same_except {10, 11, checksum_at p, checksum_at p + 1} p (finish p)"
proof -
  have h: "header_ok p" using assms by (simp add: has_transport_def)
  have "same_except {checksum_at p, checksum_at p + 1} (with_ip_checksum p) (finish p)"
    using with_transport_checksum_same [of "with_ip_checksum p"] checksum_at_bounds [OF assms]
    by (simp add: finish_def with_ip_checksum_header [OF h])
  then show ?thesis
    by (rule same_except_trans [OF with_ip_checksum_same [OF h]]) auto
qed

lemma finish_header:
  assumes "has_transport pr p"
  shows "header_len_of (finish p) = header_len_of p" "total_len_of (finish p) = total_len_of p"
    "has_transport pr' (finish p) = has_transport pr' p" "finish p ! 9 = p ! 9"
    "checksum_at (finish p) = checksum_at p" "length (finish p) = length p"
  using header_same [OF finish_same [OF assms]] same_except_len [OF finish_same [OF assms]]
    has_transport_len [OF assms] checksum_at_bounds [OF assms] by auto

lemma finish_fields:
  assumes t: "has_transport pr p"
  shows "ipv4_at (finish p) 12 = ipv4_at p 12" "ipv4_at (finish p) 16 = ipv4_at p 16"
    "be16_at (finish p) (header_len_of p) = be16_at p (header_len_of p)"
    "be16_at (finish p) (header_len_of p + 2) = be16_at p (header_len_of p + 2)"
  using has_transport_len [OF t] checksum_at_bounds [OF t]
  by (auto intro!: ipv4.rd_same_except [OF finish_same [OF t]] be16.rd_same_except [OF finish_same [OF t]])

lemma finish_checksums:
  assumes t: "has_transport pr p"
  shows "ip_checksum_ok (finish p)"
    "checksum_at p + 2 \<le> total_len_of p \<Longrightarrow> transport_checksum_ok (finish p)"
proof -
  have h: "header_ok p" using t by (simp add: has_transport_def)
  let ?q = "with_ip_checksum p"
  note hh = with_ip_checksum_header [OF h]
  have "take (header_len_of p) (finish p) = take (header_len_of p) ?q"
    using checksum_at_bounds [OF t]
    by (simp add: finish_def with_transport_checksum_def Let_def hh take_patch_before)
  then show "ip_checksum_ok (finish p)"
    using with_ip_checksum_ok [OF h] by (simp add: ip_checksum_ok_def hh finish_header [OF t])
  show "checksum_at p + 2 \<le> total_len_of p \<Longrightarrow> transport_checksum_ok (finish p)"
    using with_transport_checksum_ok [of pr ?q] t by (simp add: finish_def hh)
qed

lemma finish_fixed:
  assumes t: "has_transport pr p" and inside: "checksum_at p + 2 \<le> total_len_of p"
  shows "finish p = p \<longleftrightarrow>
    ip_checksum_ok p \<and> transport_checksum_ok p \<and> be16_at p 10 \<noteq> 0xffff \<and>
    be16_at p (checksum_at p) \<noteq> (if p ! 9 = 17 then 0 else 0xffff)"
proof -
  have h: "header_ok p" using t by (simp add: has_transport_def)
  let ?q = "with_ip_checksum p"
  have "?q = p" if "finish p = p"
  proof (rule nth_equalityI)
    fix i assume "i < length ?q"
    then show "?q ! i = p ! i"
      using that with_ip_checksum_same [OF h] with_transport_checksum_same [of ?q]
        checksum_at_bounds [OF t] has_transport_len [OF t]
      by (cases "i \<in> {10, 11}")
        (auto simp: same_except_def finish_def with_ip_checksum_header [OF h])
  qed (simp add: with_ip_checksum_header [OF h])
  then have "finish p = p \<longleftrightarrow> ?q = p \<and> with_transport_checksum p = p"
    by (auto simp: finish_def)
  then show ?thesis
    by (auto simp: with_ip_checksum_fixed [OF h] with_transport_checksum_fixed [OF assms])
qed

text \<open>Recomputing depends on no byte of the two checksum fields.\<close>

lemma finish_cong:
  assumes t: "has_transport pr p"
    and same: "same_except {10, 11, checksum_at p, checksum_at p + 1} p q"
  shows "finish q = finish p"
proof -
  define hl co where "hl = header_len_of p" and "co = checksum_at p"
  have h: "header_ok p" using t by (simp add: has_transport_def)
  have b: "20 \<le> hl" "hl + 4 \<le> co" "co + 2 \<le> length p"
    using has_transport_len [OF t] checksum_at_bounds [OF t] by (simp_all add: hl_def co_def)
  have hs: "header_len_of q = hl" "checksum_at q = co" "has_transport pr q" "q ! 9 = p ! 9"
      "total_len_of q = total_len_of p"
    using header_same [OF same] b t by (auto simp: hl_def co_def)
  then have hq: "header_ok q" by (simp add: has_transport_def)
  have len: "length q = length p" using same by (simp add: same_except_len)
  have "take hl (patch q 10 [0, 0]) = take hl (patch p 10 [0, 0])"
    using b len same by (intro nth_equalityI) (auto simp: same_except_def nth_patch hl_def co_def)
  then have ip: "with_ip_checksum q = patch q 10 w" "with_ip_checksum p = patch p 10 w"
    if "w = to_be16 (checksum (take hl (patch p 10 [0, 0])))" for w
    using that by (simp_all add: with_ip_checksum_def hs hl_def)
  obtain w where w: "with_ip_checksum q = patch q 10 w" "with_ip_checksum p = patch p 10 w" "length w = 2"
    using ip by simp
  have *: "same_except {co, co + 1} (with_ip_checksum p) (with_ip_checksum q)"
    using same b len w by (auto simp: same_except_def nth_patch co_def)
  then have "patch (with_ip_checksum q) co z = patch (with_ip_checksum p) co z" if "length z = 2" for z
    using that b w by (intro patch_cong_same) (auto simp: same_except_def)
  moreover have "take 4 (drop i (with_ip_checksum q)) = take 4 (drop i (with_ip_checksum p))" if "i \<le> 16" for i
    using that b * w len by (intro nth_equalityI) (auto simp: same_except_def)
  ultimately show ?thesis
    by (simp add: finish_def with_transport_checksum_def Let_def with_ip_checksum_header [OF h]
        with_ip_checksum_header [OF hq] hs segment_of_def flip: co_def cong: if_cong split del: if_split)
qed


lemma parse_meta_Ok:
  "parse_ipv4_packet_meta p = Ok m \<longleftrightarrow>
     has_transport (pm_protocol m) p \<and>
     m = \<lparr>pm_protocol = pm_protocol m,
          pm_src_ip = V4 (ipv4_at p 12), pm_src_port = be16_at p (header_len_of p),
          pm_dst_ip = V4 (ipv4_at p 16), pm_dst_port = be16_at p (header_len_of p + 2)\<rparr>"
  by (auto simp: parse_meta_eq has_transport_def split: option.splits)

lemma parse_meta_Err: "parse_ipv4_packet_meta p = Err () \<longleftrightarrow> (\<forall>pr. \<not> has_transport pr p)"
  by (auto simp: parse_meta_eq has_transport_def split: option.splits)

text \<open>Both rewrites are this one, at the destination (16, 2) or the source (12, 0).\<close>

definition readdress :: "nat \<Rightarrow> nat \<Rightarrow> ipv4addr \<Rightarrow> u16 \<Rightarrow> byte list \<Rightarrow> byte list" where
  "readdress a off ip port p = patch (patch p a (octets ip)) (header_len_of p + off) (to_be16 port)"

lemma readdress_same:
  assumes "has_transport pr p" "a + 4 \<le> 20" "off \<le> 2"
  shows "same_except ({a..<a + 4} \<union> {header_len_of p + off, header_len_of p + off + 1}) p
           (readdress a off ip port p)"
proof -
  note l = has_transport_len [OF assms(1)]
  have "same_except {a..<a + 4} p (patch p a (octets ip))"
    using same_except_patch [of a "octets ip" p] l assms by simp
  moreover have "same_except {header_len_of p + off..<header_len_of p + off + 2}
      (patch p a (octets ip)) (readdress a off ip port p)"
    using same_except_patch [of "header_len_of p + off" "to_be16 port" "patch p a (octets ip)"] l assms
    by (simp add: readdress_def)
  ultimately show ?thesis by (rule same_except_trans) auto
qed

lemma readdress_header:
  assumes "has_transport pr p" "12 \<le> a" "a + 4 \<le> 20" "off \<le> 2"
  shows "header_len_of (readdress a off ip port p) = header_len_of p"
    "total_len_of (readdress a off ip port p) = total_len_of p"
    "checksum_at (readdress a off ip port p) = checksum_at p"
    "has_transport pr' (readdress a off ip port p) = has_transport pr' p"
    "readdress a off ip port p ! 9 = p ! 9"
    "length (readdress a off ip port p) = length p"
  using header_same [OF readdress_same [OF assms(1,3,4)]] same_except_len [OF readdress_same [OF assms(1,3,4)]]
    has_transport_len [OF assms(1)] assms by auto

lemma finish_readdress_same:
  assumes t: "has_transport pr p" and "12 \<le> a" "a + 4 \<le> 20" "off \<le> 2"
  shows "same_except ({10, 11} \<union> {checksum_at p, checksum_at p + 1} \<union> {a..<a + 4} \<union>
            {header_len_of p + off, header_len_of p + off + 1}) p
           (finish (readdress a off ip port p))"
  by (rule same_except_trans [OF readdress_same [OF t] finish_same [of pr]])
    (use assms in \<open>auto simp: readdress_header\<close>)

lemma readdress_fields:
  assumes t: "has_transport pr p" and a: "(a, off) = (16, 2) \<or> (a, off) = (12, 0)"
  shows "ipv4_at (readdress a off ip port p) a = ip"
    "be16_at (readdress a off ip port p) (header_len_of p + off) = port"
    "ipv4_at (readdress a off ip port p) (28 - a) = ipv4_at p (28 - a)"
    "be16_at (readdress a off ip port p) (header_len_of p + (2 - off)) = be16_at p (header_len_of p + (2 - off))"
  using a has_transport_len [OF t]
  by (auto simp: readdress_def ipv4.rd_patch_other ipv4.rd_patch_same be16.rd_patch_other
      be16.rd_patch_same)

lemma rewrite_none:
  assumes "\<forall>pr. \<not> has_transport pr p"
  shows "rewrite_destination p (V4 ip) port = Ok (None, p)" "rewrite_source p (V4 ip) port = Ok (None, p)"
  using assms
  by (auto simp: rewrite_destination_def rewrite_source_def parse_header_eq parse_transport_eq
      question_def has_transport_def split: option.split res.split)

lemma rewrite_eq:
  assumes t: "has_transport pr p"
  shows "rewrite_destination p (V4 ip) port = Ok (Some (), finish (readdress 16 2 ip port p))"
    "rewrite_source p (V4 ip) port = Ok (Some (), finish (readdress 12 0 ip port p))"
proof -
  note l = has_transport_len [OF t]
  have r: "recalculate_ipv4_checksums (readdress a off ip port p) = Ok (Some (), finish (readdress a off ip port p))"
    if "(a, off) = (16, 2) \<or> (a, off) = (12, 0)" for a off
    using that t recalculate_eq [of pr "readdress a off ip port p"]
    by (auto simp: readdress_header [OF t] finish_def)
  show "rewrite_destination p (V4 ip) port = Ok (Some (), finish (readdress 16 2 ip port p))"
    using t l r [of 16 2]
    by (simp add: rewrite_destination_def parse_header_eq parse_transport_eq question_def
        has_transport_def readdress_def)
  show "rewrite_source p (V4 ip) port = Ok (Some (), finish (readdress 12 0 ip port p))"
    using t l r [of 12 0]
    by (simp add: rewrite_source_def parse_header_eq parse_transport_eq question_def
        has_transport_def readdress_def)
qed

lemma rewrite_no_panic [panic_free]:
  "rewrite_destination p ip port \<noteq> Panic" "rewrite_source p ip port \<noteq> Panic"
proof -
  have "rewrite_destination p ip port \<noteq> Panic \<and> rewrite_source p ip port \<noteq> Panic"
  proof (cases ip)
    case (V4 i)
    then show ?thesis
      by (cases "\<exists>pr. has_transport pr p") (auto simp: rewrite_none rewrite_eq)
  qed (simp add: rewrite_destination_def rewrite_source_def)
  then show "rewrite_destination p ip port \<noteq> Panic" "rewrite_source p ip port \<noteq> Panic" by auto
qed

text \<open>Readdressing to what was there undoes a readdressing, up to the two checksums, which are
  computed afresh.\<close>

lemma finish_readdress_back:
  assumes t: "has_transport pr p" and a: "(a, off) = (16, 2) \<or> (a, off) = (12, 0)"
  shows "finish (readdress a off (ipv4_at p a) (be16_at p (header_len_of p + off))
           (finish (readdress a off ip port p))) = finish p"
proof -
  let ?q = "finish (readdress a off ip port p)"
  let ?r = "readdress a off (ipv4_at p a) (be16_at p (header_len_of p + off)) ?q"
  define hl where "hl = header_len_of p"
  have b: "12 \<le> a" "a + 4 \<le> 20" "off \<le> 2" using a by auto
  note l = has_transport_len [OF t, folded hl_def]
  have t1: "has_transport pr (readdress a off ip port p)" using readdress_header [OF t b] t by blast
  have q: "header_len_of ?q = hl" "has_transport pr ?q" "length ?q = length p"
    using finish_header [OF t1] readdress_header [OF t b] t by (simp_all add: hl_def)
  let ?F = "{10, 11, checksum_at p, checksum_at p + 1}"
  have "?r ! i = p ! i" if i: "i < length p" "i \<notin> ?F" for i
  proof (cases "a \<le> i \<and> i < a + 4")
    case True
    have "octets (ipv4_at p a) ! (i - a) = p ! i"
      using True l b nth_field [of a i 4 p] by (simp add: ipv4.enc_rd)
    with True l b i q show ?thesis by (simp add: readdress_def nth_patch)
  next
    case False
    show ?thesis
    proof (cases "hl + off \<le> i \<and> i < hl + off + 2")
      case True
      have "to_be16 (be16_at p (hl + off)) ! (i - (hl + off)) = p ! i"
        using True l b nth_field [of "hl + off" i 2 p] by (simp add: be16.enc_rd)
      with True l b i q show ?thesis by (simp add: readdress_def nth_patch flip: hl_def)
    next
      case no: False
      have "?r ! i = ?q ! i" using readdress_same [OF q(2) b(2,3)] False no i q
        by (auto simp: same_except_def)
      also have "\<dots> = p ! i"
        using finish_readdress_same [OF t b] i False no by (auto simp: same_except_def hl_def)
      finally show ?thesis .
    qed
  qed
  then have "same_except ?F p ?r"
    using readdress_header(6) [OF q(2) b] q by (simp add: same_except_def)
  then show ?thesis using finish_cong [OF t] by simp
qed


lemma rewritten_destination:
  assumes "parse_ipv4_packet_meta p = Ok m"
  shows "\<exists>q. rewrite_destination p (V4 ip) port = Ok (Some (), q) \<and>
     parse_ipv4_packet_meta q = Ok (m\<lparr>pm_dst_ip := V4 ip, pm_dst_port := port\<rparr>) \<and>
     ip_checksum_ok q \<and>
     (checksum_at p + 2 \<le> total_len_of p \<longrightarrow> transport_checksum_ok q) \<and>
     same_except ({10, 11} \<union> {checksum_at p, checksum_at p + 1} \<union> {16..<20} \<union>
       {header_len_of p + 2, header_len_of p + 3}) p q"
proof (intro exI conjI impI)
  let ?r = "readdress 16 2 ip port p" and ?q = "finish (readdress 16 2 ip port p)"
  have t: "has_transport (pm_protocol m) p" and
    m: "m = \<lparr>pm_protocol = pm_protocol m,
          pm_src_ip = V4 (ipv4_at p 12), pm_src_port = be16_at p (header_len_of p),
          pm_dst_ip = V4 (ipv4_at p 16), pm_dst_port = be16_at p (header_len_of p + 2)\<rparr>"
    using assms by (simp_all add: parse_meta_Ok)
  note rh = readdress_header [OF t, of 16 2, simplified] and
    rf = readdress_fields [OF t, of 16 2, simplified]
  have tr: "has_transport (pm_protocol m) ?r" using rh t by simp
  show "rewrite_destination p (V4 ip) port = Ok (Some (), ?q)" by (rule rewrite_eq [OF t])
  show "parse_ipv4_packet_meta ?q = Ok (m\<lparr>pm_dst_ip := V4 ip, pm_dst_port := port\<rparr>)"
    using tr finish_fields [OF tr]
    by (subst parse_meta_Ok, subst (1 2 3) m) (simp add: finish_header [OF tr] rh rf)
  show "ip_checksum_ok ?q" by (rule finish_checksums [OF tr])
  show "transport_checksum_ok ?q" if "checksum_at p + 2 \<le> total_len_of p"
    using that by (intro finish_checksums [OF tr]) (simp add: rh)
  show "same_except ({10, 11} \<union> {checksum_at p, checksum_at p + 1} \<union> {16..<20} \<union>
       {header_len_of p + 2, header_len_of p + 3}) p ?q"
    using finish_readdress_same [OF t, of 16 2] by (simp add: numeral_3_eq_3)
qed

lemma rewritten_source:
  assumes "parse_ipv4_packet_meta p = Ok m"
  shows "\<exists>q. rewrite_source p (V4 ip) port = Ok (Some (), q) \<and>
     parse_ipv4_packet_meta q = Ok (m\<lparr>pm_src_ip := V4 ip, pm_src_port := port\<rparr>) \<and>
     ip_checksum_ok q \<and>
     (checksum_at p + 2 \<le> total_len_of p \<longrightarrow> transport_checksum_ok q) \<and>
     same_except ({10, 11} \<union> {checksum_at p, checksum_at p + 1} \<union> {12..<16} \<union>
       {header_len_of p, header_len_of p + 1}) p q"
proof (intro exI conjI impI)
  let ?r = "readdress 12 0 ip port p" and ?q = "finish (readdress 12 0 ip port p)"
  have t: "has_transport (pm_protocol m) p" and
    m: "m = \<lparr>pm_protocol = pm_protocol m,
          pm_src_ip = V4 (ipv4_at p 12), pm_src_port = be16_at p (header_len_of p),
          pm_dst_ip = V4 (ipv4_at p 16), pm_dst_port = be16_at p (header_len_of p + 2)\<rparr>"
    using assms by (simp_all add: parse_meta_Ok)
  note rh = readdress_header [OF t, of 12 0, simplified] and
    rf = readdress_fields [OF t, of 12 0, simplified]
  have tr: "has_transport (pm_protocol m) ?r" using rh t by simp
  show "rewrite_source p (V4 ip) port = Ok (Some (), ?q)" by (rule rewrite_eq [OF t])
  show "parse_ipv4_packet_meta ?q = Ok (m\<lparr>pm_src_ip := V4 ip, pm_src_port := port\<rparr>)"
    using tr finish_fields [OF tr]
    by (subst parse_meta_Ok, subst (1 2 3) m) (simp add: finish_header [OF tr] rh rf)
  show "ip_checksum_ok ?q" by (rule finish_checksums [OF tr])
  show "transport_checksum_ok ?q" if "checksum_at p + 2 \<le> total_len_of p"
    using that by (intro finish_checksums [OF tr]) (simp add: rh)
  show "same_except ({10, 11} \<union> {checksum_at p, checksum_at p + 1} \<union> {12..<16} \<union>
       {header_len_of p, header_len_of p + 1}) p ?q"
    using finish_readdress_same [OF t, of 12 0] by simp
qed

subsection \<open>Properties\<close>

text \<open>A UDP packet from 192.168.137.20:53001 to 8.8.8.8:53 with valid checksums and one byte
  of data, for the witnesses.\<close>

definition sample_packet :: "byte list" where
  "sample_packet =
     [0x45, 0, 0, 29, 0, 0, 0, 0, 64, 17, 0x21, 0x04, 192, 168, 137, 20, 8, 8, 8, 8,
      0xcf, 0x09, 0, 53, 0, 9, 0x95, 0xd0, 0x41]"

text \<open>C10: Rewriting the destination of a packet the redirector can parse succeeds, and the
  packet it leaves parses to the same source and protocol with the new destination. Its IPv4
  header checksum verifies, its transport checksum verifies when the checksum field lies inside
  the datagram, and no byte but the destination address and port and the two checksums has
  changed.\<close>

theorem rewrite_destination_correct:
  assumes "parse_ipv4_packet_meta p = Ok m"
  shows "\<exists>q. rewrite_destination p (V4 ip) port = Ok (Some (), q) \<and>
     parse_ipv4_packet_meta q = Ok (m\<lparr>pm_dst_ip := V4 ip, pm_dst_port := port\<rparr>) \<and>
     ip_checksum_ok q \<and>
     (checksum_at p + 2 \<le> total_len_of p \<longrightarrow> transport_checksum_ok q) \<and>
     same_except ({10, 11} \<union> {checksum_at p, checksum_at p + 1} \<union> {16..<20} \<union>
       {header_len_of p + 2, header_len_of p + 3}) p q"
  by (rule rewritten_destination [OF assms])

theorem rewrite_destination_correct_witness:
  "\<exists>m q. parse_ipv4_packet_meta sample_packet = Ok m \<and>
     rewrite_destination sample_packet (V4 (Ipv4Addr 10 0 0 1)) 80 = Ok (Some (), q) \<and>
     parse_ipv4_packet_meta q = Ok (m\<lparr>pm_dst_ip := V4 (Ipv4Addr 10 0 0 1), pm_dst_port := 80\<rparr>) \<and>
     transport_checksum_ok q"
proof -
  have "is_ok (parse_ipv4_packet_meta sample_packet)" by code_simp
  then obtain m where m: "parse_ipv4_packet_meta sample_packet = Ok m" by (auto simp: is_ok_iff)
  moreover have "checksum_at sample_packet + 2 \<le> total_len_of sample_packet" by code_simp
  ultimately show ?thesis
    using rewrite_destination_correct [OF m, of "Ipv4Addr 10 0 0 1" 80] by blast
qed

text \<open>Rewriting the source of a packet the redirector can parse succeeds, and the packet
  it leaves parses to the same destination and protocol with the new source, with valid
  checksums and no other byte changed.\<close>

theorem rewrite_source_correct:
  assumes "parse_ipv4_packet_meta p = Ok m"
  shows "\<exists>q. rewrite_source p (V4 ip) port = Ok (Some (), q) \<and>
     parse_ipv4_packet_meta q = Ok (m\<lparr>pm_src_ip := V4 ip, pm_src_port := port\<rparr>) \<and>
     ip_checksum_ok q \<and>
     (checksum_at p + 2 \<le> total_len_of p \<longrightarrow> transport_checksum_ok q) \<and>
     same_except ({10, 11} \<union> {checksum_at p, checksum_at p + 1} \<union> {12..<16} \<union>
       {header_len_of p, header_len_of p + 1}) p q"
  by (rule rewritten_source [OF assms])

theorem rewrite_source_correct_witness:
  "\<exists>m q. parse_ipv4_packet_meta sample_packet = Ok m \<and>
     rewrite_source sample_packet (V4 (Ipv4Addr 10 0 0 1)) 80 = Ok (Some (), q) \<and>
     parse_ipv4_packet_meta q = Ok (m\<lparr>pm_src_ip := V4 (Ipv4Addr 10 0 0 1), pm_src_port := 80\<rparr>) \<and>
     transport_checksum_ok q"
proof -
  have "is_ok (parse_ipv4_packet_meta sample_packet)" by code_simp
  then obtain m where m: "parse_ipv4_packet_meta sample_packet = Ok m" by (auto simp: is_ok_iff)
  moreover have "checksum_at sample_packet + 2 \<le> total_len_of sample_packet" by code_simp
  ultimately show ?thesis
    using rewrite_source_correct [OF m, of "Ipv4Addr 10 0 0 1" 80] by blast
qed

text \<open>C12: The network address translation round trip on the bytes, for every packet the
  redirector can parse: readdressing its destination and then putting back what it said, or the
  same with its source, succeeds and leaves the same packet, which differs from the original at
  most in the two checksum fields, with checksums that verify. When the transport checksum lies
  inside the datagram it is the original byte for byte exactly if the original's checksums
  verified and neither was the other representation of its value (all ones, or for UDP the 0 that
  means no checksum); so a client's packet without a UDP checksum, or with one left to the network
  card, comes back with one.\<close>

theorem rewrite_there_and_back:
  assumes "parse_ipv4_packet_meta p = Ok m"
  shows "\<exists>q r s.
     rewrite_destination p (V4 ip) port = Ok (Some (), q) \<and>
     rewrite_source p (V4 ip') port' = Ok (Some (), r) \<and>
     rewrite_destination q (pm_dst_ip m) (pm_dst_port m) = Ok (Some (), s) \<and>
     rewrite_source r (pm_src_ip m) (pm_src_port m) = Ok (Some (), s) \<and>
     same_except {10, 11, checksum_at p, checksum_at p + 1} p s \<and> ip_checksum_ok s \<and>
     (checksum_at p + 2 \<le> total_len_of p \<longrightarrow>
        transport_checksum_ok s \<and>
        (s = p \<longleftrightarrow> ip_checksum_ok p \<and> transport_checksum_ok p \<and> be16_at p 10 \<noteq> 0xffff \<and>
           be16_at p (checksum_at p) \<noteq> (case pm_protocol m of Udp \<Rightarrow> 0 | Tcp \<Rightarrow> 0xffff)))"
proof (intro exI conjI impI)
  let ?q = "finish (readdress 16 2 ip port p)" and ?r = "finish (readdress 12 0 ip' port' p)"
  have t: "has_transport (pm_protocol m) p" and
    m: "pm_src_ip m = V4 (ipv4_at p 12)" "pm_src_port m = be16_at p (header_len_of p + 0)"
       "pm_dst_ip m = V4 (ipv4_at p 16)" "pm_dst_port m = be16_at p (header_len_of p + 2)"
    using assms by (auto simp: parse_meta_eq has_transport_def split: option.splits if_splits)
  show "rewrite_destination p (V4 ip) port = Ok (Some (), ?q)"
    "rewrite_source p (V4 ip') port' = Ok (Some (), ?r)"
    by (simp_all add: rewrite_eq [OF t])
  have "has_transport (pm_protocol m) ?q" "has_transport (pm_protocol m) ?r"
    using t readdress_header [OF t, of 16 2] readdress_header [OF t, of 12 0]
    by (simp_all add: finish_header [of "pm_protocol m"])
  then show "rewrite_destination ?q (pm_dst_ip m) (pm_dst_port m) = Ok (Some (), finish p)"
    "rewrite_source ?r (pm_src_ip m) (pm_src_port m) = Ok (Some (), finish p)"
    using finish_readdress_back [OF t, of 16 2] finish_readdress_back [OF t, of 12 0]
    by (simp_all add: rewrite_eq m)
  show "same_except {10, 11, checksum_at p, checksum_at p + 1} p (finish p)" by (rule finish_same [OF t])
  show "ip_checksum_ok (finish p)" by (rule finish_checksums [OF t])
  assume inside: "checksum_at p + 2 \<le> total_len_of p"
  then show "transport_checksum_ok (finish p)" by (rule finish_checksums [OF t])
  have "p ! 9 = (case pm_protocol m of Tcp \<Rightarrow> 6 | Udp \<Rightarrow> 17)"
    using t by (simp add: has_transport_def protocol_of_Some)
  then show "finish p = p \<longleftrightarrow> ip_checksum_ok p \<and> transport_checksum_ok p \<and> be16_at p 10 \<noteq> 0xffff \<and>
      be16_at p (checksum_at p) \<noteq> (case pm_protocol m of Udp \<Rightarrow> 0 | Tcp \<Rightarrow> 0xffff)"
    by (simp add: finish_fixed [OF t inside] split: transport_protocol.split)
qed

theorem rewrite_there_and_back_witness:
  "\<exists>m q. parse_ipv4_packet_meta sample_packet = Ok m \<and>
     rewrite_destination sample_packet (V4 (Ipv4Addr 10 0 0 1)) 80 = Ok (Some (), q) \<and>
     rewrite_destination q (pm_dst_ip m) (pm_dst_port m) = Ok (Some (), sample_packet)"
proof -
  have "map_option pm_protocol (ok_value (parse_ipv4_packet_meta sample_packet)) = Some Udp" by code_simp
  then obtain m where m: "parse_ipv4_packet_meta sample_packet = Ok m" "pm_protocol m = Udp" by auto
  have "checksum_at sample_packet + 2 \<le> total_len_of sample_packet \<and>
    ip_checksum_ok sample_packet \<and> transport_checksum_ok sample_packet \<and>
    be16_at sample_packet 10 \<noteq> 0xffff \<and> be16_at sample_packet (checksum_at sample_packet) \<noteq> 0"
    by code_simp
  then show ?thesis
    using rewrite_there_and_back [OF m(1), of "Ipv4Addr 10 0 0 1" 80 "Ipv4Addr 10 0 0 1" 80] m by auto
qed

text \<open>C26: No packet makes the rewriting panic, whatever its bytes and its length: a packet
  that has no unfragmented IPv4 header with a TCP or UDP header after it, and a new address that
  is not IPv4, give no result and leave the buffer as it was.\<close>

theorem rewrite_total:
  "case ip of
     V4 a \<Rightarrow>
       if is_ok (parse_ipv4_packet_meta p)
       then \<exists>q r. rewrite_destination p ip port = Ok (Some (), q) \<and>
              rewrite_source p ip port = Ok (Some (), r)
       else rewrite_destination p ip port = Ok (None, p) \<and> rewrite_source p ip port = Ok (None, p)
   | V6 a \<Rightarrow> rewrite_destination p ip port = Ok (None, p) \<and> rewrite_source p ip port = Ok (None, p)"
proof (cases ip)
  case (V4 i)
  show ?thesis
  proof (cases "\<exists>pr. has_transport pr p")
    case True
    then obtain pr where t: "has_transport pr p" by blast
    then have "is_ok (parse_ipv4_packet_meta p)"
      by (auto simp: parse_meta_eq has_transport_def split: option.split)
    with V4 show ?thesis by (simp add: rewrite_eq [OF t])
  next
    case False
    then have "parse_ipv4_packet_meta p = Err ()" by (simp add: parse_meta_Err)
    with False V4 show ?thesis by (simp add: rewrite_none)
  qed
qed (simp add: rewrite_destination_def rewrite_source_def)

end
