(* ===== verification/Redirector.thy ===== *)
theory Redirector
  imports Packet Hotspot
begin

section \<open>Packet classification and processing (src/src/redirector.rs)\<close>

text \<open>
  The policy decision for one packet, the two packet processors the redirector runs on the
  inbound and the outbound handle, and the filters it opens them with. A processor takes the
  time and the shared flow table and returns the action, the table and the packet buffer as it
  left it. The driver, the worker loop and the life cycle of the redirector are in \<open>Driver\<close>.

  The lemmas say exactly which packets are redirected, dropped or left alone, what a processor
  does to the packet and to the table on every branch, that neither can panic, and that the
  filter bounds are those of the subnet test.
\<close>

subsection \<open>Configuration and decisions\<close>

record redirector_config =
  rc_hotspot :: hotspot_runtime
  rc_ports :: local_ports
  rc_policy :: transparent_policy

datatype bypass_reason =
  NotHotspotClient | GatewayTraffic | UpstreamProxy | PrivateLan | MulticastOrBroadcast
| TcpPolicyDirect | DnsPolicyDirect | UdpNtpDirect

datatype drop_reason = TcpPolicyDrop | DnsPolicyDrop | QuicBlocked | UdpPolicyDrop

datatype redirect_decision =
  Bypass bypass_reason
| RedirectTcp ip_addr u16
| RedirectDns ip_addr u16
| Drop drop_reason

datatype packet_action = Send_packet | Drop_packet

definition is_hotspot_client :: "ipv4_cidr \<Rightarrow> ip_addr \<Rightarrow> bool" where
  "is_hotspot_client subnet ip = (case ip of V4 a \<Rightarrow> cidr_contains subnet a | V6 _ \<Rightarrow> False)"

definition is_multicast_or_broadcast :: "ip_addr \<Rightarrow> bool" where
  "is_multicast_or_broadcast ip =
     (case ip of V4 a \<Rightarrow> is_multicast4 a \<or> a = broadcast4 | V6 a \<Rightarrow> is_multicast6 a)"

definition is_private_lan :: "ip_addr \<Rightarrow> bool" where
  "is_private_lan ip =
     (case ip of
        V4 a \<Rightarrow> is_private4 a \<or> is_loopback4 a \<or> is_link_local4 a \<or> a = broadcast4
                 \<or> octets a ! 0 = 0
      | V6 a \<Rightarrow> is_loopback6 a \<or> is_unicast_link_local6 a)"

definition classify_tcp :: "redirector_config \<Rightarrow> redirect_decision" where
  "classify_tcp config =
     (case pol_tcp (rc_policy config) of
        TcpProxy \<Rightarrow> RedirectTcp (rt_gateway_ip (rc_hotspot config)) (transparent_tcp (rc_ports config))
      | TcpDirect \<Rightarrow> Bypass TcpPolicyDirect
      | TcpDrop \<Rightarrow> Drop TcpPolicyDrop)"

definition classify_dns :: "redirector_config \<Rightarrow> redirect_decision" where
  "classify_dns config =
     (case pol_dns (rc_policy config) of
        DnsProxy \<Rightarrow> RedirectDns (rt_gateway_ip (rc_hotspot config)) (dns_proxy (rc_ports config))
      | DnsDirect \<Rightarrow> Bypass DnsPolicyDirect
      | DnsDrop \<Rightarrow> Drop DnsPolicyDrop)"

definition classify_udp :: "redirector_config \<Rightarrow> packet_meta \<Rightarrow> redirect_decision" where
  "classify_udp config packet =
     (if block_quic_udp_443 (rc_policy config) \<and> pm_dst_port packet = 443
      then Drop QuicBlocked
      else
        case pol_udp (rc_policy config) of
          DnsNtpDirectElseDrop \<Rightarrow>
            if pm_dst_port packet = 123 then Bypass UdpNtpDirect else Drop UdpPolicyDrop
        | UdpDrop \<Rightarrow> Drop UdpPolicyDrop)"

definition classify_packet :: "redirector_config \<Rightarrow> packet_meta \<Rightarrow> redirect_decision" where
  "classify_packet config packet =
     (if \<not> is_hotspot_client (rt_subnet (rc_hotspot config)) (pm_src_ip packet)
      then Bypass NotHotspotClient
      else if pm_dst_port packet = 53 then classify_dns config
      else if pm_dst_ip packet = rt_gateway_ip (rc_hotspot config) then Bypass GatewayTraffic
      else if is_multicast_or_broadcast (pm_dst_ip packet) then Bypass MulticastOrBroadcast
      else if upstream_proxy_ip (rc_policy config) = Some (pm_dst_ip packet) then Bypass UpstreamProxy
      else if bypass_private_lan (rc_policy config) \<and> is_private_lan (pm_dst_ip packet)
      then Bypass PrivateLan
      else
        case pm_protocol packet of
          Tcp \<Rightarrow> classify_tcp config
        | Udp \<Rightarrow> classify_udp config packet)"

subsection \<open>Processing\<close>

type_synonym outcome = "(packet_action \<times> flow_table \<times> byte list, unit) res"

type_synonym processor = "redirector_config \<Rightarrow> instant \<Rightarrow> flow_table \<Rightarrow> byte list \<Rightarrow> outcome"

text \<open>The end of both processors: send if the rewrite succeeded, drop otherwise.\<close>

definition send_if_rewritten :: "flow_table \<Rightarrow> mutation \<Rightarrow> outcome" where
  "send_if_rewritten table m =
     attempt m (\<lambda>(r, packet).
       Ok (if r \<noteq> None then Send_packet else Drop_packet, table, packet))"

definition redirect_to ::
  "instant \<Rightarrow> flow_table \<Rightarrow> packet_meta \<Rightarrow> ip_addr \<Rightarrow> u16 \<Rightarrow> byte list \<Rightarrow> outcome" where
  "redirect_to now table meta local_ip local_port packet =
     send_if_rewritten
       (ft_insert table
          \<lparr>fk_protocol = pm_protocol meta, fk_client_ip = pm_src_ip meta,
           fk_client_port = pm_src_port meta\<rparr>
          (flow_value_new (pm_dst_ip meta) (pm_dst_port meta) local_ip local_port now))
       (rewrite_destination packet local_ip local_port)"

definition process_forward_packet :: processor where
  "process_forward_packet config now table packet =
     (case parse_ipv4_packet_meta packet of
        Panic \<Rightarrow> Panic
      | Err _ \<Rightarrow> Ok (Send_packet, table, packet)
      | Ok meta \<Rightarrow>
          (case classify_packet config meta of
             Bypass _ \<Rightarrow> Ok (Send_packet, table, packet)
           | Drop _ \<Rightarrow> Ok (Drop_packet, table, packet)
           | RedirectTcp local_ip local_port \<Rightarrow>
               redirect_to now table meta local_ip local_port packet
           | RedirectDns local_ip local_port \<Rightarrow>
               redirect_to now table meta local_ip local_port packet))"

definition process_network_packet :: processor where
  "process_network_packet config now table packet =
     (case parse_ipv4_packet_meta packet of
        Panic \<Rightarrow> Panic
      | Err _ \<Rightarrow> Ok (Send_packet, table, packet)
      | Ok meta \<Rightarrow>
          if pm_protocol meta \<noteq> Udp then Ok (Send_packet, table, packet)
          else if pm_src_ip meta \<noteq> rt_gateway_ip (rc_hotspot config)
                  \<or> pm_src_port meta \<noteq> dns_proxy (rc_ports config)
          then Ok (Send_packet, table, packet)
          else
            case pm_dst_ip meta of
              V6 _ \<Rightarrow> Ok (Send_packet, table, packet)
            | V4 dst_ip \<Rightarrow>
                if \<not> cidr_contains (rt_subnet (rc_hotspot config)) dst_ip
                then Ok (Send_packet, table, packet)
                else
                  (case ft_get now table
                          \<lparr>fk_protocol = Udp, fk_client_ip = pm_dst_ip meta,
                           fk_client_port = pm_dst_port meta\<rparr> of
                     (None, table') \<Rightarrow> Ok (Send_packet, table', packet)
                   | (Some flow, table') \<Rightarrow>
                       send_if_rewritten table'
                         (rewrite_source packet (original_dst_ip flow) (original_dst_port flow))))"

subsection \<open>Diagnostics\<close>

text \<open>The \<open>Debug\<close> names and the bounded log: a counter and, below the limit, a line.\<close>

definition datapath_diag_limit :: nat where
  "datapath_diag_limit = 4096"

fun show_protocol :: "transport_protocol \<Rightarrow> str" where
  "show_protocol Tcp = lit ''Tcp''"
| "show_protocol Udp = lit ''Udp''"

fun show_bypass :: "bypass_reason \<Rightarrow> str" where
  "show_bypass NotHotspotClient = lit ''NotHotspotClient''"
| "show_bypass GatewayTraffic = lit ''GatewayTraffic''"
| "show_bypass UpstreamProxy = lit ''UpstreamProxy''"
| "show_bypass PrivateLan = lit ''PrivateLan''"
| "show_bypass MulticastOrBroadcast = lit ''MulticastOrBroadcast''"
| "show_bypass TcpPolicyDirect = lit ''TcpPolicyDirect''"
| "show_bypass DnsPolicyDirect = lit ''DnsPolicyDirect''"
| "show_bypass UdpNtpDirect = lit ''UdpNtpDirect''"

fun show_drop :: "drop_reason \<Rightarrow> str" where
  "show_drop TcpPolicyDrop = lit ''TcpPolicyDrop''"
| "show_drop DnsPolicyDrop = lit ''DnsPolicyDrop''"
| "show_drop QuicBlocked = lit ''QuicBlocked''"
| "show_drop UdpPolicyDrop = lit ''UdpPolicyDrop''"

definition show_host_port :: "ip_addr \<Rightarrow> u16 \<Rightarrow> str" where
  "show_host_port ip port = show_ip ip @ lit '':'' @ show_nat (unat port)"

fun format_decision :: "redirect_decision \<Rightarrow> str" where
  "format_decision (Bypass reason) = lit ''bypass '' @ show_bypass reason"
| "format_decision (Drop reason) = lit ''drop '' @ show_drop reason"
| "format_decision (RedirectTcp ip port) = lit ''redirect tcp to '' @ show_host_port ip port"
| "format_decision (RedirectDns ip port) = lit ''redirect dns to '' @ show_host_port ip port"

definition show_route :: "packet_meta \<Rightarrow> str" where
  "show_route m =
     show_protocol (pm_protocol m) @ lit '' '' @ show_host_port (pm_src_ip m) (pm_src_port m) @
     lit '' -> '' @ show_host_port (pm_dst_ip m) (pm_dst_port m)"

definition log_forward_decision ::
  "nat \<Rightarrow> packet_meta \<Rightarrow> redirect_decision \<Rightarrow> nat \<times> str option" where
  "log_forward_decision line m d =
     (line + 1,
      if datapath_diag_limit \<le> line then None
      else Some (lit ''hproxy datapath forward: '' @ show_route m @ lit '' => '' @ format_decision d))"

definition log_network_packet :: "nat \<Rightarrow> packet_meta \<Rightarrow> nat \<times> str option" where
  "log_network_packet line m =
     (line + 1,
      if datapath_diag_limit \<le> line then None
      else Some (lit ''hproxy datapath network: '' @ show_route m))"

subsection \<open>Filters\<close>

definition cidr_bounds :: "ipv4_cidr \<Rightarrow> ipv4addr \<times> ipv4addr" where
  "cidr_bounds subnet =
     (let prefix_len = min (cidr_prefix_len subnet) 32;
          mask = (if prefix_len = 0 then 0 else push_bit (32 - unat prefix_len) (- 1));
          low = u32_of_ipv4 (cidr_address subnet) AND mask;
          high = low OR NOT mask
      in (ipv4_of_u32 low, ipv4_of_u32 high))"

record windivert_filters =
  f_inbound :: str
  f_network :: str

definition filters_preflight :: "u16 \<Rightarrow> windivert_filters" where
  "filters_preflight dns_proxy_port =
     \<lparr>f_inbound = lit ''inbound and ip and (tcp or udp)'',
      f_network = lit ''outbound and ip and udp and udp.SrcPort == '' @ show_nat (unat dns_proxy_port)\<rparr>"

definition filters_for_hotspot :: "u16 \<Rightarrow> ipv4_cidr \<Rightarrow> windivert_filters" where
  "filters_for_hotspot dns_proxy_port subnet =
     (let (low, high) = cidr_bounds subnet in
      \<lparr>f_inbound =
         lit ''inbound and ip and (tcp or udp) and ip.SrcAddr >= '' @ show_ipv4 low @
         lit '' and ip.SrcAddr <= '' @ show_ipv4 high,
       f_network = lit ''outbound and ip and udp and udp.SrcPort == '' @ show_nat (unat dns_proxy_port)\<rparr>)"


subsection \<open>Which packets are redirected, dropped or left alone\<close>

text \<open>What a client packet to a port other than 53 has to avoid to reach the TCP or UDP policy.\<close>

definition proxied_scope :: "redirector_config \<Rightarrow> packet_meta \<Rightarrow> bool" where
  "proxied_scope c m \<longleftrightarrow>
     is_hotspot_client (rt_subnet (rc_hotspot c)) (pm_src_ip m) \<and> pm_dst_port m \<noteq> 53 \<and>
     pm_dst_ip m \<noteq> rt_gateway_ip (rc_hotspot c) \<and> \<not> is_multicast_or_broadcast (pm_dst_ip m) \<and>
     upstream_proxy_ip (rc_policy c) \<noteq> Some (pm_dst_ip m) \<and>
     \<not> (bypass_private_lan (rc_policy c) \<and> is_private_lan (pm_dst_ip m))"

lemma classify_redirect_tcp:
  "classify_packet c m = RedirectTcp ip port \<longleftrightarrow>
     proxied_scope c m \<and> pm_protocol m = Tcp \<and> pol_tcp (rc_policy c) = TcpProxy \<and>
     ip = rt_gateway_ip (rc_hotspot c) \<and> port = transparent_tcp (rc_ports c)"
  by (auto simp: classify_packet_def proxied_scope_def classify_tcp_def classify_dns_def
      classify_udp_def split: transport_protocol.splits tcp_policy.splits dns_policy.splits
      udp_policy.splits if_splits)

lemma classify_redirect_dns:
  "classify_packet c m = RedirectDns ip port \<longleftrightarrow>
     is_hotspot_client (rt_subnet (rc_hotspot c)) (pm_src_ip m) \<and> pm_dst_port m = 53 \<and>
     pol_dns (rc_policy c) = DnsProxy \<and>
     ip = rt_gateway_ip (rc_hotspot c) \<and> port = dns_proxy (rc_ports c)"
  by (auto simp: classify_packet_def classify_tcp_def classify_dns_def
      classify_udp_def split: transport_protocol.splits tcp_policy.splits dns_policy.splits
      udp_policy.splits if_splits)

lemma classify_drop:
  "classify_packet c m = Drop r \<longleftrightarrow>
     (case r of
        DnsPolicyDrop \<Rightarrow>
          is_hotspot_client (rt_subnet (rc_hotspot c)) (pm_src_ip m) \<and> pm_dst_port m = 53 \<and>
          pol_dns (rc_policy c) = DnsDrop
      | TcpPolicyDrop \<Rightarrow>
          proxied_scope c m \<and> pm_protocol m = Tcp \<and> pol_tcp (rc_policy c) = TcpDrop
      | QuicBlocked \<Rightarrow>
          proxied_scope c m \<and> pm_protocol m = Udp \<and>
          block_quic_udp_443 (rc_policy c) \<and> pm_dst_port m = 443
      | UdpPolicyDrop \<Rightarrow>
          proxied_scope c m \<and> pm_protocol m = Udp \<and>
          \<not> (block_quic_udp_443 (rc_policy c) \<and> pm_dst_port m = 443) \<and>
          \<not> (pol_udp (rc_policy c) = DnsNtpDirectElseDrop \<and> pm_dst_port m = 123))"
  by (cases r) (auto simp: classify_packet_def proxied_scope_def classify_tcp_def classify_dns_def
      classify_udp_def split: transport_protocol.splits tcp_policy.splits dns_policy.splits
      udp_policy.splits if_splits)

subsection \<open>What a processor does\<close>

lemma send_if_rewritten_Ok [simp]:
  "send_if_rewritten t (Ok (r, p)) = Ok (if r \<noteq> None then Send_packet else Drop_packet, t, p)"
  by (simp add: send_if_rewritten_def)

lemma send_if_rewritten_no_panic: "m \<noteq> Panic \<Longrightarrow> send_if_rewritten t m \<noteq> Panic"
  by (cases m) (auto simp: send_if_rewritten_def split: prod.split)

lemma process_forward_no_panic [panic_free]: "process_forward_packet c now t p \<noteq> Panic"
  by (auto simp: process_forward_packet_def redirect_to_def parse_meta_no_panic rewrite_no_panic
      send_if_rewritten_no_panic split: res.split redirect_decision.split)

lemma process_network_no_panic [panic_free]: "process_network_packet c now t p \<noteq> Panic"
  by (auto simp: process_network_packet_def parse_meta_no_panic rewrite_no_panic
      send_if_rewritten_no_panic split: res.split ip_addr.split option.split prod.split)

text \<open>The key a packet's client side has in the flow table, on the way out and on the way back.\<close>

definition client_key :: "packet_meta \<Rightarrow> flow_key" where
  "client_key m = \<lparr>fk_protocol = pm_protocol m, fk_client_ip = pm_src_ip m, fk_client_port = pm_src_port m\<rparr>"

definition reply_key :: "packet_meta \<Rightarrow> flow_key" where
  "reply_key m = \<lparr>fk_protocol = Udp, fk_client_ip = pm_dst_ip m, fk_client_port = pm_dst_port m\<rparr>"

text \<open>The packets that the network processor takes for answers of the DNS proxy.\<close>

definition dns_answer :: "redirector_config \<Rightarrow> packet_meta \<Rightarrow> bool" where
  "dns_answer c m \<longleftrightarrow>
     pm_protocol m = Udp \<and> pm_src_ip m = rt_gateway_ip (rc_hotspot c) \<and>
     pm_src_port m = dns_proxy (rc_ports c) \<and>
     is_hotspot_client (rt_subnet (rc_hotspot c)) (pm_dst_ip m)"

lemma process_network_eq:
  "parse_ipv4_packet_meta p = Ok m \<Longrightarrow>
   process_network_packet c now t p =
     (if dns_answer c m
      then (case fst (ft_get now t (reply_key m)) of
              None \<Rightarrow> Ok (Send_packet, snd (ft_get now t (reply_key m)), p)
            | Some flow \<Rightarrow>
                send_if_rewritten (snd (ft_get now t (reply_key m)))
                  (rewrite_source p (original_dst_ip flow) (original_dst_port flow)))
      else Ok (Send_packet, t, p))"
  by (auto simp: process_network_packet_def dns_answer_def reply_key_def is_hotspot_client_def
      split: prod.split ip_addr.splits option.splits)

subsection \<open>Filter bounds\<close>

lemma cidr_bounds_eq:
  "cidr_bounds c =
     (ipv4_of_u32 (u32_of_ipv4 (cidr_address c) AND cidr_mask (cidr_prefix_len c)),
      ipv4_of_u32 (u32_of_ipv4 (cidr_address c) AND cidr_mask (cidr_prefix_len c)
        OR NOT (cidr_mask (cidr_prefix_len c))))"
proof -
  have u: "unat (min p 32) = min (unat p) 32" for p :: u8
    by (auto simp: min_def word_le_nat_alt)
  then have "min p 32 = 0 \<longleftrightarrow> min (unat p) 32 = 0" for p :: u8
    by (metis unsigned_0 unsigned_eq_0_iff)
  moreover have "min n 32 = 0 \<longleftrightarrow> n = 0" for n :: nat by (simp add: min_def)
  ultimately show ?thesis using u by (simp add: cidr_bounds_def cidr_mask_def Let_def)
qed

lemma cidr_bounds_contains:
  "cidr_bounds c = (low, high) \<Longrightarrow> cidr_contains c ip \<longleftrightarrow> low \<le> ip \<and> ip \<le> high"
  by (auto simp: cidr_bounds_eq contains_iff_range less_eq_ipv4addr_def)


subsection \<open>Properties\<close>

text \<open>C1: The decision for every packet. A packet is redirected to the transparent TCP proxy
  exactly when it is TCP from a hotspot client, not to port 53, not to the gateway, a multicast
  or broadcast address, the upstream proxy or (if these are bypassed) the private LAN, and the
  TCP policy is proxy; to the DNS proxy exactly when it goes from a client to port 53 of any
  address under the DNS proxy policy; it is dropped exactly on the conditions of the four drop
  reasons; everything else is left alone.\<close>

theorem classify_packet_spec:
  "(classify_packet c m = RedirectTcp ip port \<longleftrightarrow>
     proxied_scope c m \<and> pm_protocol m = Tcp \<and> pol_tcp (rc_policy c) = TcpProxy \<and>
     ip = rt_gateway_ip (rc_hotspot c) \<and> port = transparent_tcp (rc_ports c)) \<and>
   (classify_packet c m = RedirectDns ip port \<longleftrightarrow>
     is_hotspot_client (rt_subnet (rc_hotspot c)) (pm_src_ip m) \<and> pm_dst_port m = 53 \<and>
     pol_dns (rc_policy c) = DnsProxy \<and>
     ip = rt_gateway_ip (rc_hotspot c) \<and> port = dns_proxy (rc_ports c)) \<and>
   (classify_packet c m = Drop r \<longleftrightarrow>
     (case r of
        DnsPolicyDrop \<Rightarrow>
          is_hotspot_client (rt_subnet (rc_hotspot c)) (pm_src_ip m) \<and> pm_dst_port m = 53 \<and>
          pol_dns (rc_policy c) = DnsDrop
      | TcpPolicyDrop \<Rightarrow>
          proxied_scope c m \<and> pm_protocol m = Tcp \<and> pol_tcp (rc_policy c) = TcpDrop
      | QuicBlocked \<Rightarrow>
          proxied_scope c m \<and> pm_protocol m = Udp \<and>
          block_quic_udp_443 (rc_policy c) \<and> pm_dst_port m = 443
      | UdpPolicyDrop \<Rightarrow>
          proxied_scope c m \<and> pm_protocol m = Udp \<and>
          \<not> (block_quic_udp_443 (rc_policy c) \<and> pm_dst_port m = 443) \<and>
          \<not> (pol_udp (rc_policy c) = DnsNtpDirectElseDrop \<and> pm_dst_port m = 123)))"
  by (simp only: classify_redirect_tcp classify_redirect_dns classify_drop)

text \<open>A configuration and a client query for the witnesses.\<close>

definition sample_config :: redirector_config where
  "sample_config =
     \<lparr>rc_hotspot = \<lparr>rt_interface_index = 7, rt_gateway_ip = V4 (Ipv4Addr 192 168 137 1),
        rt_subnet = \<lparr>cidr_address = Ipv4Addr 192 168 137 0, cidr_prefix_len = 24\<rparr>\<rparr>,
      rc_ports = \<lparr>transparent_tcp = 15080, dns_proxy = 15053\<rparr>,
      rc_policy = transparent_policy_default\<rparr>"

definition sample_meta :: packet_meta where
  "sample_meta =
     \<lparr>pm_protocol = Udp, pm_src_ip = V4 (Ipv4Addr 192 168 137 20), pm_src_port = 53001,
      pm_dst_ip = V4 (Ipv4Addr 8 8 8 8), pm_dst_port = 53\<rparr>"

text \<open>The DNS proxy's answer to that query, 192.168.137.1:15053 to 192.168.137.20:53001.\<close>

definition sample_answer :: "byte list" where
  "sample_answer =
     [0x45, 0, 0, 29, 0, 0, 0, 0, 64, 17, 0, 0, 192, 168, 137, 1, 192, 168, 137, 20,
      0x3a, 0xcd, 0xcf, 0x09, 0, 9, 0, 0, 0x41]"

lemma sample_parses:
  "parse_ipv4_packet_meta sample_packet = Ok sample_meta"
  "parse_ipv4_packet_meta sample_answer =
     Ok \<lparr>pm_protocol = Udp, pm_src_ip = V4 (Ipv4Addr 192 168 137 1), pm_src_port = 15053,
         pm_dst_ip = V4 (Ipv4Addr 192 168 137 20), pm_dst_port = 53001\<rparr>"
  by code_simp+

lemma sample_fields:
  "rt_gateway_ip (rc_hotspot sample_config) = V4 (Ipv4Addr 192 168 137 1)"
  "pm_dst_ip sample_meta = V4 (Ipv4Addr 8 8 8 8)" "pm_dst_port sample_meta = 53"
  "pm_src_ip sample_meta = V4 (Ipv4Addr 192 168 137 20)"
  by (simp_all add: sample_config_def sample_meta_def)

lemma sample_classified:
  "classify_packet sample_config sample_meta = RedirectDns (V4 (Ipv4Addr 192 168 137 1)) 15053"
  by code_simp

text \<open>What a rewritten packet is: it parses to the same packet with the new address and port, the
  IPv4 header checksum verifies and so does the transport checksum (when its field lies inside the
  datagram), and no byte but those of the address, the port and the two checksums differs.\<close>

definition destination_replaced ::
  "packet_meta \<Rightarrow> ipv4addr \<Rightarrow> u16 \<Rightarrow> byte list \<Rightarrow> byte list \<Rightarrow> bool" where
  "destination_replaced m ip port p q \<longleftrightarrow>
     parse_ipv4_packet_meta q = Ok (m\<lparr>pm_dst_ip := V4 ip, pm_dst_port := port\<rparr>) \<and>
     ip_checksum_ok q \<and> (checksum_at p + 2 \<le> total_len_of p \<longrightarrow> transport_checksum_ok q) \<and>
     same_except ({10, 11} \<union> {checksum_at p, checksum_at p + 1} \<union> {16..<20} \<union>
       {header_len_of p + 2, header_len_of p + 3}) p q"

definition source_replaced ::
  "packet_meta \<Rightarrow> ipv4addr \<Rightarrow> u16 \<Rightarrow> byte list \<Rightarrow> byte list \<Rightarrow> bool" where
  "source_replaced m ip port p q \<longleftrightarrow>
     parse_ipv4_packet_meta q = Ok (m\<lparr>pm_src_ip := V4 ip, pm_src_port := port\<rparr>) \<and>
     ip_checksum_ok q \<and> (checksum_at p + 2 \<le> total_len_of p \<longrightarrow> transport_checksum_ok q) \<and>
     same_except ({10, 11} \<union> {checksum_at p, checksum_at p + 1} \<union> {12..<16} \<union>
       {header_len_of p, header_len_of p + 1}) p q"

text \<open>How the inbound processor redirects: the flow is recorded under the client's key with the
  destination the packet had; a listener with an IPv4 address becomes the packet's destination,
  while one with an IPv6 address cannot be written into it, and the packet is dropped as it was.\<close>

definition redirected_packet ::
  "redirector_config \<Rightarrow> nat \<Rightarrow> flow_table \<Rightarrow> byte list \<Rightarrow> packet_meta \<Rightarrow> ip_addr \<Rightarrow> u16 \<Rightarrow> bool" where
  "redirected_packet c now t p m ip port \<longleftrightarrow>
     (let t' = ft_insert t (client_key m) (flow_value_new (pm_dst_ip m) (pm_dst_port m) ip port now) in
      case ip of
        V4 a \<Rightarrow> \<exists>q. process_forward_packet c now t p = Ok (Send_packet, t', q) \<and>
                 destination_replaced m a port p q
      | V6 _ \<Rightarrow> process_forward_packet c now t p = Ok (Drop_packet, t', p))"

lemma process_forward_redirects:
  assumes m: "parse_ipv4_packet_meta p = Ok m"
    and d: "classify_packet c m = RedirectTcp ip port \<or> classify_packet c m = RedirectDns ip port"
  shows "redirected_packet c now t p m ip port"
proof -
  have *: "process_forward_packet c now t p =
      send_if_rewritten (ft_insert t (client_key m) (flow_value_new (pm_dst_ip m) (pm_dst_port m) ip port now))
        (rewrite_destination p ip port)"
    using d m by (auto simp: process_forward_packet_def redirect_to_def client_key_def)
  show ?thesis
  proof (cases ip)
    case (V4 a)
    then show ?thesis
      using rewritten_destination [OF m, of a port] *
      by (auto simp: redirected_packet_def destination_replaced_def)
  next
    case (V6 a)
    with * show ?thesis by (simp add: redirected_packet_def rewrite_destination_def)
  qed
qed

text \<open>C2: The inbound processor on every branch and every buffer: a packet that cannot be parsed
  (not IPv4, a fragment, neither TCP nor UDP, cut short) is sent on as it is and leaves the table
  alone, and so is one the classification bypasses; a dropped one leaves both alone too. A
  redirected packet is recorded under its client's key with the destination it had, and is sent on
  with the local listener as its destination, valid checksums and every other byte as it was;
  where the gateway's address is not IPv4 it is dropped unchanged, its flow recorded.\<close>

theorem forward_packet_spec:
  "case parse_ipv4_packet_meta p of
     Panic \<Rightarrow> False
   | Err _ \<Rightarrow> process_forward_packet c now t p = Ok (Send_packet, t, p)
   | Ok m \<Rightarrow>
       (case classify_packet c m of
          Bypass _ \<Rightarrow> process_forward_packet c now t p = Ok (Send_packet, t, p)
        | Drop _ \<Rightarrow> process_forward_packet c now t p = Ok (Drop_packet, t, p)
        | RedirectTcp ip port \<Rightarrow> redirected_packet c now t p m ip port
        | RedirectDns ip port \<Rightarrow> redirected_packet c now t p m ip port)"
proof (cases "parse_ipv4_packet_meta p")
  case (Ok m)
  then show ?thesis
    using process_forward_redirects [OF Ok]
    by (auto simp: process_forward_packet_def split: redirect_decision.split)
next
  case Panic
  then show ?thesis using parse_meta_no_panic by blast
qed (simp add: process_forward_packet_def)

theorem forward_packet_spec_witness:
  "\<exists>q. process_forward_packet sample_config 5 (ft_new 4) sample_packet =
      Ok (Send_packet, ft_insert (ft_new 4) (client_key sample_meta)
        (flow_value_new (V4 (Ipv4Addr 8 8 8 8)) 53 (V4 (Ipv4Addr 192 168 137 1)) 15053 5), q) \<and>
     ip_checksum_ok q \<and> drop 28 q = drop 28 sample_packet"
proof -
  obtain q where q: "process_forward_packet sample_config 5 (ft_new 4) sample_packet =
      Ok (Send_packet, ft_insert (ft_new 4) (client_key sample_meta)
        (flow_value_new (V4 (Ipv4Addr 8 8 8 8)) 53 (V4 (Ipv4Addr 192 168 137 1)) 15053 5), q)" and
    r: "destination_replaced sample_meta (Ipv4Addr 192 168 137 1) 15053 sample_packet q"
    using forward_packet_spec [where p = sample_packet and c = sample_config and now = 5 and t = "ft_new 4"]
    by (auto simp: sample_parses sample_classified sample_fields redirected_packet_def)
  have "header_len_of sample_packet = 20 \<and> checksum_at sample_packet = 26" by code_simp
  with r have "drop 28 q = drop 28 sample_packet"
    by (intro nth_equalityI) (auto simp: destination_replaced_def same_except_def)
  with q r show ?thesis by (auto simp: destination_replaced_def)
qed

text \<open>C11: The outbound processor on every branch and every buffer: a packet that cannot be parsed
  leaves unchanged, and so does every one that is no answer of the DNS proxy to a client; neither
  touches the table. Such an answer to a client with a recorded UDP flow leaves with the address
  and port the client had sent its query to as its source, valid checksums and every other byte as
  it was, an IPv6 original apart (it cannot be restored and the packet is dropped unchanged);
  without a flow it leaves unchanged.\<close>

theorem network_packet_spec:
  "case parse_ipv4_packet_meta p of
     Panic \<Rightarrow> False
   | Err _ \<Rightarrow> process_network_packet c now t p = Ok (Send_packet, t, p)
   | Ok m \<Rightarrow>
       if \<not> dns_answer c m then process_network_packet c now t p = Ok (Send_packet, t, p)
       else
         (case ft_lookup t (reply_key m) of
            None \<Rightarrow> process_network_packet c now t p = Ok (Send_packet, t, p)
          | Some f \<Rightarrow>
              (case original_dst_ip f of
                 V6 a \<Rightarrow> process_network_packet c now t p =
                   Ok (Drop_packet, snd (ft_get now t (reply_key m)), p)
               | V4 a \<Rightarrow> \<exists>q. process_network_packet c now t p =
                     Ok (Send_packet, snd (ft_get now t (reply_key m)), q) \<and>
                   source_replaced m a (original_dst_port f) p q))"
proof (cases "parse_ipv4_packet_meta p")
  case (Ok m)
  note eq = process_network_eq [OF Ok, of c now t]
  show ?thesis
  proof (cases "ft_lookup t (reply_key m)")
    case None
    then have "snd (ft_get now t (reply_key m)) = t" "fst (ft_get now t (reply_key m)) = None"
      by (simp_all add: ft_get_def ft_lookup_def)
    with None Ok show ?thesis by (simp add: eq)
  next
    case (Some f)
    have g: "fst (ft_get now t (reply_key m)) = Some (touch now f)" by (simp add: ft.fst_get Some)
    show ?thesis
    proof (cases "original_dst_ip f")
      case (V4 a)
      then show ?thesis
        using rewritten_source [OF Ok, of a "original_dst_port f"] Some g Ok
        by (auto simp: eq touch_def source_replaced_def)
    next
      case (V6 a)
      with Some g Ok show ?thesis by (auto simp: eq touch_def rewrite_source_def)
    qed
  qed
next
  case Panic
  then show ?thesis using parse_meta_no_panic by blast
qed (simp add: process_network_packet_def)

text \<open>The flow of the sample query, and the sample answer restored by it.\<close>

definition sample_flows :: flow_table where
  "sample_flows =
     ft_insert (ft_new 4) \<lparr>fk_protocol = Udp, fk_client_ip = V4 (Ipv4Addr 192 168 137 20), fk_client_port = 53001\<rparr>
       (flow_value_new (V4 (Ipv4Addr 8 8 8 8)) 53 (V4 (Ipv4Addr 192 168 137 1)) 15053 5)"

theorem network_packet_spec_witness:
  "\<exists>t q. process_network_packet sample_config 9 sample_flows sample_answer = Ok (Send_packet, t, q) \<and>
     parse_ipv4_packet_meta q =
       Ok \<lparr>pm_protocol = Udp, pm_src_ip = V4 (Ipv4Addr 8 8 8 8), pm_src_port = 53,
           pm_dst_ip = V4 (Ipv4Addr 192 168 137 20), pm_dst_port = 53001\<rparr> \<and>
     ip_checksum_ok q \<and> drop 28 q = drop 28 sample_answer"
proof -
  define m where "m = \<lparr>pm_protocol = Udp, pm_src_ip = V4 (Ipv4Addr 192 168 137 1), pm_src_port = 15053,
    pm_dst_ip = V4 (Ipv4Addr 192 168 137 20), pm_dst_port = 53001\<rparr>"
  have p: "parse_ipv4_packet_meta sample_answer = Ok m" by (simp add: sample_parses m_def)
  have d: "dns_answer sample_config m" unfolding m_def by code_simp
  have f: "ft_lookup sample_flows (reply_key m) =
      Some (flow_value_new (V4 (Ipv4Addr 8 8 8 8)) 53 (V4 (Ipv4Addr 192 168 137 1)) 15053 5)"
    by (simp add: sample_flows_def m_def reply_key_def ft.look_ins_same)
  obtain t q where q: "process_network_packet sample_config 9 sample_flows sample_answer = Ok (Send_packet, t, q)" and
    r: "source_replaced m (Ipv4Addr 8 8 8 8) 53 sample_answer q"
    using network_packet_spec [where p = sample_answer and c = sample_config and now = 9 and t = sample_flows]
    by (auto simp: p d f flow_value_new_def)
  have "header_len_of sample_answer = 20 \<and> checksum_at sample_answer = 26" by code_simp
  with r have "drop 28 q = drop 28 sample_answer"
    by (intro nth_equalityI) (auto simp: source_replaced_def same_except_def)
  with q r show ?thesis by (auto simp: source_replaced_def m_def)
qed

text \<open>C3: The DNS conversation round trip. After the inbound processor has redirected a client's
  UDP query to the DNS proxy, the proxy's answer to that client leaves the outbound processor with
  the resolver that the client asked as its source, as if no proxy were there; the answer's time
  does not matter, and the flow stays recorded for a further answer.\<close>

theorem dns_conversation:
  assumes "parse_ipv4_packet_meta p = Ok m" and "pm_protocol m = Udp"
    and "classify_packet c m = RedirectDns ip port"
    and "process_forward_packet c now t p = Ok (action, t', q)"
    and "parse_ipv4_packet_meta a = Ok
           \<lparr>pm_protocol = Udp, pm_src_ip = ip, pm_src_port = port,
            pm_dst_ip = pm_src_ip m, pm_dst_port = pm_src_port m\<rparr>"
  shows "\<exists>t'' b. process_network_packet c now' t' a = Ok (Send_packet, t'', b) \<and>
     parse_ipv4_packet_meta b = Ok
           \<lparr>pm_protocol = Udp, pm_src_ip = pm_dst_ip m, pm_src_port = pm_dst_port m,
            pm_dst_ip = pm_src_ip m, pm_dst_port = pm_src_port m\<rparr> \<and>
     ip_checksum_ok b \<and> ft_lookup t'' (client_key m) \<noteq> None"
proof -
  let ?ma = "\<lparr>pm_protocol = Udp, pm_src_ip = ip, pm_src_port = port,
            pm_dst_ip = pm_src_ip m, pm_dst_port = pm_src_port m\<rparr>"
  let ?v = "flow_value_new (pm_dst_ip m) (pm_dst_port m) ip port now"
  have key: "reply_key ?ma = client_key m" using assms(2) by (simp add: reply_key_def client_key_def)
  have ans: "dns_answer c ?ma" using assms(3) by (auto simp: classify_redirect_dns dns_answer_def)
  have t': "t' = ft_insert t (client_key m) ?v"
  proof (cases "rewrite_destination p ip port")
    case (Ok r)
    then show ?thesis
      using assms(1,3,4)
      by (cases r) (simp add: process_forward_packet_def redirect_to_def client_key_def)
  qed (use assms(1,3,4) in \<open>auto simp: process_forward_packet_def redirect_to_def send_if_rewritten_def\<close>)
  obtain x where x: "pm_dst_ip m = V4 x" using assms(1) by (auto simp: parse_meta_eq split: option.splits if_splits)
  obtain b where b: "rewrite_source a (V4 x) (pm_dst_port m) = Ok (Some (), b)"
    "parse_ipv4_packet_meta b = Ok (?ma\<lparr>pm_src_ip := V4 x, pm_src_port := pm_dst_port m\<rparr>)"
    "ip_checksum_ok b"
    using rewritten_source [OF assms(5)] by blast
  have "fst (ft_get now' t' (client_key m)) = Some (touch now' ?v)"
    by (simp add: t' ft.get_after_ins)
  moreover have "ft_lookup (snd (ft_get now' t' (client_key m))) (client_key m) \<noteq> None"
    by (simp add: t' ft.look_get)
  ultimately show ?thesis
    using b x ans by (simp add: process_network_eq [OF assms(5)] key touch_def flow_value_new_def)
qed

theorem dns_conversation_witness:
  "\<exists>t' q t'' b. process_forward_packet sample_config 5 (ft_new 4) sample_packet = Ok (Send_packet, t', q) \<and>
     process_network_packet sample_config 9 t' sample_answer = Ok (Send_packet, t'', b) \<and>
     ip_checksum_ok b"
proof -
  have "is_ok (process_forward_packet sample_config 5 (ft_new 4) sample_packet) \<and>
    map_option fst (ok_value (process_forward_packet sample_config 5 (ft_new 4) sample_packet)) = Some Send_packet"
    by code_simp
  then obtain t' q where f: "process_forward_packet sample_config 5 (ft_new 4) sample_packet = Ok (Send_packet, t', q)"
    by (auto simp: is_ok_iff)
  have m: "pm_protocol sample_meta = Udp" by (simp add: sample_meta_def)
  have a: "parse_ipv4_packet_meta sample_answer = Ok
           \<lparr>pm_protocol = Udp, pm_src_ip = V4 (Ipv4Addr 192 168 137 1), pm_src_port = 15053,
            pm_dst_ip = pm_src_ip sample_meta, pm_dst_port = pm_src_port sample_meta\<rparr>"
    by (simp add: sample_parses sample_meta_def)
  show ?thesis
    using f dns_conversation [OF sample_parses(1) m sample_classified f a, of 9] by blast
qed

text \<open>C13: The filter of the inbound handle loses no client: the two addresses it is built from
  bound exactly the addresses that the classification takes for hotspot clients, for every
  prefix length, so a packet the filter does not deliver is one that would be left alone.\<close>

theorem filter_delivers_clients:
  assumes "pm_src_ip m = V4 ip"
  shows "\<exists>low high. cidr_bounds (rt_subnet (rc_hotspot c)) = (low, high) \<and>
     f_inbound (filters_for_hotspot (dns_proxy (rc_ports c)) (rt_subnet (rc_hotspot c))) =
       lit ''inbound and ip and (tcp or udp) and ip.SrcAddr >= '' @ show_ipv4 low @
       lit '' and ip.SrcAddr <= '' @ show_ipv4 high \<and>
     (low \<le> ip \<and> ip \<le> high \<longleftrightarrow> classify_packet c m \<noteq> Bypass NotHotspotClient)"
proof -
  obtain low high where b: "cidr_bounds (rt_subnet (rc_hotspot c)) = (low, high)" by fastforce
  have "classify_packet c m \<noteq> Bypass NotHotspotClient \<longleftrightarrow> cidr_contains (rt_subnet (rc_hotspot c)) ip"
    using assms
    by (auto simp: classify_packet_def is_hotspot_client_def classify_tcp_def classify_dns_def
        classify_udp_def split: transport_protocol.splits tcp_policy.splits dns_policy.splits
        udp_policy.splits)
  with b show ?thesis
    by (auto simp: cidr_bounds_contains filters_for_hotspot_def)
qed

theorem filter_delivers_clients_witness:
  "\<exists>low high. cidr_bounds (rt_subnet (rc_hotspot sample_config)) = (low, high) \<and>
     low \<le> Ipv4Addr 192 168 137 20 \<and> Ipv4Addr 192 168 137 20 \<le> high"
  using filter_delivers_clients [of sample_meta "Ipv4Addr 192 168 137 20" sample_config] sample_classified
  by (auto simp: sample_fields)

end
