(* ===== verification/Driver.thy ===== *)
theory Driver
  imports Redirector Doctor "HOL-Library.Sublist"
begin

section \<open>The WinDivert driver (src/src/redirector.rs)\<close>

text \<open>
  How the redirector loads the WinDivert library, opens and closes its two packet capture
  handles and runs its two worker threads. The driver is not part of the repository: whether
  the library loads, whether it has a symbol and whether a handle opens is the argument
  \<open>driver_env\<close>, and what a worker receives is a list of events.

  A handle is a number that is never used twice; \<open>handles\<close> of the host are the ones open in
  the whole system, those of other processes among them. An \<open>Arc\<close> that is dropped for the
  last time closes its handle. The results of the shutdown and close calls are ignored by the
  code; the model takes them to have worked. Between two events of a worker the other threads
  may do anything to the shared flow table.

  The lemmas show that no operation leaks a handle or a thread, whatever fails, and that a
  worker answers every packet in order until its handle is shut down. The locale
  \<open>packet_redirector\<close> is the contract of the trait of that name, which the application relies
  on; it is interpreted on the operations defined here.
\<close>

subsection \<open>Loading the library\<close>

record redirector_preflight_config =
  rpc_dns_proxy_port :: u16

datatype driver_error =
  Dll_missing | Load_failed path | Symbol_missing str | Filter_has_nul | Open_failed str nat
| Already_running | Preflight_failed driver_error | Start_failed driver_error

record 'w driver_env =
  de_search :: search_env
  de_load_library :: "path \<Rightarrow> bool"
  de_symbol :: "path \<Rightarrow> str \<Rightarrow> bool"
  de_open :: "str \<Rightarrow> ('w, nat option) external"

definition windivert_symbols :: "str list" where
  "windivert_symbols =
     [lit ''WinDivertOpen'', lit ''WinDivertRecv'', lit ''WinDivertSend'',
      lit ''WinDivertShutdown'', lit ''WinDivertClose'']"

definition windivert_load :: "'w driver_env \<Rightarrow> ('w host, unit, driver_error) io" where
  "windivert_load e =
     (case wp_dll_path (run_windivert_probe (de_search e)) of
        None \<Rightarrow> fail Dll_missing
      | Some dll_path \<Rightarrow>
          if \<not> de_load_library e dll_path then fail (Load_failed dll_path)
          else
            case find (\<lambda>s. \<not> de_symbol e dll_path s) windivert_symbols of
              Some s \<Rightarrow> fail (Symbol_missing s)
            | None \<Rightarrow> give ())"

subsection \<open>Handles\<close>

text \<open>The open call answers \<open>None\<close> for a handle and the last error of the system otherwise.\<close>

definition handle_open :: "'w driver_env \<Rightarrow> str \<Rightarrow> ('w host, nat, driver_error) io" where
  "handle_open e text =
     (if 0 \<in> set text then fail Filter_has_nul
      else
        perform (call (\<lambda>w. case de_open e text w of (r, t, w') \<Rightarrow> (Ok r, t, w'))) (\<lambda>r h.
          case r of
            Some code \<Rightarrow> (Err (Open_failed text code), h)
          | None \<Rightarrow>
              (Ok (next_handle h),
               h\<lparr>handles := handles h @ [next_handle h], next_handle := Suc (next_handle h),
                 actions := actions h @ [Opened (next_handle h) text]\<rparr>)))"

definition handle_shutdown :: "nat \<Rightarrow> ('w host, unit, 'e) io" where
  "handle_shutdown i = emit (Shut_down i)"

definition handle_drop :: "nat \<Rightarrow> ('w host, unit, 'e) io" where
  "handle_drop i h =
     (Ok (), h\<lparr>handles := removeAll i (handles h), actions := actions h @ [Closed i]\<rparr>)"

fun for_each :: "('a \<Rightarrow> ('s, unit, 'e) io) \<Rightarrow> 'a list \<Rightarrow> ('s, unit, 'e) io" where
  "for_each f [] = give ()"
| "for_each f (x # xs) = perform (f x) (\<lambda>_. for_each f xs)"

subsection \<open>Starting and stopping\<close>

definition spawn_worker :: "str \<Rightarrow> nat \<Rightarrow> ('w host, str \<times> nat, 'e) io" where
  "spawn_worker name handle h = (Ok (name, handle), h\<lparr>workers := workers h @ [(name, handle)]\<rparr>)"

definition join_worker :: "str \<times> nat \<Rightarrow> ('w host, unit, 'e) io" where
  "join_worker w h = (Ok (), h\<lparr>workers := removeAll w (workers h)\<rparr>)"

definition running_stop :: "running_redirector \<Rightarrow> ('w host, unit, 'e) io" where
  "running_stop r =
     perform (for_each handle_shutdown (rr_handles r)) (\<lambda>_.
     perform (for_each join_worker (rr_workers r)) (\<lambda>_.
     for_each handle_drop (rr_handles r)))"

definition windivert_start ::
  "'w driver_env \<Rightarrow> redirector_config \<Rightarrow> ('w host, running_redirector, driver_error) io" where
  "windivert_start e config =
     perform (windivert_load e) (\<lambda>_.
     let filters = filters_for_hotspot (dns_proxy (rc_ports config)) (rt_subnet (rc_hotspot config)) in
     perform (handle_open e (f_inbound filters)) (\<lambda>inbound_handle.
     caught (handle_open e (f_network filters)) (\<lambda>r.
       case r of
         Ok network_handle \<Rightarrow>
           perform (spawn_worker (lit ''network-inbound'') inbound_handle) (\<lambda>inbound_worker.
           perform (spawn_worker (lit ''network'') network_handle) (\<lambda>network_worker.
           give \<lparr>rr_handles = [inbound_handle, network_handle],
                 rr_workers = [inbound_worker, network_worker]\<rparr>))
       | Err x \<Rightarrow> perform (handle_drop inbound_handle) (\<lambda>_. fail x)
       | Panic \<Rightarrow> from_res Panic)))"

definition windivert_preflight ::
  "'w driver_env \<Rightarrow> redirector_preflight_config \<Rightarrow> ('w host, unit, driver_error) io" where
  "windivert_preflight e config =
     perform (windivert_load e) (\<lambda>_.
     let filters = filters_preflight (rpc_dns_proxy_port config) in
     perform (handle_open e (f_inbound filters)) (\<lambda>inbound_handle.
     caught (handle_open e (f_network filters)) (\<lambda>r.
       case r of
         Ok network_handle \<Rightarrow>
           perform (handle_shutdown inbound_handle) (\<lambda>_.
           perform (handle_shutdown network_handle) (\<lambda>_.
           perform (handle_drop inbound_handle) (\<lambda>_.
           handle_drop network_handle)))
       | Err x \<Rightarrow> perform (handle_drop inbound_handle) (\<lambda>_. fail x)
       | Panic \<Rightarrow> from_res Panic)))"

definition redirector_preflight ::
  "'w driver_env \<Rightarrow> redirector_preflight_config \<Rightarrow> ('w host, unit, driver_error) io" where
  "redirector_preflight e config = wrap Preflight_failed (windivert_preflight e config)"

definition redirector_start ::
  "'w driver_env \<Rightarrow> redirector_config \<Rightarrow> ('w host, unit, driver_error) io" where
  "redirector_start e config =
     perform (wrap Start_failed (windivert_start e config)) (\<lambda>r h.
       if running h \<noteq> None
       then perform (running_stop r) (\<lambda>_. fail Already_running) h
       else (Ok (), h\<lparr>running := Some r\<rparr>))"

definition redirector_stop :: "('w host, unit, driver_error) io" where
  "redirector_stop h =
     (case running h of
        None \<Rightarrow> (Ok (), h)
      | Some r \<Rightarrow> running_stop r (h\<lparr>running := None\<rparr>))"

subsection \<open>A worker thread\<close>

text \<open>
  One event of a worker: what the other threads did to the flow table since the last one, the
  time, and what the receive call returns: a packet or an error code.
\<close>

datatype recv = Received "byte list" | Receive_error nat

type_synonym worker_event = "(flow_table \<Rightarrow> flow_table) \<times> instant \<times> recv"

definition windivert_mtu_max :: nat where
  "windivert_mtu_max = 40 + 0xffff"

definition error_no_data :: nat where
  "error_no_data = 232"

text \<open>What was sent, the table and whether the loop has ended, when the events are used up.\<close>

fun run_worker ::
  "processor \<Rightarrow> redirector_config \<Rightarrow> worker_event list \<Rightarrow> flow_table \<Rightarrow>
     (byte list list \<times> flow_table \<times> bool, unit) res" where
  "run_worker processor config [] table = Ok ([], table, False)"
| "run_worker processor config ((others, now, Receive_error code) # events) table =
     (if code = error_no_data then Ok ([], others table, True)
      else run_worker processor config events (others table))"
| "run_worker processor config ((others, now, Received bytes) # events) table =
     (if windivert_mtu_max < length bytes then Panic
      else
        attempt (processor config now (others table) bytes) (\<lambda>(action, table', packet).
        attempt (run_worker processor config events table') (\<lambda>(sent, end).
          Ok (if action = Drop_packet then sent else packet # sent, end))))"

subsection \<open>What the operations do to the handles\<close>

definition capture_action :: "action \<Rightarrow> bool" where
  "capture_action a =
     (case a of Opened i f \<Rightarrow> True | Shut_down i \<Rightarrow> True | Closed i \<Rightarrow> True | _ \<Rightarrow> False)"

text \<open>What the redirector leaves alone: the sockets and tasks, and all actions of other kinds.\<close>

definition capture_frame :: "'w host \<Rightarrow> 'w host \<Rightarrow> bool" where
  "capture_frame h h' \<longleftrightarrow>
     clock h \<le> clock h' \<and> sockets h' = sockets h \<and> tasks h' = tasks h \<and>
     (\<exists>new. actions h' = actions h @ new \<and> list_all capture_action new)"

lemma reflp_capture_frame: "reflp capture_frame"
  by (rule reflpI) (simp add: capture_frame_def)

lemma transp_capture_frame: "transp capture_frame"
  by (rule transpI) (auto simp: capture_frame_def)

lemmas keeps_capture =
  keeps_give [OF reflp_capture_frame] keeps_fail [OF reflp_capture_frame]
  keeps_from_res [OF reflp_capture_frame] keeps_perform [OF transp_capture_frame] keeps_wrap
  keeps_caught [OF transp_capture_frame] keeps_if

lemma capture_frame_load: "keeps capture_frame (windivert_load e)"
  unfolding windivert_load_def by (auto intro!: keeps_capture split: option.split)

lemma capture_frame_open: "keeps capture_frame (handle_open e f)"
proof -
  have "keeps capture_frame (call (\<lambda>w. case de_open e f w of (r, t, w') \<Rightarrow> (Ok r, t, w')))"
    by (auto simp: keeps_def call_def capture_frame_def split: prod.split)
  moreover have "keeps capture_frame
    (\<lambda>h. case r of Some code \<Rightarrow> (Err (Open_failed f code), h)
       | None \<Rightarrow> (Ok (next_handle h),
               h\<lparr>handles := handles h @ [next_handle h], next_handle := Suc (next_handle h),
                 actions := actions h @ [Opened (next_handle h) f]\<rparr>))" for r
    by (auto simp: keeps_def capture_frame_def capture_action_def split: option.split)
  ultimately show ?thesis
    unfolding handle_open_def by (intro keeps_capture)
qed

lemma capture_frame_handles:
  "keeps capture_frame (handle_shutdown i)" "keeps capture_frame (handle_drop i)"
  "keeps capture_frame (spawn_worker n i)" "keeps capture_frame (join_worker w)"
  by (simp_all add: keeps_def handle_shutdown_def handle_drop_def emit_def spawn_worker_def
      join_worker_def capture_frame_def capture_action_def)

lemma capture_frame_for_each: "(\<And>x. keeps capture_frame (f x)) \<Longrightarrow> keeps capture_frame (for_each f xs)"
  by (induction xs) (auto intro: keeps_capture)

lemma capture_frame_running_stop: "keeps capture_frame (running_stop r)"
  unfolding running_stop_def
  by (intro keeps_capture capture_frame_for_each capture_frame_handles)

lemma capture_frame_start: "keeps capture_frame (windivert_start e c)"
  unfolding windivert_start_def Let_def
  by (intro keeps_capture capture_frame_load capture_frame_open)
    (auto intro!: keeps_capture capture_frame_handles split: res.split)

lemma capture_frame_preflight: "keeps capture_frame (redirector_preflight e c)"
  unfolding redirector_preflight_def windivert_preflight_def Let_def
  by (intro keeps_capture capture_frame_load capture_frame_open)
    (auto intro!: keeps_capture capture_frame_handles split: res.split)

lemma capture_frame_redirector_start: "keeps capture_frame (redirector_start e c)"
proof -
  have "keeps capture_frame (\<lambda>h. if running h \<noteq> None
       then perform (running_stop r) (\<lambda>_. fail Already_running) h
       else (Ok (), h\<lparr>running := Some r\<rparr>))" for r
  proof -
    have "keeps capture_frame (perform (running_stop r) (\<lambda>_. fail Already_running))"
      by (intro keeps_capture capture_frame_running_stop)
    then show ?thesis by (auto simp: keeps_def) (simp add: capture_frame_def)
  qed
  then show ?thesis
    unfolding redirector_start_def by (intro keeps_capture capture_frame_start)
qed

lemma capture_frame_redirector_stop: "keeps capture_frame redirector_stop"
proof -
  have "capture_frame h (snd ((running_stop r :: ('a host, unit, driver_error) io) (h\<lparr>running := None\<rparr>)))"
    for h :: "'a host" and r
  proof -
    have "capture_frame h (h\<lparr>running := None\<rparr>)" by (simp add: capture_frame_def)
    moreover have "capture_frame (h\<lparr>running := None\<rparr>)
        (snd ((running_stop r :: ('a host, unit, driver_error) io) (h\<lparr>running := None\<rparr>)))"
      using capture_frame_running_stop unfolding keeps_def by blast
    ultimately show ?thesis by (rule transpD [OF transp_capture_frame])
  qed
  then show ?thesis
    by (auto simp: keeps_def redirector_stop_def reflpD [OF reflp_capture_frame] split: option.split)
qed

text \<open>The redirector of one process: two handles, each with its worker.\<close>

definition pair_redirector :: "nat \<Rightarrow> nat \<Rightarrow> running_redirector" where
  "pair_redirector i j =
     \<lparr>rr_handles = [i, j], rr_workers = [(lit ''network-inbound'', i), (lit ''network'', j)]\<rparr>"

text \<open>What both the start and the preflight do to the handles of the system.\<close>

definition same_capture :: "'w host \<Rightarrow> 'w host \<Rightarrow> bool" where
  "same_capture h h' \<longleftrightarrow>
     handles h' = handles h \<and> workers h' = workers h \<and> running h' = running h \<and>
     next_handle h \<le> next_handle h'"

definition fresh_bound :: "'w host \<Rightarrow> bool" where
  "fresh_bound h \<longleftrightarrow> (\<forall>i \<in> set (handles h). i < next_handle h)"

lemma load_cases:
  obtains "windivert_load e h = (Ok (), h)" | x where "windivert_load e h = (Err x, h)"
proof -
  have "windivert_load e h = (Ok (), h) \<or> (\<exists>x. windivert_load e h = (Err x, h))"
    by (auto simp: windivert_load_def fail_def give_def split: option.split)
  then show thesis using that by blast
qed

lemma open_cases:
  obtains (opened) h' where "handle_open e f h = (Ok (next_handle h), h')"
      and "handles h' = handles h @ [next_handle h]" and "next_handle h' = Suc (next_handle h)"
      and "workers h' = workers h" and "running h' = running h"
  | (refused) x h' where "handle_open e f h = (Err x, h')" and "same_capture h h'"
proof (cases "0 \<in> set f")
  case True
  then show thesis by (intro refused [of Filter_has_nul h]) (simp_all add: handle_open_def fail_def same_capture_def)
next
  case False
  obtain r t w where o: "de_open e f (world h) = (r, t, w)" by (metis prod.exhaust)
  show thesis
  proof (cases r)
    case None
    with o False show thesis
      by (intro opened [of "h\<lparr>clock := clock h + t, world := w,
               handles := handles h @ [next_handle h], next_handle := Suc (next_handle h),
               actions := actions h @ [Opened (next_handle h) f]\<rparr>"])
        (simp_all add: handle_open_def perform_def call_def)
  next
    case (Some code)
    with o False show thesis
      by (intro refused [of "Open_failed f code" "h\<lparr>clock := clock h + t, world := w\<rparr>"])
        (simp_all add: handle_open_def perform_def call_def same_capture_def)
  qed
qed

lemma windivert_start_cases:
  assumes "fresh_bound h"
  obtains (started) i j h' where "windivert_start e c h = (Ok (pair_redirector i j), h')"
      and "i < j" and "next_handle h \<le> i" and "j < next_handle h'"
      and "handles h' = handles h @ [i, j]"
      and "workers h' = workers h @ rr_workers (pair_redirector i j)" and "running h' = running h"
  | (failed) x h' where "windivert_start e c h = (Err x, h')" and "same_capture h h'"
proof -
  let ?f = "filters_for_hotspot (dns_proxy (rc_ports c)) (rt_subnet (rc_hotspot c))"
  show thesis
  proof (cases e h rule: load_cases)
    case (2 x)
    then show thesis
      by (intro failed [of x h]) (simp_all add: windivert_start_def perform_def same_capture_def)
  next
    case load: 1
    show thesis
    proof (cases e "f_inbound ?f" h rule: open_cases)
      case (refused x h')
      with load show thesis
        by (intro failed [of x h']) (simp_all add: windivert_start_def perform_def Let_def)
    next
      case o1: (opened h1)
      show thesis
      proof (cases e "f_network ?f" h1 rule: open_cases)
        case (refused x h')
        have "next_handle h \<notin> set (handles h)" using assms by (auto simp: fresh_bound_def)
        with load o1 refused show thesis
          by (intro failed [of x "snd (handle_drop (next_handle h) h')"])
            (simp_all add: windivert_start_def perform_def Let_def caught_def handle_drop_def
              fail_def same_capture_def)
      next
        case o2: (opened h2)
        have "windivert_start e c h = (Ok (pair_redirector (next_handle h) (next_handle h1)),
          h2\<lparr>workers := workers h2 @ rr_workers (pair_redirector (next_handle h) (next_handle h1))\<rparr>)"
          using load o1 o2
          by (simp add: windivert_start_def perform_def Let_def caught_def spawn_worker_def give_def
              pair_redirector_def)
        then show thesis by (rule started) (use o1 o2 in simp_all)
      qed
    qed
  qed
qed

lemma preflight_capture:
  assumes "fresh_bound h"
  shows "same_capture h (snd (redirector_preflight e c h))"
    and "fst (redirector_preflight e c h) \<noteq> Panic"
proof -
  let ?f = "filters_preflight (rpc_dns_proxy_port c)"
  have fresh: "next_handle h \<notin> set (handles h)" "Suc (next_handle h) \<notin> set (handles h)"
    using assms by (auto simp: fresh_bound_def)
  have "same_capture h (snd (windivert_preflight e c h)) \<and> fst (windivert_preflight e c h) \<noteq> Panic"
  proof (cases e h rule: load_cases)
    case 2
    then show ?thesis by (simp add: windivert_preflight_def perform_def same_capture_def)
  next
    case load: 1
    show ?thesis
    proof (cases e "f_inbound ?f" h rule: open_cases)
      case (refused x h')
      with load show ?thesis by (simp add: windivert_preflight_def perform_def Let_def)
    next
      case o1: (opened h1)
      show ?thesis
        by (cases e "f_network ?f" h1 rule: open_cases)
          (use load o1 fresh in \<open>auto simp: windivert_preflight_def perform_def Let_def caught_def
            handle_drop_def handle_shutdown_def emit_def fail_def same_capture_def\<close>)
    qed
  qed
  then show "same_capture h (snd (redirector_preflight e c h))"
    and "fst (redirector_preflight e c h) \<noteq> Panic"
    by (cases "windivert_preflight e c h"; cases "fst (windivert_preflight e c h)";
        simp add: redirector_preflight_def wrap_def)+
qed

lemma running_stop_pair:
  assumes "handles h = B @ [i, j]" and "i \<notin> set B" and "j \<notin> set B"
    and "workers h = W @ rr_workers (pair_redirector i j)" and "set W \<inter> set (rr_workers (pair_redirector i j)) = {}"
  obtains h' where "running_stop (pair_redirector i j) h = (Ok (), h')"
    and "handles h' = B" and "workers h' = W" and "running h' = running h" and "next_handle h' = next_handle h"
proof -
  have "fst (running_stop (pair_redirector i j) h) = Ok ()"
    and "handles (snd (running_stop (pair_redirector i j) h)) = B"
    and "workers (snd (running_stop (pair_redirector i j) h)) = W"
    and "running (snd (running_stop (pair_redirector i j) h)) = running h"
    and "next_handle (snd (running_stop (pair_redirector i j) h)) = next_handle h"
    using assms
    by (auto simp: running_stop_def pair_redirector_def perform_def handle_shutdown_def emit_def
        join_worker_def handle_drop_def give_def)
  then show thesis by (metis that prod.collapse)
qed

subsection \<open>The contract of the redirector\<close>

text \<open>The two states of a process: it captures nothing, or has one pair of handles of its own.\<close>

definition idle_redirector :: "nat list \<Rightarrow> 'w host \<Rightarrow> bool" where
  "idle_redirector B h \<longleftrightarrow>
     fresh_bound h \<and> handles h = B \<and> workers h = [] \<and> running h = None"

definition active_redirector :: "nat list \<Rightarrow> 'w host \<Rightarrow> bool" where
  "active_redirector B h \<longleftrightarrow>
     fresh_bound h \<and>
     (\<exists>i j. i < j \<and> i \<notin> set B \<and> j \<notin> set B \<and> handles h = B @ [i, j] \<and>
       running h = Some (pair_redirector i j) \<and> workers h = rr_workers (pair_redirector i j))"

definition untouched_capture :: "'w host \<Rightarrow> 'w host \<Rightarrow> bool" where
  "untouched_capture h h' \<longleftrightarrow>
     handles h' = handles h \<and> workers h' = workers h \<and> running h' = running h \<and>
     next_handle h' = next_handle h"

text \<open>
  The contract of the trait \<open>PacketRedirector\<close>: a start from the idle state captures or changes
  nothing, a second one is refused, a stop always succeeds and ends in the idle state; none of
  them touches the sockets and tasks of the program.
\<close>

locale packet_redirector =
  fixes preflight :: "'c \<Rightarrow> ('w host, unit, 'e) io"
    and start :: "'d \<Rightarrow> ('w host, unit, 'e) io"
    and stop :: "('w host, unit, 'e) io"
    and idle :: "nat list \<Rightarrow> 'w host \<Rightarrow> bool"
    and active :: "nat list \<Rightarrow> 'w host \<Rightarrow> bool"
  assumes preflight_idle: "idle B h \<Longrightarrow> fst (preflight c h) \<noteq> Panic \<and> idle B (snd (preflight c h))"
    and preflight_active: "active B h \<Longrightarrow> fst (preflight c h) \<noteq> Panic \<and> active B (snd (preflight c h))"
    and start_idle: "idle B h \<Longrightarrow>
      (if fst (start d h) = Ok () then active B (snd (start d h))
       else fst (start d h) \<noteq> Panic \<and> idle B (snd (start d h)))"
    and start_active: "active B h \<Longrightarrow> (\<exists>x. fst (start d h) = Err x) \<and> active B (snd (start d h))"
    and stop_idle: "idle B h \<or> active B h \<Longrightarrow> fst (stop h) = Ok () \<and> idle B (snd (stop h))"
    and preflight_frame: "keeps capture_frame (preflight c)"
    and start_frame: "keeps capture_frame (start d)"
    and stop_frame: "keeps capture_frame stop"
    and idle_local: "untouched_capture h h' \<Longrightarrow> idle B h \<Longrightarrow> idle B h'"
    and active_local: "untouched_capture h h' \<Longrightarrow> active B h \<Longrightarrow> active B h'"

datatype ('c, 'd) redirector_op = Op_preflight 'c | Op_start 'd | Op_stop

fun redirector_ops ::
  "('c \<Rightarrow> ('w host, unit, 'e) io) \<Rightarrow> ('d \<Rightarrow> ('w host, unit, 'e) io) \<Rightarrow> ('w host, unit, 'e) io \<Rightarrow>
     ('c, 'd) redirector_op list \<Rightarrow> 'w host \<Rightarrow> 'w host" where
  "redirector_ops pre st sp [] h = h"
| "redirector_ops pre st sp (Op_preflight c # ops) h = redirector_ops pre st sp ops (snd (pre c h))"
| "redirector_ops pre st sp (Op_start d # ops) h = redirector_ops pre st sp ops (snd (st d h))"
| "redirector_ops pre st sp (Op_stop # ops) h = redirector_ops pre st sp ops (snd (sp h))"

context packet_redirector
begin

lemma ops_states:
  "idle B h \<or> active B h \<Longrightarrow>
     idle B (redirector_ops preflight start stop ops h) \<or> active B (redirector_ops preflight start stop ops h)"
proof (induction ops arbitrary: h)
  case (Cons op ops)
  have "idle B (snd (preflight c h)) \<or> active B (snd (preflight c h))" for c
    using Cons.prems preflight_idle preflight_active by blast
  moreover have "idle B (snd (start d h)) \<or> active B (snd (start d h))" for d
    using Cons.prems start_idle [of B h d] start_active [of B h d] by (auto split: if_splits)
  ultimately show ?case
    using Cons stop_idle [of B h] by (cases op) auto
qed simp

lemma ops_then_stop:
  assumes "idle B h"
  shows "fst (stop (redirector_ops preflight start stop ops h)) = Ok ()"
    and "idle B (snd (stop (redirector_ops preflight start stop ops h)))"
  using ops_states [of B h ops] assms stop_idle by blast+

end

lemma fresh_bound_same: "fresh_bound h \<Longrightarrow> same_capture h h' \<Longrightarrow> fresh_bound h'"
  by (auto simp: fresh_bound_def same_capture_def)

lemma fresh_bound_pair:
  "fresh_bound h \<Longrightarrow> next_handle h \<le> i \<Longrightarrow> i < j \<Longrightarrow> j < next_handle h' \<Longrightarrow>
     handles h' = handles h @ [i, j] \<Longrightarrow> fresh_bound h' \<and> i \<notin> set (handles h) \<and> j \<notin> set (handles h)"
  by (auto simp: fresh_bound_def dest: bspec)

lemma redirector_start_idle:
  assumes "idle_redirector B h"
  shows "if fst (redirector_start e c h) = Ok () then active_redirector B (snd (redirector_start e c h))
    else fst (redirector_start e c h) \<noteq> Panic \<and> idle_redirector B (snd (redirector_start e c h))"
proof -
  have fresh: "fresh_bound h" using assms by (simp add: idle_redirector_def)
  then show ?thesis
  proof (cases rule: windivert_start_cases [where e = e and c = c])
    case (started i j h')
    with assms fresh_bound_pair [OF fresh started(3,2,4,5)] show ?thesis
      by (auto simp: redirector_start_def perform_def wrap_def idle_redirector_def active_redirector_def
          fresh_bound_def)
  next
    case (failed x h')
    with assms fresh_bound_same [OF fresh failed(2)] show ?thesis
      by (simp add: redirector_start_def perform_def wrap_def idle_redirector_def same_capture_def)
  qed
qed

lemma redirector_start_active:
  assumes "active_redirector B h"
  shows "(\<exists>x. fst (redirector_start e c h) = Err x) \<and> active_redirector B (snd (redirector_start e c h))"
proof -
  have fresh: "fresh_bound h" using assms by (simp add: active_redirector_def)
  obtain k l where kl: "k < l" "k \<notin> set B" "l \<notin> set B" "handles h = B @ [k, l]"
    "running h = Some (pair_redirector k l)" "workers h = rr_workers (pair_redirector k l)"
    using assms by (auto simp: active_redirector_def)
  from fresh show ?thesis
  proof (cases rule: windivert_start_cases [where e = e and c = c])
    case (started i j h')
    have new: "i \<notin> set (handles h)" "j \<notin> set (handles h)"
      using fresh_bound_pair [OF fresh started(3,2,4,5)] by auto
    with kl have "set (workers h) \<inter> set (rr_workers (pair_redirector i j)) = {}"
      by (auto simp: pair_redirector_def)
    then obtain h'' where
      "(running_stop (pair_redirector i j) :: ('a host, unit, driver_error) io) h' = (Ok (), h'')"
      "handles h'' = handles h" "workers h'' = workers h" "running h'' = running h'"
      "next_handle h'' = next_handle h'"
      by (rule_tac running_stop_pair [of h' "handles h" i j "workers h"]) (use started new in simp_all)
    with started kl fresh show ?thesis
      by (auto simp: redirector_start_def perform_def wrap_def fail_def active_redirector_def fresh_bound_def)
  next
    case (failed x h')
    with assms fresh_bound_same [OF fresh failed(2)] show ?thesis
      by (simp add: redirector_start_def perform_def wrap_def active_redirector_def same_capture_def)
  qed
qed

lemma redirector_stop_idle:
  assumes "idle_redirector B h \<or> active_redirector B h"
  shows "fst (redirector_stop h) = Ok () \<and> idle_redirector B (snd (redirector_stop h))"
proof (cases "running h")
  case None
  with assms show ?thesis
    by (auto simp: redirector_stop_def active_redirector_def)
next
  case (Some r)
  with assms obtain i j where ij: "i \<notin> set B" "j \<notin> set B" "handles h = B @ [i, j]"
    "r = pair_redirector i j" "workers h = rr_workers (pair_redirector i j)" "fresh_bound h"
    by (auto simp: active_redirector_def idle_redirector_def)
  obtain h' where "(running_stop (pair_redirector i j) :: ('a host, unit, driver_error) io) (h\<lparr>running := None\<rparr>) = (Ok (), h')"
    "handles h' = B" "workers h' = []" "running h' = None" "next_handle h' = next_handle h"
    by (rule running_stop_pair [of "h\<lparr>running := None\<rparr>" B i j "[]"]) (use ij in simp_all)
  with Some ij show ?thesis
    by (auto simp: redirector_stop_def idle_redirector_def fresh_bound_def)
qed

interpretation wd: packet_redirector "redirector_preflight e" "redirector_start e" redirector_stop
  idle_redirector active_redirector for e :: "'w driver_env"
proof unfold_locales
  fix B and h :: "'w host" and c
  assume "idle_redirector B h"
  with preflight_capture [of h e c] fresh_bound_same [of h]
  show "fst (redirector_preflight e c h) \<noteq> Panic \<and> idle_redirector B (snd (redirector_preflight e c h))"
    by (auto simp: idle_redirector_def same_capture_def)
next
  fix B and h :: "'w host" and c
  assume "active_redirector B h"
  with preflight_capture [of h e c] fresh_bound_same [of h]
  show "fst (redirector_preflight e c h) \<noteq> Panic \<and> active_redirector B (snd (redirector_preflight e c h))"
    by (auto simp: active_redirector_def same_capture_def)
next
  fix B and h h' :: "'w host"
  assume "untouched_capture h h'"
  then show "idle_redirector B h \<Longrightarrow> idle_redirector B h'" "active_redirector B h \<Longrightarrow> active_redirector B h'"
    by (auto simp: untouched_capture_def idle_redirector_def active_redirector_def fresh_bound_def)
qed (simp_all add: redirector_start_idle redirector_start_active redirector_stop_idle
    capture_frame_preflight capture_frame_redirector_start capture_frame_redirector_stop)

subsection \<open>What a worker does\<close>

text \<open>The packets a worker gets before its handle has no more, and whether it was shut down.\<close>

fun received :: "worker_event list \<Rightarrow> byte list list" where
  "received [] = []"
| "received ((others, now, Receive_error code) # events) =
     (if code = error_no_data then [] else received events)"
| "received ((others, now, Received bytes) # events) = bytes # received events"

definition shut_down_in :: "worker_event list \<Rightarrow> bool" where
  "shut_down_in events \<longleftrightarrow> Receive_error error_no_data \<in> (snd \<circ> snd) ` set events"

definition answer_of :: "processor \<Rightarrow> redirector_config \<Rightarrow> byte list \<Rightarrow> packet_action \<times> byte list \<Rightarrow> bool" where
  "answer_of processor c bytes a \<longleftrightarrow>
     (\<exists>now t t'. processor c now t bytes = Ok (fst a, t', snd a))"

lemma run_worker_answers:
  assumes "\<And>now t p. \<exists>a t' q. processor c now t p = Ok (a, t', q)"
    and "list_all (\<lambda>b. length b \<le> windivert_mtu_max) (received events)"
  shows "\<exists>answers t'. list_all2 (answer_of processor c) (received events) answers \<and>
     run_worker processor c events t =
       Ok (map snd (filter (\<lambda>a. fst a = Send_packet) answers), t', shut_down_in events)"
  using assms(2)
proof (induction events arbitrary: t rule: received.induct)
  case 1
  then show ?case by (simp add: shut_down_in_def)
next
  case (2 others now code events)
  then show ?case by (cases "code = error_no_data") (auto simp: shut_down_in_def)
next
  case (3 others now bytes events)
  obtain a t1 q where p: "processor c now (others t) bytes = Ok (a, t1, q)" using assms(1) by blast
  obtain answers t' where rest: "list_all2 (answer_of processor c) (received events) answers"
    "run_worker processor c events t1 =
       Ok (map snd (filter (\<lambda>a. fst a = Send_packet) answers), t', shut_down_in events)"
    using 3 by fastforce
  have "answer_of processor c bytes (a, q)" using p by (auto simp: answer_of_def)
  with rest p 3(2) show ?case
    by (intro exI [of _ "(a, q) # answers"] exI [of _ t'])
      (cases a; simp add: shut_down_in_def not_less)
qed

lemma rewrite_returns:
  "(\<exists>r q. rewrite_destination p ip port = Ok (r, q)) \<and> (\<exists>r q. rewrite_source p ip port = Ok (r, q))"
proof (cases ip)
  case (V4 i)
  then show ?thesis
    by (cases "\<exists>pr. has_transport pr p") (auto simp: rewrite_none rewrite_eq)
qed (simp add: rewrite_destination_def rewrite_source_def)

lemma send_if_rewritten_returns:
  "\<exists>r q. m = Ok (r, q) \<Longrightarrow> \<exists>a t' q. send_if_rewritten t m = Ok (a, t', q)"
  by auto

lemma process_forward_returns: "\<exists>a t' q. process_forward_packet c now t p = Ok (a, t', q)"
  using parse_meta_no_panic [of p]
  by (auto simp: process_forward_packet_def redirect_to_def rewrite_returns
      intro!: send_if_rewritten_returns split: res.split redirect_decision.split)

lemma process_network_returns: "\<exists>a t' q. process_network_packet c now t p = Ok (a, t', q)"
  using parse_meta_no_panic [of p]
  by (auto simp: process_network_packet_def rewrite_returns
      intro!: send_if_rewritten_returns split: res.split ip_addr.split prod.split option.split)

subsection \<open>Properties\<close>

text \<open>C18: A worker thread, whatever the other threads do to the flow table between two packets:
  it answers the packets it receives one by one and in order, sends what its processor makes of
  each unless that is to drop it, survives every failed receive call, and ends exactly when its
  handle has been shut down. It never panics, for packets of at most the MTU it reads with.\<close>

theorem worker_answers_in_order:
  assumes "processor = process_forward_packet \<or> processor = process_network_packet"
    and "list_all (\<lambda>b. length b \<le> windivert_mtu_max) (received events)"
  shows "\<exists>answers t'. list_all2 (answer_of processor c) (received events) answers \<and>
     run_worker processor c events t =
       Ok (map snd (filter (\<lambda>a. fst a = Send_packet) answers), t', shut_down_in events)"
  using assms(1) by (intro run_worker_answers assms(2))
    (auto simp: process_forward_returns process_network_returns)

definition sample_events :: "worker_event list" where
  "sample_events =
     [(id, 5, Receive_error 122), (\<lambda>t. t, 6, Received sample_packet), (id, 7, Receive_error 232)]"

theorem worker_answers_in_order_witness:
  "\<exists>answers t'. list_all2 (answer_of process_forward_packet sample_config) [sample_packet] answers \<and>
     run_worker process_forward_packet sample_config sample_events (ft_new 4) =
       Ok (map snd (filter (\<lambda>a. fst a = Send_packet) answers), t', True)"
proof -
  have r: "received sample_events = [sample_packet]" by (simp add: sample_events_def error_no_data_def)
  have s: "shut_down_in sample_events" by (simp add: sample_events_def shut_down_in_def error_no_data_def)
  have "length sample_packet \<le> 100" by code_simp
  then have "list_all (\<lambda>b. length b \<le> windivert_mtu_max) (received sample_events)"
    by (simp add: r windivert_mtu_max_def)
  with worker_answers_in_order [of process_forward_packet sample_events sample_config "ft_new 4"] r s
  show ?thesis by simp
qed

text \<open>C14: The redirector never leaks a handle or a thread. Whatever sequence of preflights, starts
  and stops a process performs, and whichever of them fail, it holds no capture handle and no
  worker unless a start succeeded, then exactly the two of that start; a stop at the end always
  succeeds and leaves the handles open in the system as they were when the process began.\<close>

theorem redirector_never_leaks:
  assumes "fresh_bound h"
    and "h' = redirector_ops (redirector_preflight e) (redirector_start e) redirector_stop ops (fresh_process h)"
  shows "(case running h' of
       None \<Rightarrow> handles h' = handles h \<and> workers h' = []
     | Some r \<Rightarrow> \<exists>i j. i < j \<and> r = pair_redirector i j \<and> handles h' = handles h @ [i, j] \<and>
         workers h' = rr_workers r) \<and>
     fst (redirector_stop h') = Ok () \<and>
     handles (snd (redirector_stop h')) = handles h \<and> workers (snd (redirector_stop h')) = []"
proof -
  have start: "idle_redirector (handles h) (fresh_process h)"
    using assms(1) by (simp add: idle_redirector_def fresh_process_def fresh_bound_def)
  then have "idle_redirector (handles h) h' \<or> active_redirector (handles h) h'"
    unfolding assms(2) by (rule wd.ops_states [OF disjI1])
  moreover have "fst (redirector_stop h') = Ok ()" "idle_redirector (handles h) (snd (redirector_stop h'))"
    unfolding assms(2) by (rule wd.ops_then_stop [OF start])+
  ultimately show ?thesis
    by (auto simp: idle_redirector_def active_redirector_def)
qed

text \<open>A host on which another process has a handle open, and a driver that answers every open call.\<close>

definition sample_host :: "unit host" where
  "sample_host =
     \<lparr>clock = 0, late = (\<lambda>t. 0), actions = [], handles = [3], next_handle = 8, workers = [], running = None,
      sockets = [], tasks = [], world = ()\<rparr>"

definition sample_search :: search_env where
  "sample_search =
     \<lparr>se_var = (\<lambda>v. None), se_current_dir = None, se_exe_dir = Some (lit ''C:''), se_is_file = (\<lambda>p. True)\<rparr>"

definition sample_driver :: "unit driver_env" where
  "sample_driver =
     \<lparr>de_search = sample_search, de_load_library = (\<lambda>p. True), de_symbol = (\<lambda>p s. True),
      de_open = (\<lambda>f w. (None, 1, w))\<rparr>"

theorem redirector_never_leaks_witness:
  "handles (snd (redirector_stop (redirector_ops (redirector_preflight sample_driver)
      (redirector_start sample_driver) redirector_stop
      [Op_start sample_config, Op_start sample_config] (fresh_process sample_host)))) = [3]"
proof -
  have "fresh_bound sample_host" by (simp add: fresh_bound_def sample_host_def)
  from redirector_never_leaks [OF this refl, of sample_driver "[Op_start sample_config, Op_start sample_config]"]
  show ?thesis by (simp add: sample_host_def)
qed

end
