(* ===== verification/Tls.thy ===== *)
theory Tls
  imports Rust_Str
begin

section \<open>The server name of a TLS ClientHello (src/src/proxy.rs)\<close>

text \<open>
  The parser that finds the server name in the record of a ClientHello, with its checked and
  unchecked accesses as the source has them. Its loops over the extensions and over the
  names of the SNI extension are functions with the distance to their end as measure.

  The lemmas show that no record makes it panic, that a name it returns is a part of the record,
  and that on a record laid out as the protocol says it returns the first host name of
  the SNI extension, whatever other extensions and name types come before it.
\<close>

datatype tls_error =
  Not_client_hello | Length_exceeds_record | Missing_session_id | Missing_compression
| Extensions_exceed_record | Extension_exceeds_block | No_sni
| Sni_list_exceeds | Sni_name_exceeds | Sni_not_utf8 | No_host_name
| Short_u16 | Short_u24
| Not_handshake byte | Invalid_record_length nat | Closed

definition read_u16_at :: "byte list \<Rightarrow> nat \<Rightarrow> (u16, tls_error) res" where
  "read_u16_at bytes offset =
     (if offset + 2 \<le> length bytes then Ok (from_be16 (bytes ! offset) (bytes ! (offset + 1)))
      else Err Short_u16)"

definition read_u24 :: "byte list \<Rightarrow> (nat, tls_error) res" where
  "read_u24 bytes =
     (if length bytes < 3 then Err Short_u24
      else idx bytes 0 (\<lambda>a. idx bytes 1 (\<lambda>b. idx bytes 2 (\<lambda>c.
        Ok (unat a * 65536 + unat b * 256 + unat c)))))"

text \<open>The loop over the names of the SNI extension.\<close>

function sni_loop :: "byte list \<Rightarrow> nat \<Rightarrow> nat \<Rightarrow> (str, tls_error) res" where
  "sni_loop extension list_end offset =
     (if offset + 3 \<le> list_end
      then
        idx extension offset (\<lambda>name_type.
        attempt (read_u16_at extension (offset + 1)) (\<lambda>len.
          let offset' = offset + 3; name_end = offset' + unat len in
          if list_end < name_end then Err Sni_name_exceeds
          else if name_type = 0
          then slice extension offset' name_end (\<lambda>bytes. ok_or (from_utf8 bytes) Sni_not_utf8)
          else sni_loop extension list_end name_end))
      else Err No_host_name)"
  by pat_completeness auto
termination
  by (relation "measure (\<lambda>(extension, list_end, offset). list_end - offset)") auto

definition parse_sni_extension :: "byte list \<Rightarrow> (str, tls_error) res" where
  "parse_sni_extension extension =
     attempt (read_u16_at extension 0) (\<lambda>n.
       let list_len = unat n in
       if length extension < list_len + 2 then Err Sni_list_exceeds
       else sni_loop extension (2 + list_len) 2)"

text \<open>The loop over the extensions.\<close>

function extension_loop :: "byte list \<Rightarrow> nat \<Rightarrow> nat \<Rightarrow> (str, tls_error) res" where
  "extension_loop body extensions_end offset =
     (if offset + 4 \<le> extensions_end
      then
        attempt (read_u16_at body offset) (\<lambda>extension_type.
        attempt (read_u16_at body (offset + 2)) (\<lambda>len.
          let offset' = offset + 4; extension_end = offset' + unat len in
          if extensions_end < extension_end then Err Extension_exceeds_block
          else if extension_type = 0
          then slice body offset' extension_end parse_sni_extension
          else extension_loop body extensions_end extension_end))
      else Err No_sni)"
  by pat_completeness auto
termination
  by (relation "measure (\<lambda>(body, extensions_end, offset). extensions_end - offset)") auto

declare sni_loop.simps [simp del] extension_loop.simps [simp del]

definition parse_tls_sni_from_record :: "byte list \<Rightarrow> (str, tls_error) res" where
  "parse_tls_sni_from_record body =
     (if length body < 42 then Err Not_client_hello
      else idx body 0 (\<lambda>b0.
        if b0 \<noteq> 1 then Err Not_client_hello
        else
          slice body 1 4 (\<lambda>l3.
          attempt (read_u24 l3) (\<lambda>handshake_len.
          if length body < handshake_len + 4 then Err Length_exceeds_record
          else
            let offset = 4 + 2 + 32 in
            attempt (ok_or (get_at body offset) Missing_session_id) (\<lambda>s.
            let offset = offset + (1 + unat s) in
            attempt (read_u16_at body offset) (\<lambda>cipher_len.
            let offset = offset + (2 + unat cipher_len) in
            attempt (ok_or (get_at body offset) Missing_compression) (\<lambda>c.
            let offset = offset + (1 + unat c) in
            attempt (read_u16_at body offset) (\<lambda>extensions_len.
            let offset = offset + 2; extensions_end = offset + unat extensions_len in
            if length body < extensions_end then Err Extensions_exceed_record
            else extension_loop body extensions_end offset))))))))"

subsection \<open>No record makes the parser panic, and no name is made up\<close>

definition part_of :: "byte list \<Rightarrow> byte list \<Rightarrow> bool" where
  "part_of xs ys \<longleftrightarrow> (\<exists>pre post. ys = pre @ xs @ post)"

lemma part_of_slice: "part_of xs (take n (drop a ys)) \<Longrightarrow> part_of xs ys"
proof -
  assume "part_of xs (take n (drop a ys))"
  then obtain pre post where "take n (drop a ys) = pre @ xs @ post" by (auto simp: part_of_def)
  then have "ys = take a ys @ (pre @ xs @ post) @ drop n (drop a ys)"
    by (metis append_take_drop_id)
  then have "ys = (take a ys @ pre) @ xs @ (post @ drop n (drop a ys))" by simp
  then show ?thesis unfolding part_of_def by blast
qed

lemma part_of_self: "part_of xs xs"
  unfolding part_of_def by (metis append_Nil append_Nil2)

lemma read_u16_Ok: "read_u16_at bytes i = Ok w \<longleftrightarrow> i + 2 \<le> length bytes \<and> w = be16_at bytes i"
  by (auto simp: read_u16_at_def be16_at_def)

lemma read_u16_no_panic [panic_free]: "read_u16_at bytes i \<noteq> Panic"
  by (simp add: read_u16_at_def)

definition safe_result :: "byte list \<Rightarrow> (str, tls_error) res \<Rightarrow> bool" where
  "safe_result bytes r = (case r of Ok name \<Rightarrow> part_of (as_bytes name) bytes | Err _ \<Rightarrow> True | Panic \<Rightarrow> False)"

lemma safe_result_Err [simp]: "safe_result bytes (Err e)"
  by (simp add: safe_result_def)

lemma safe_attempt:
  "r \<noteq> Panic \<Longrightarrow> (\<And>a. r = Ok a \<Longrightarrow> safe_result bytes (k a)) \<Longrightarrow> safe_result bytes (attempt r k)"
  by (cases r) auto

lemma safe_sub: "safe_result (take n (drop a ys)) r \<Longrightarrow> safe_result ys r"
  by (auto simp: safe_result_def intro: part_of_slice split: res.splits)

lemma safe_utf8: "safe_result bytes (ok_or (from_utf8 bytes) e)"
  by (cases "from_utf8 bytes") (auto simp: safe_result_def part_of_self dest: as_bytes_from_utf8)

lemmas safe_utf8_sub = safe_utf8 [of "take n (drop a ys)" for n a ys, THEN safe_sub]

lemma sni_loop_safe: "list_end \<le> length extension \<Longrightarrow> safe_result extension (sni_loop extension list_end offset)"
proof (induction extension list_end offset rule: sni_loop.induct)
  case (1 extension list_end offset)
  show ?case
  proof (cases "offset + 3 \<le> list_end")
    case True
    with 1 show ?thesis
      by (subst sni_loop.simps)
        (auto simp: Let_def read_u16_no_panic read_u16_Ok intro!: safe_attempt safe_utf8_sub)
  qed (subst sni_loop.simps, simp)
qed

lemma parse_sni_safe: "safe_result extension (parse_sni_extension extension)"
  by (auto simp: parse_sni_extension_def Let_def read_u16_no_panic intro!: safe_attempt sni_loop_safe)

lemmas parse_sni_safe_sub = parse_sni_safe [of "take n (drop a ys)" for n a ys, THEN safe_sub]

lemma extension_loop_safe:
  "extensions_end \<le> length body \<Longrightarrow> safe_result body (extension_loop body extensions_end offset)"
proof (induction body extensions_end offset rule: extension_loop.induct)
  case (1 body extensions_end offset)
  show ?case
  proof (cases "offset + 4 \<le> extensions_end")
    case True
    with 1 show ?thesis
      by (subst extension_loop.simps)
        (auto simp: Let_def read_u16_no_panic read_u16_Ok intro!: safe_attempt parse_sni_safe_sub)
  qed (subst extension_loop.simps, simp)
qed

lemma parse_record_safe: "safe_result body (parse_tls_sni_from_record body)"
proof (cases "length body < 42")
  case False
  then have "body \<noteq> []" by auto
  with False show ?thesis
    by (auto simp: parse_tls_sni_from_record_def Let_def read_u16_no_panic read_u24_def
        intro!: safe_attempt extension_loop_safe)
qed (simp add: parse_tls_sni_from_record_def)


subsection \<open>Records laid out as the protocol says\<close>

definition len16 :: "byte list \<Rightarrow> byte list" where
  "len16 xs = to_be16 (word_of_nat (length xs)) @ xs"

definition encode_names :: "(byte \<times> byte list) list \<Rightarrow> byte list" where
  "encode_names ns = concat (map (\<lambda>(t, n). t # len16 n) ns)"

definition encode_extensions :: "(u16 \<times> byte list) list \<Rightarrow> byte list" where
  "encode_extensions es = concat (map (\<lambda>(t, d). to_be16 t @ len16 d) es)"

definition len8 :: "byte list \<Rightarrow> byte list" where
  "len8 xs = word_of_nat (length xs) # xs"

definition client_hello ::
  "byte list \<Rightarrow> byte list \<Rightarrow> byte list \<Rightarrow> byte list \<Rightarrow> byte list \<Rightarrow> (u16 \<times> byte list) list \<Rightarrow> byte list \<Rightarrow> byte list" where
  "client_hello len version_random session ciphers compressions es rest =
     1 # len @ version_random @ len8 session @ len16 ciphers @ len8 compressions @
     len16 (encode_extensions es) @ rest"

lemma u16_read: "i = length pre \<Longrightarrow> read_u16_at (pre @ to_be16 w @ post) i = Ok w"
  by (simp add: read_u16_Ok be16_append)

lemma len16_unat: "length xs < 65536 \<Longrightarrow> unat (word_of_nat (length xs) :: u16) = length xs"
  by (simp add: unsigned_of_nat take_bit_eq_mod)

lemma len16_read: "i = length pre \<Longrightarrow> read_u16_at (pre @ len16 xs @ post) i = Ok (word_of_nat (length xs))"
  using u16_read [of i pre "word_of_nat (length xs)" "xs @ post"] by (simp add: len16_def)

lemma length_len [simp]: "length (len16 xs) = 2 + length xs" "length (len8 xs) = 1 + length xs"
  by (simp_all add: len16_def len8_def)

lemma take_part: "a = length pre \<Longrightarrow> n = length xs \<Longrightarrow> take n (drop a (pre @ xs @ post)) = xs"
  by simp

lemma sni_loop_names:
  assumes "\<forall>(t, n) \<in> set ns. t \<noteq> 0 \<and> length n < 65536" "length name < 65536"
    and "list_end = length pre + length (encode_names ns) + 3 + length name + length more"
    and "extension = pre @ encode_names ns @ (0 # len16 name) @ more @ rest"
  shows "sni_loop extension list_end (length pre) = ok_or (from_utf8 name) Sni_not_utf8"
  using assms
proof (induction ns arbitrary: pre)
  case Nil
  have u: "read_u16_at extension (length pre + 1) = Ok (word_of_nat (length name))"
    using len16_read [of "length pre + 1" "pre @ [0]" name "more @ rest"] Nil
    by (simp add: encode_names_def)
  have "take (length name) (drop (length pre + 3) extension) = name"
    using take_part [of _ "pre @ [0] @ to_be16 (word_of_nat (length name))" _ name "more @ rest"] Nil
    by (simp add: encode_names_def len16_def)
  moreover have "extension ! length pre = 0" using Nil by (simp add: encode_names_def nth_append)
  ultimately show ?case
    using Nil u by (subst sni_loop.simps) (simp add: encode_names_def len16_unat)
next
  case (Cons x ns)
  obtain t n where x: "x = (t, n)" by (cases x)
  have n: "t \<noteq> 0" "length n < 65536" using Cons.prems(1) x by auto
  define pre' where "pre' = pre @ t # len16 n"
  have ext: "extension = pre' @ encode_names ns @ (0 # len16 name) @ more @ rest"
    using Cons.prems(4) by (simp add: pre'_def encode_names_def x)
  have e: "list_end = length pre' + length (encode_names ns) + 3 + length name + length more"
    using Cons.prems(3) by (simp add: pre'_def encode_names_def x)
  have u: "read_u16_at extension (length pre + 1) = Ok (word_of_nat (length n))"
    using len16_read [of "length pre + 1" "pre @ [t]" n "encode_names ns @ (0 # len16 name) @ more @ rest"] ext
    by (simp add: pre'_def)
  have t: "extension ! length pre = t" using ext by (simp add: pre'_def nth_append)
  have pl: "length pre' = length pre + 3 + length n" "length pre < length extension"
    using ext by (simp_all add: pre'_def)
  then have "sni_loop extension list_end (length pre) = sni_loop extension list_end (length pre')"
    using u n e t by (subst sni_loop.simps) (simp add: len16_unat)
  also have "\<dots> = ok_or (from_utf8 name) Sni_not_utf8"
    using Cons.prems by (intro Cons.IH [OF _ _ e ext]) auto
  finally show ?case .
qed


lemma extension_loop_skip:
  assumes "\<forall>(t, d) \<in> set es. t \<noteq> 0 \<and> length d < 65536" "length data < 65536"
    and "extensions_end = length pre + length (encode_extensions es) + 4 + length data + length more"
    and "body = pre @ encode_extensions es @ (to_be16 0 @ len16 data) @ more @ rest"
  shows "extension_loop body extensions_end (length pre) = parse_sni_extension data"
  using assms
proof (induction es arbitrary: pre)
  case Nil
  have u: "read_u16_at body (length pre + 2) = Ok (word_of_nat (length data))"
    using len16_read [of "length pre + 2" "pre @ to_be16 0" data "more @ rest"] Nil
    by (simp add: encode_extensions_def)
  have t: "read_u16_at body (length pre) = Ok 0"
    using u16_read [of "length pre" pre 0 "len16 data @ more @ rest"] Nil
    by (simp add: encode_extensions_def)
  have "take (length data) (drop (length pre + 4) body) = data"
    using take_part [of _ "pre @ to_be16 0 @ to_be16 (word_of_nat (length data))" _ data "more @ rest"] Nil
    by (simp add: encode_extensions_def len16_def)
  then show ?case
    using Nil u t by (subst extension_loop.simps) (simp add: encode_extensions_def len16_unat)
next
  case (Cons x es)
  obtain t d where x: "x = (t, d)" by (cases x)
  have d: "t \<noteq> 0" "length d < 65536" using Cons.prems(1) x by auto
  define pre' where "pre' = pre @ to_be16 t @ len16 d"
  have body: "body = pre' @ encode_extensions es @ (to_be16 0 @ len16 data) @ more @ rest"
    using Cons.prems(4) by (simp add: pre'_def encode_extensions_def x)
  have e: "extensions_end = length pre' + length (encode_extensions es) + 4 + length data + length more"
    using Cons.prems(3) by (simp add: pre'_def encode_extensions_def x)
  have u: "read_u16_at body (length pre + 2) = Ok (word_of_nat (length d))"
    using len16_read [of "length pre + 2" "pre @ to_be16 t" d "encode_extensions es @ (to_be16 0 @ len16 data) @ more @ rest"] body
    by (simp add: pre'_def)
  have t: "read_u16_at body (length pre) = Ok t"
    using u16_read [of "length pre" pre t "len16 d @ encode_extensions es @ (to_be16 0 @ len16 data) @ more @ rest"] body
    by (simp add: pre'_def)
  have "length pre' = length pre + 4 + length d" by (simp add: pre'_def)
  then have "extension_loop body extensions_end (length pre) = extension_loop body extensions_end (length pre')"
    using u d e t by (subst extension_loop.simps) (simp add: len16_unat)
  also have "\<dots> = parse_sni_extension data"
    using Cons.prems by (intro Cons.IH [OF _ _ e body]) auto
  finally show ?case .
qed

lemma extension_loop_none:
  assumes "\<forall>(t, d) \<in> set es. t \<noteq> 0 \<and> length d < 65536"
    and "extensions_end = length pre + length (encode_extensions es)"
    and "body = pre @ encode_extensions es @ rest"
  shows "extension_loop body extensions_end (length pre) = Err No_sni"
  using assms
proof (induction es arbitrary: pre)
  case Nil
  then show ?case by (subst extension_loop.simps) (simp add: encode_extensions_def)
next
  case (Cons x es)
  obtain t d where x: "x = (t, d)" by (cases x)
  have d: "t \<noteq> 0" "length d < 65536" using Cons.prems(1) x by auto
  define pre' where "pre' = pre @ to_be16 t @ len16 d"
  have body: "body = pre' @ encode_extensions es @ rest"
    using Cons.prems(3) by (simp add: pre'_def encode_extensions_def x)
  have e: "extensions_end = length pre' + length (encode_extensions es)"
    using Cons.prems(2) by (simp add: pre'_def encode_extensions_def x)
  have u: "read_u16_at body (length pre + 2) = Ok (word_of_nat (length d))"
    using len16_read [of "length pre + 2" "pre @ to_be16 t" d "encode_extensions es @ rest"] body
    by (simp add: pre'_def)
  have t: "read_u16_at body (length pre) = Ok t"
    using u16_read [of "length pre" pre t "len16 d @ encode_extensions es @ rest"] body
    by (simp add: pre'_def)
  have "length pre' = length pre + 4 + length d" by (simp add: pre'_def)
  then have "extension_loop body extensions_end (length pre) = extension_loop body extensions_end (length pre')"
    using u d e t by (subst extension_loop.simps) (simp add: len16_unat)
  also have "\<dots> = Err No_sni"
    using Cons.prems by (intro Cons.IH [OF _ e body]) auto
  finally show ?case .
qed

lemma parse_record_steps:
  assumes "42 \<le> length body" "body ! 0 = 1" "read_u24 (take 3 (drop 1 body)) = Ok n" "n + 4 \<le> length body"
    and "get_at body 38 = Some s" "read_u16_at body o1 = Ok cl" "get_at body o2 = Some c" "read_u16_at body o3 = Ok el"
    and "o1 = 38 + (1 + unat s)" "o2 = o1 + (2 + unat cl)" "o3 = o2 + (1 + unat c)" "o4 = o3 + 2"
    and "e = o4 + unat el" "e \<le> length body"
  shows "parse_tls_sni_from_record body = extension_loop body e o4"
proof -
  have "body \<noteq> []" using assms(1) by auto
  then show ?thesis using assms by (simp add: parse_tls_sni_from_record_def add.assoc)
qed

lemma client_hello_parse:
  assumes "length version_random = 34" "length session < 256" "length ciphers < 65536"
    and "length compressions < 256" "length (encode_extensions es) < 65536"
    and "length len = 3" "read_u24 len = Ok n"
    and "n + 4 \<le> length (client_hello len version_random session ciphers compressions es rest)"
  shows "\<exists>pre. client_hello len version_random session ciphers compressions es rest = pre @ encode_extensions es @ rest \<and>
     parse_tls_sni_from_record (client_hello len version_random session ciphers compressions es rest) =
       extension_loop (client_hello len version_random session ciphers compressions es rest)
         (length pre + length (encode_extensions es)) (length pre)"
proof -
  let ?b = "client_hello len version_random session ciphers compressions es rest"
  define p1 where "p1 = 1 # len @ version_random"
  define p2 where "p2 = p1 @ len8 session"
  define p3 where "p3 = p2 @ len16 ciphers"
  define p4 where "p4 = p3 @ len8 compressions"
  define pre where "pre = p4 @ to_be16 (word_of_nat (length (encode_extensions es)))"
  note ps = p1_def p2_def p3_def p4_def pre_def
  have l: "length p1 = 38" "length p2 = 39 + length session" "length p3 = length p2 + (2 + length ciphers)"
    "length p4 = length p3 + (1 + length compressions)" "length pre = length p4 + 2"
    using assms by (simp_all add: ps)
  have b: "?b = p1 @ len8 session @ len16 ciphers @ len8 compressions @ len16 (encode_extensions es) @ rest"
    "?b = p2 @ len16 ciphers @ len8 compressions @ len16 (encode_extensions es) @ rest"
    "?b = p3 @ len8 compressions @ len16 (encode_extensions es) @ rest"
    "?b = p4 @ len16 (encode_extensions es) @ rest"
    "?b = pre @ encode_extensions es @ rest"
    by (simp_all add: ps client_hello_def len16_def)
  have u8: "unat (word_of_nat m :: byte) = m" if "m < 256" for m
    using that by (simp add: unsigned_of_nat take_bit_eq_mod)
  have g: "get_at ?b (length p1) = Some (word_of_nat (length session))"
    unfolding b(1) by (simp add: get_at_def nth_append len8_def)
  have h: "get_at ?b (length p3) = Some (word_of_nat (length compressions))"
    unfolding b(3) by (simp add: get_at_def nth_append len8_def)
  have c: "read_u16_at ?b (length p2) = Ok (word_of_nat (length ciphers))"
    unfolding b(2) by (rule len16_read) simp
  have x: "read_u16_at ?b (length p4) = Ok (word_of_nat (length (encode_extensions es)))"
    unfolding b(4) by (rule len16_read) simp
  have len: "42 \<le> length ?b" using l b(5) by (simp add: client_hello_def assms)
  have z: "?b ! 0 = 1" "take 3 (drop 1 ?b) = len" using assms(6) by (simp_all add: client_hello_def)
  have "parse_tls_sni_from_record ?b = extension_loop ?b (length pre + length (encode_extensions es)) (length pre)"
  proof (rule parse_record_steps)
    show "read_u24 (take 3 (drop 1 ?b)) = Ok n" using z(2) assms(7) by simp
    show "get_at ?b 38 = Some (word_of_nat (length session))" using g l(1) by simp
    show "length p2 = 38 + (1 + unat (word_of_nat (length session) :: byte))"
      using l(2) u8 [OF assms(2)] by simp
    show "length p3 = length p2 + (2 + unat (word_of_nat (length ciphers) :: u16))"
      using l(3) len16_unat [OF assms(3)] by simp
    show "length p4 = length p3 + (1 + unat (word_of_nat (length compressions) :: byte))"
      using l(4) u8 [OF assms(4)] by simp
    show "length pre + length (encode_extensions es) =
        length pre + unat (word_of_nat (length (encode_extensions es)) :: u16)"
      using len16_unat [OF assms(5)] by simp
    show "length pre + length (encode_extensions es) \<le> length ?b" unfolding b(5) by simp
  qed (fact len z(1) assms(8) c h x l(5))+
  then show ?thesis using b(5) by blast
qed


lemma sni_loop_none:
  assumes "\<forall>(t, n) \<in> set ns. t \<noteq> 0 \<and> length n < 65536"
    and "list_end = length pre + length (encode_names ns)" and "extension = pre @ encode_names ns @ rest"
  shows "sni_loop extension list_end (length pre) = Err No_host_name"
  using assms
proof (induction ns arbitrary: pre)
  case Nil
  then show ?case by (subst sni_loop.simps) (simp add: encode_names_def)
next
  case (Cons x ns)
  obtain t n where x: "x = (t, n)" by (cases x)
  have n: "t \<noteq> 0" "length n < 65536" using Cons.prems(1) x by auto
  define pre' where "pre' = pre @ t # len16 n"
  have ext: "extension = pre' @ encode_names ns @ rest"
    using Cons.prems(3) by (simp add: pre'_def encode_names_def x)
  have e: "list_end = length pre' + length (encode_names ns)"
    using Cons.prems(2) by (simp add: pre'_def encode_names_def x)
  have u: "read_u16_at extension (length pre + 1) = Ok (word_of_nat (length n))"
    using len16_read [of "length pre + 1" "pre @ [t]" n "encode_names ns @ rest"] ext
    by (simp add: pre'_def)
  have t: "extension ! length pre = t" using ext by (simp add: pre'_def nth_append)
  have "length pre' = length pre + 3 + length n" "length pre < length extension"
    using ext by (simp_all add: pre'_def)
  then have "sni_loop extension list_end (length pre) = sni_loop extension list_end (length pre')"
    using u n e t by (subst sni_loop.simps) (simp add: len16_unat)
  also have "\<dots> = Err No_host_name"
    using Cons.prems by (intro Cons.IH [OF _ e ext]) auto
  finally show ?case .
qed

lemma encode_names_append: "encode_names (xs @ ys) = encode_names xs @ encode_names ys"
  by (simp add: encode_names_def)

lemma encode_extensions_append: "encode_extensions (xs @ ys) = encode_extensions xs @ encode_extensions ys"
  by (simp add: encode_extensions_def)

lemma name_length_le: "(t, n) \<in> set ns \<Longrightarrow> length n + 3 \<le> length (encode_names ns)"
  by (induction ns) (auto simp: encode_names_def)

lemma extension_length_le: "(t, d) \<in> set es \<Longrightarrow> length d + 4 \<le> length (encode_extensions es)"
  by (induction es) (auto simp: encode_extensions_def)

text \<open>The first entry of type 0, if there is one, and what comes before it.\<close>

fun first_zero :: "('t :: zero \<times> 'd) list \<Rightarrow> 'd option" where
  "first_zero [] = None"
| "first_zero ((t, d) # rest) = (if t = 0 then Some d else first_zero rest)"

lemma first_zero_Some:
  "first_zero xs = Some d \<Longrightarrow> \<exists>ys zs. xs = ys @ (0, d) # zs \<and> (\<forall>(t, d) \<in> set ys. t \<noteq> 0)"
proof (induction xs rule: first_zero.induct)
  case (2 t d' rest)
  show ?case
  proof (cases "t = 0")
    case True
    with 2 show ?thesis by (intro exI [of _ "[]"] exI [of _ rest]) simp
  next
    case False
    with 2 obtain ys zs where "rest = ys @ (0, d) # zs" "\<forall>(t, d) \<in> set ys. t \<noteq> 0" by auto
    with False show ?thesis by (intro exI [of _ "(t, d') # ys"] exI [of _ zs]) simp
  qed
qed simp

lemma first_zero_None: "first_zero xs = None \<Longrightarrow> \<forall>(t, d) \<in> set xs. t \<noteq> 0"
  by (induction xs rule: first_zero.induct) (auto split: if_splits)

subsection \<open>Properties\<close>

text \<open>C34: No record, whatever its bytes, makes the server name parser panic; and a server name it
  returns is a part of the record, byte for byte, so a client is never sent to a host that its
  ClientHello does not contain.\<close>

theorem sni_parser_safe:
  "case parse_tls_sni_from_record body of
     Ok name \<Rightarrow> \<exists>pre post. body = pre @ as_bytes name @ post
   | Err _ \<Rightarrow> True
   | Panic \<Rightarrow> False"
  using parse_record_safe [of body] by (auto simp: safe_result_def part_of_def split: res.splits)

text \<open>On a ClientHello laid out as the protocol says, with any session identifier, cipher
  suites, compression methods and extensions that fit their length fields, the parser hands
  the data of the first server name extension to the parser of that extension, and reports that
  there is none exactly if there is none; bytes after the extensions do not matter.\<close>

theorem client_hello_sni:
  assumes "length version_random = 34" "length session < 256" "length ciphers < 65536"
    and "length compressions < 256" "length (encode_extensions es) < 65536"
    and "length len = 3" "read_u24 len = Ok n"
    and "n + 4 \<le> length (client_hello len version_random session ciphers compressions es rest)"
  shows "parse_tls_sni_from_record (client_hello len version_random session ciphers compressions es rest) =
     (case first_zero es of Some data \<Rightarrow> parse_sni_extension data | None \<Rightarrow> Err No_sni)"
proof -
  let ?b = "client_hello len version_random session ciphers compressions es rest"
  obtain pre where pre: "?b = pre @ encode_extensions es @ rest"
    "parse_tls_sni_from_record ?b = extension_loop ?b (length pre + length (encode_extensions es)) (length pre)"
    using client_hello_parse [OF assms] by blast
  have small: "length d < 65536" if "(t, d) \<in> set es" for t d
    using extension_length_le [OF that] assms(5) by simp
  show ?thesis
  proof (cases "first_zero es")
    case None
    have "\<forall>(t, d) \<in> set es. t \<noteq> 0 \<and> length d < 65536"
      using first_zero_None [OF None] by (auto intro: small)
    then have "extension_loop ?b (length pre + length (encode_extensions es)) (length pre) = Err No_sni"
      by (rule extension_loop_none [OF _ refl pre(1)])
    with None pre(2) show ?thesis by simp
  next
    case (Some data)
    obtain es1 es2 where es: "es = es1 @ (0, data) # es2" "\<forall>(t, d) \<in> set es1. t \<noteq> 0"
      using first_zero_Some [OF Some] by (elim exE conjE) (rule that)
    have "extension_loop ?b (length pre + length (encode_extensions es)) (length pre) = parse_sni_extension data"
    proof (rule extension_loop_skip)
      show "\<forall>(t, d) \<in> set es1. t \<noteq> 0 \<and> length d < 65536" using es small by auto
      show "length data < 65536" using small [of 0 data] es by simp
      show "?b = pre @ encode_extensions es1 @ (to_be16 0 @ len16 data) @ encode_extensions es2 @ rest"
      proof -
        have "encode_extensions es = encode_extensions es1 @ (to_be16 0 @ len16 data) @ encode_extensions es2"
          by (simp add: es(1) encode_extensions_def)
        then show ?thesis by (simp only: pre(1) append_assoc)
      qed
    qed (simp add: es(1) encode_extensions_def)
    with Some pre(2) show ?thesis by simp
  qed
qed

theorem client_hello_sni_witness:
  "parse_tls_sni_from_record
     (client_hello [0, 0, 60] (replicate 34 0) [] [0x13, 0x01] [0] [(10, [0, 0]), (0, len16 (encode_names [(0, ascii ''a.b'')]))] []) =
   parse_sni_extension (len16 (encode_names [(0, ascii ''a.b'')]))"
proof -
  let ?es = "[(10, [0, 0]), (0, len16 (encode_names [(0, ascii ''a.b'')]))]"
  have u: "read_u24 [0, 0, 60] = Ok 60" by (simp add: read_u24_def)
  have l: "60 + 4 \<le> length (client_hello [0, 0, 60] (replicate 34 0) [] [0x13, 0x01] [0] ?es [])"
    by code_simp
  have "length (encode_extensions ?es) = 18" by code_simp
  then have e: "length (encode_extensions ?es) < 65536" by simp
  show ?thesis
    using client_hello_sni [OF _ _ _ _ e _ u l] by simp
qed

text \<open>A server name extension that lists names of any types is read as the first host name
  among them; a host name that a client encoded comes out as the client meant it.\<close>

theorem sni_extension_roundtrip:
  assumes "length (encode_names ns) < 65536"
  shows "parse_sni_extension (len16 (encode_names ns) @ rest) =
      (case first_zero ns of
         Some name \<Rightarrow> ok_or (from_utf8 name) Sni_not_utf8
       | None \<Rightarrow> Err No_host_name) \<and>
    (first_zero ns = Some (as_bytes host) \<longrightarrow> list_all scalar_value host \<longrightarrow>
      parse_sni_extension (len16 (encode_names ns) @ rest) = Ok host)"
proof -
  let ?e = "len16 (encode_names ns) @ rest"
  define pre where "pre = to_be16 (word_of_nat (length (encode_names ns)))"
  have pre: "length pre = 2" "?e = pre @ encode_names ns @ rest" by (simp_all add: pre_def len16_def)
  have small: "length d < 65536" if "(t, d) \<in> set ns" for t d
    using name_length_le [OF that] assms(1) by simp
  have "read_u16_at ?e 0 = Ok (word_of_nat (length (encode_names ns)))"
    using len16_read [of 0 "[]" "encode_names ns" rest] by simp
  then have p: "parse_sni_extension ?e = sni_loop ?e (length pre + length (encode_names ns)) (length pre)"
    using assms by (simp add: parse_sni_extension_def len16_unat pre(1))
  have "sni_loop ?e (length pre + length (encode_names ns)) (length pre) =
      (case first_zero ns of
         Some name \<Rightarrow> ok_or (from_utf8 name) Sni_not_utf8 | None \<Rightarrow> Err No_host_name)"
  proof (cases "first_zero ns")
    case None
    have "\<forall>(t, d) \<in> set ns. t \<noteq> 0 \<and> length d < 65536"
      using first_zero_None [OF None] by (auto intro: small)
    then have "sni_loop ?e (length pre + length (encode_names ns)) (length pre) = Err No_host_name"
      by (rule sni_loop_none [OF _ refl pre(2)])
    with None show ?thesis by simp
  next
    case (Some name)
    obtain ns1 ns2 where ns: "ns = ns1 @ (0, name) # ns2" "\<forall>(t, d) \<in> set ns1. t \<noteq> 0"
      using first_zero_Some [OF Some] by (elim exE conjE) (rule that)
    have "sni_loop ?e (length pre + length (encode_names ns)) (length pre) = ok_or (from_utf8 name) Sni_not_utf8"
    proof (rule sni_loop_names)
      show "\<forall>(t, d) \<in> set ns1. t \<noteq> 0 \<and> length d < 65536" using ns small by auto
      show "length name < 65536" using small [of 0 name] ns by simp
      show "?e = pre @ encode_names ns1 @ (0 # len16 name) @ encode_names ns2 @ rest"
      proof -
        have "encode_names ns = encode_names ns1 @ (0 # len16 name) @ encode_names ns2"
          by (simp add: ns(1) encode_names_def)
        then have "pre @ encode_names ns @ rest = pre @ encode_names ns1 @ (0 # len16 name) @ encode_names ns2 @ rest"
          by (simp only: append_assoc)
        then show ?thesis by (simp only: pre(2) [symmetric])
      qed
    qed (simp add: ns(1) encode_names_def)
    with Some show ?thesis by simp
  qed
  with p show ?thesis by (simp add: from_utf8_as_bytes)
qed

theorem sni_extension_roundtrip_witness:
  "parse_sni_extension (len16 (encode_names [(7, [1, 2]), (0, as_bytes (lit ''a.b''))]) @ []) = Ok (lit ''a.b'')"
proof -
  have "length (encode_names [(7, [1, 2]), (0, as_bytes (lit ''a.b''))]) = 11" by code_simp
  then have l: "length (encode_names [(7, [1, 2]), (0, as_bytes (lit ''a.b''))]) < 65536" by simp
  have s: "list_all scalar_value (lit ''a.b'')" by (simp add: lit_def scalar_value_def)
  have f: "first_zero [(7, [1, 2]), (0 :: byte, as_bytes (lit ''a.b''))] = Some (as_bytes (lit ''a.b''))"
    by simp
  show ?thesis
    by (rule sni_extension_roundtrip [OF l, THEN conjunct2, rule_format, OF f s])
qed

end
