(* ===== verification/Gateway.thy ===== *)
theory Gateway
  imports Connect Tls Flow
begin

section \<open>Relays and the gateway listeners (src/src/proxy.rs)\<close>

text \<open>
  What happens to an accepted client connection. The gateway listeners on ports 80 and 443 read
  enough of it to know the host (the Host header of the HTTP request, the server name of the
  TLS ClientHello), connect to that host, send what they have read and relay the rest. The
  transparent listener looks the client up in the flow table and relays to the destination it
  finds. \<open>copy_bidirectional\<close> belongs to tokio: a relay is modelled up to the call, as what has
  been sent upstream by then and what the client connection still delivers to the copy.

  A client connection is the list of what its reads deliver, one entry per segment that is
  available; a buffered reader fetches up to its capacity of a segment into its buffer.

  The lemmas show that the incremental search for the end of the request head is the full
  search, that the HTTP gateway passes every byte on, which bytes the TLS gateway passes
  on, which host a request names, and what a relay does to the flow table.
\<close>

datatype read_result = Chunk "byte list" | Read_failed

type_synonym client = "read_result list"

fun client_bytes :: "client \<Rightarrow> byte list" where
  "client_bytes [] = []"
| "client_bytes (Chunk b # rest) = b @ client_bytes rest"
| "client_bytes (Read_failed # rest) = []"

datatype gateway_error =
  Head_too_large | Client_closed | Client_read_failed | Head_incomplete
| Headers_not_utf8 | Host_empty | Host_missing
| Tls tls_error | Connecting connect_error | Upstream_write_failed | Copy_failed
| Unsupported_port u16 | Missing_flow

subsection \<open>The head of an HTTP request\<close>

definition max_http_request_head_size :: nat where
  "max_http_request_head_size = 16 * 1024"

fun window_position :: "byte list \<Rightarrow> nat option" where
  "window_position [] = None"
| "window_position (b # bs) =
     (if starts_with (b # bs) crlf2 then Some 0 else map_option Suc (window_position bs))"

definition find_http_header_end :: "byte list \<Rightarrow> nat option" where
  "find_http_header_end request = map_option (\<lambda>position. position + 4) (window_position request)"

fun read_http_request_head :: "byte list \<Rightarrow> client \<Rightarrow> (byte list \<times> client, gateway_error) res" where
  "read_http_request_head request reads =
     (if max_http_request_head_size \<le> length request then Err Head_too_large
      else
        case reads of
          [] \<Rightarrow> Err Client_closed
        | Read_failed # _ \<Rightarrow> Err Client_read_failed
        | Chunk bytes # rest \<Rightarrow>
            if bytes = [] then Err Client_closed
            else
              let before = length request; request' = request @ bytes in
              if find_http_header_end (drop (before - 3) request') \<noteq> None
                 \<or> find_http_header_end request' \<noteq> None
              then Ok (request', rest)
              else read_http_request_head request' rest)"

declare read_http_request_head.simps [simp del]

definition strip_prefix_char :: "nat \<Rightarrow> str \<Rightarrow> str option" where
  "strip_prefix_char c s = (case s of [] \<Rightarrow> None | x # xs \<Rightarrow> if x = c then Some xs else None)"

definition strip_host_port :: "str \<Rightarrow> str" where
  "strip_host_port host =
     (if starts_with host (lit ''['')
      then
        (case strip_prefix_char 91 host of
           None \<Rightarrow> host
         | Some v \<Rightarrow> (case split_once 93 v of Some (inner, _) \<Rightarrow> inner | None \<Rightarrow> host))
      else (case split_once 58 host of Some (name, _) \<Rightarrow> name | None \<Rightarrow> host))"

fun host_of_lines :: "str list \<Rightarrow> (str, gateway_error) res" where
  "host_of_lines [] = Err Host_missing"
| "host_of_lines (line # rest) =
     (case split_once 58 line of
        None \<Rightarrow> host_of_lines rest
      | Some (name, v) \<Rightarrow>
          if eq_ignore_ascii_case name (lit ''host'')
          then
            let host = trim v in
            if host = [] then Err Host_empty else Ok (strip_host_port host)
          else host_of_lines rest)"

definition parse_http_host :: "byte list \<Rightarrow> (str, gateway_error) res" where
  "parse_http_host request =
     attempt (ok_or (from_utf8 request) Headers_not_utf8) (\<lambda>text. host_of_lines (lines text))"

subsection \<open>The HTTP gateway\<close>

text \<open>
  What a relay has done when it starts copying: the connection upstream, as it is after the
  writes, and the client connection the copy reads from.
\<close>

record relaying =
  rl_destination :: destination
  rl_upstream :: conn
  rl_client :: client

definition upstream_write :: "byte list \<Rightarrow> conn \<Rightarrow> (conn, gateway_error) res" where
  "upstream_write bytes c = map_err (\<lambda>_. Upstream_write_failed) (write_all bytes c Ok)"

definition relay_http_gateway ::
  "(destination \<Rightarrow> (conn, connect_error) res) \<Rightarrow> client \<Rightarrow> (relaying, gateway_error) res" where
  "relay_http_gateway dial client =
     attempt (read_http_request_head [] client) (\<lambda>(request, client).
     attempt (ok_or (find_http_header_end request) Head_incomplete) (\<lambda>header_end.
     slice request 0 header_end (\<lambda>head.
     attempt (parse_http_host head) (\<lambda>host.
     let destination = from_domain host 80 in
     attempt (map_err Connecting (dial destination)) (\<lambda>upstream.
     attempt (upstream_write request upstream) (\<lambda>upstream.
     Ok \<lparr>rl_destination = destination, rl_upstream = upstream, rl_client = client\<rparr>))))))"

subsection \<open>The TLS gateway\<close>

text \<open>\<open>BufReader\<close>: bytes it has fetched and not delivered, and the connection it reads from. A
read that is at least as large as its capacity, with nothing buffered, bypasses the buffer.\<close>

record buf_reader =
  br_buffer :: "byte list"
  br_inner :: client

definition buf_capacity :: nat where
  "buf_capacity = 8 * 1024"

text \<open>One read of at most \<open>m\<close> bytes from the connection; \<open>None\<close> is a failed one.\<close>

fun read_some :: "nat \<Rightarrow> client \<Rightarrow> (byte list \<times> client) option" where
  "read_some m [] = Some ([], [])"
| "read_some m (Read_failed # rest) = None"
| "read_some m (Chunk b # rest) =
     Some (take m b, if length b \<le> m then rest else Chunk (drop m b) # rest)"

definition buf_read :: "nat \<Rightarrow> buf_reader \<Rightarrow> (byte list \<times> buf_reader) option" where
  "buf_read n r =
     (if br_buffer r \<noteq> []
      then Some (take n (br_buffer r), r\<lparr>br_buffer := drop n (br_buffer r)\<rparr>)
      else if buf_capacity \<le> n
      then map_option (\<lambda>(b, inner). (b, r\<lparr>br_inner := inner\<rparr>)) (read_some n (br_inner r))
      else map_option (\<lambda>(b, inner). (take n b, r\<lparr>br_buffer := drop n b, br_inner := inner\<rparr>))
             (read_some buf_capacity (br_inner r)))"

function buf_read_exact :: "nat \<Rightarrow> buf_reader \<Rightarrow> (byte list \<times> buf_reader, tls_error) res" where
  "buf_read_exact n r =
     (if n = 0 then Ok ([], r)
      else
        case buf_read n r of
          None \<Rightarrow> Err Closed
        | Some (b, r') \<Rightarrow>
            if b = [] then Err Closed
            else attempt (buf_read_exact (n - length b) r') (\<lambda>(bs, r''). Ok (b @ bs, r'')))"
  by pat_completeness auto
termination
  by (relation "measure fst") auto

declare buf_read_exact.simps [simp del]

definition read_tls_sni :: "buf_reader \<Rightarrow> (str \<times> byte list \<times> buf_reader, tls_error) res" where
  "read_tls_sni r =
     attempt (buf_read_exact 5 r) (\<lambda>(header, r).
     idx header 0 (\<lambda>h0. idx header 3 (\<lambda>h3. idx header 4 (\<lambda>h4.
       if h0 \<noteq> 0x16 then Err (Not_handshake h0)
       else
         let record_len = unat (from_be16 h3 h4) in
         if record_len = 0 \<or> 16 * 1024 < record_len then Err (Invalid_record_length record_len)
         else
           attempt (buf_read_exact record_len r) (\<lambda>(body, r).
           attempt (parse_tls_sni_from_record body) (\<lambda>sni.
           Ok (sni, header @ body, r)))))))"

text \<open>\<open>into_inner\<close> hands back the connection; what is in the buffer goes with the reader.\<close>

definition into_inner :: "buf_reader \<Rightarrow> client" where
  "into_inner r = br_inner r"

definition relay_tls_gateway ::
  "(destination \<Rightarrow> (conn, connect_error) res) \<Rightarrow> client \<Rightarrow> (relaying, gateway_error) res" where
  "relay_tls_gateway dial client =
     attempt (map_err Tls (read_tls_sni \<lparr>br_buffer = [], br_inner = client\<rparr>)) (\<lambda>(sni, client_hello, reader).
     let destination = from_domain sni 443 in
     attempt (map_err Connecting (dial destination)) (\<lambda>upstream.
     attempt (upstream_write client_hello upstream) (\<lambda>upstream.
     Ok \<lparr>rl_destination = destination, rl_upstream = upstream, rl_client = into_inner reader\<rparr>)))"

definition relay_gateway ::
  "(destination \<Rightarrow> (conn, connect_error) res) \<Rightarrow> u16 \<Rightarrow> client \<Rightarrow> (relaying, gateway_error) res" where
  "relay_gateway dial local_port client =
     (if local_port = 80 then relay_http_gateway dial client
      else if local_port = 443 then relay_tls_gateway dial client
      else Err (Unsupported_port local_port))"

subsection \<open>The transparent relay\<close>

text \<open>
  \<open>relay_one\<close> up to the copy: the lookup and the connection. The flow table is shared, so the
  table at the end of the copy is another one; there the flow is removed, if the copy succeeded.
\<close>

definition relay_key :: "ip_addr \<Rightarrow> u16 \<Rightarrow> flow_key" where
  "relay_key client_ip client_port =
     \<lparr>fk_protocol = Tcp, fk_client_ip = client_ip, fk_client_port = client_port\<rparr>"

definition relay_begin ::
  "(destination \<Rightarrow> (conn, connect_error) res) \<Rightarrow> instant \<Rightarrow> flow_table \<Rightarrow> client \<Rightarrow> flow_key \<Rightarrow>
     flow_table \<times> (relaying, gateway_error) res" where
  "relay_begin dial now table client key =
     (case ft_get now table key of
        (None, table') \<Rightarrow> (table', Err Missing_flow)
      | (Some flow, table') \<Rightarrow>
          let destination = from_ip (original_dst_ip flow) (original_dst_port flow) in
          (table', attempt (map_err Connecting (dial destination)) (\<lambda>upstream.
             Ok \<lparr>rl_destination = destination, rl_upstream = upstream, rl_client = client\<rparr>)))"

definition relay_end :: "flow_key \<Rightarrow> flow_table \<Rightarrow> flow_table" where
  "relay_end key table = snd (ft_remove table key)"

definition relay_one ::
  "(destination \<Rightarrow> (conn, connect_error) res) \<Rightarrow> instant \<Rightarrow> (flow_table \<Rightarrow> flow_table \<times> bool) \<Rightarrow>
     flow_table \<Rightarrow> client \<Rightarrow> ip_addr \<Rightarrow> u16 \<Rightarrow> flow_table \<times> (relaying, gateway_error) res" where
  "relay_one dial now copy table client client_ip client_port =
     (let key = relay_key client_ip client_port in
      case relay_begin dial now table client key of
        (table', Ok r) \<Rightarrow>
          (case copy table' of
             (table'', True) \<Rightarrow> (relay_end key table'', Ok r)
           | (table'', False) \<Rightarrow> (table'', Err Copy_failed))
      | (table', e) \<Rightarrow> (table', e))"


subsection \<open>The end of the request head\<close>

lemma starts_with_crlf2: "starts_with xs crlf2 \<longleftrightarrow> take 4 xs = crlf2"
  by (simp add: starts_with_def crlf2_def numeral_eq_Suc)

lemma window_position_Some:
  "window_position xs = Some i \<longleftrightarrow> take 4 (drop i xs) = crlf2 \<and> (\<forall>j < i. take 4 (drop j xs) \<noteq> crlf2)"
proof (induction xs arbitrary: i)
  case Nil
  then show ?case by (simp add: crlf2_def)
next
  case (Cons x xs)
  show ?case
  proof (cases i)
    case 0
    then show ?thesis by (auto simp: starts_with_crlf2)
  next
    case (Suc k)
    with Cons show ?thesis by (auto simp: starts_with_crlf2 less_Suc_eq_0_disj)
  qed
qed

lemma window_position_None: "window_position xs = None \<longleftrightarrow> (\<forall>i. take 4 (drop i xs) \<noteq> crlf2)"
proof
  assume n: "window_position xs = None"
  show "\<forall>i. take 4 (drop i xs) \<noteq> crlf2"
  proof
    fix i
    show "take 4 (drop i xs) \<noteq> crlf2"
    proof (induction i rule: less_induct)
      case (less i)
      with n window_position_Some [of xs i] show ?case by auto
    qed
  qed
next
  assume "\<forall>i. take 4 (drop i xs) \<noteq> crlf2"
  then show "window_position xs = None"
    using window_position_Some [of xs] by (cases "window_position xs") auto
qed

lemma window_bound: "take 4 (drop i xs) = crlf2 \<Longrightarrow> i + 4 \<le> length xs"
  by (drule arg_cong [of _ _ length]) (simp add: crlf2_def)

lemma window_position_tail:
  assumes "window_position xs = None"
  shows "window_position (drop (length xs - 3) (xs @ ys)) = None \<longleftrightarrow> window_position (xs @ ys) = None"
proof -
  have "take 4 (drop i (xs @ ys)) \<noteq> crlf2" if "i + 4 \<le> length xs" for i
    using assms that by (simp add: window_position_None)
  then have late: "length xs - 3 \<le> i" if "take 4 (drop i (xs @ ys)) = crlf2" for i
    using that by (cases "i + 4 \<le> length xs") auto
  show ?thesis
  proof
    assume n: "window_position (drop (length xs - 3) (xs @ ys)) = None"
    have "take 4 (drop i (xs @ ys)) \<noteq> crlf2" for i
    proof
      assume a: "take 4 (drop i (xs @ ys)) = crlf2"
      then obtain k where "i = length xs - 3 + k" using late le_Suc_ex by blast
      with a n show False by (simp add: window_position_None add.commute)
    qed
    then show "window_position (xs @ ys) = None" by (simp add: window_position_None)
  next
    assume "window_position (xs @ ys) = None"
    then show "window_position (drop (length xs - 3) (xs @ ys)) = None"
      by (simp add: window_position_None del: drop_append take_append)
  qed
qed

lemma window_position_append:
  "window_position xs = Some i \<Longrightarrow> window_position (xs @ ys) = Some i"
  using window_bound [of i xs]
  by (auto simp: window_position_Some)

lemma find_end_None: "find_http_header_end xs = None \<longleftrightarrow> window_position xs = None"
  by (simp add: find_http_header_end_def)

lemma find_end_le: "find_http_header_end xs = Some e \<Longrightarrow> e \<le> length xs"
  using window_bound by (auto simp: find_http_header_end_def window_position_Some)

lemma read_head_chunk:
  assumes "find_http_header_end request = None" "length request < max_http_request_head_size" "bytes \<noteq> []"
  shows "read_http_request_head request (Chunk bytes # rest) =
     (if find_http_header_end (request @ bytes) \<noteq> None then Ok (request @ bytes, rest)
      else read_http_request_head (request @ bytes) rest)"
  using assms window_position_tail [of request bytes]
  by (subst read_http_request_head.simps) (auto simp: find_end_None Let_def simp del: drop_append)

lemma read_head_spec:
  assumes "read_http_request_head request reads = Ok (r, rest)" "find_http_header_end request = None"
  shows "r @ client_bytes rest = request @ client_bytes reads \<and> find_http_header_end r \<noteq> None \<and>
     (\<exists>before chunk. r = before @ chunk \<and> find_http_header_end before = None \<and>
        length before < max_http_request_head_size)"
  using assms
proof (induction reads arbitrary: request)
  case Nil
  then show ?case by (subst (asm) read_http_request_head.simps) (simp split: if_splits)
next
  case (Cons x reads)
  have len: "length request < max_http_request_head_size"
    using Cons.prems(1) by (subst (asm) read_http_request_head.simps) (simp split: if_splits)
  show ?case
  proof (cases x)
    case Read_failed
    with Cons.prems len show ?thesis by (subst (asm) read_http_request_head.simps) simp
  next
    case (Chunk bytes)
    show ?thesis
    proof (cases "bytes = []")
      case True
      with Chunk Cons.prems len show ?thesis by (subst (asm) read_http_request_head.simps) simp
    next
      case False
      note step = read_head_chunk [OF Cons.prems(2) len False, of reads]
      show ?thesis
      proof (cases "find_http_header_end (request @ bytes)")
        case None
        with step Chunk Cons.prems have "read_http_request_head (request @ bytes) reads = Ok (r, rest)" by simp
        from Cons.IH [OF this None] Chunk show ?thesis by simp
      next
        case (Some e)
        with step Chunk Cons.prems have "r = request @ bytes" "rest = reads" by simp_all
        with Some Chunk Cons.prems(2) len show ?thesis by auto
      qed
    qed
  qed
qed

lemma read_head_complete:
  assumes "find_http_header_end (request @ concat bs) = Some e" "e \<le> max_http_request_head_size"
    and "find_http_header_end request = None" "list_all (\<lambda>b. b \<noteq> []) bs"
  shows "\<exists>r rest. read_http_request_head request (map Chunk bs @ tail) = Ok (r, rest) \<and> find_http_header_end r = Some e"
  using assms
proof (induction bs arbitrary: request)
  case Nil
  then show ?case by simp
next
  case (Cons b bs)
  have len: "length request < max_http_request_head_size"
  proof (rule ccontr)
    assume "\<not> length request < max_http_request_head_size"
    then have "e \<le> length request" using Cons.prems(2) by simp
    then have "take 4 (drop (e - 4) request) = crlf2"
      using Cons.prems(1) window_bound
      by (auto simp: find_http_header_end_def window_position_Some)
    with Cons.prems(3) show False by (simp add: find_end_None window_position_None)
  qed
  note step = read_head_chunk [OF Cons.prems(3) len, of b "map Chunk bs @ tail"]
  show ?case
  proof (cases "find_http_header_end (request @ b)")
    case None
    with Cons.IH [of "request @ b"] Cons.prems step show ?thesis by simp
  next
    case (Some e')
    then have "find_http_header_end ((request @ b) @ concat bs) = Some e'"
      by (auto simp: find_http_header_end_def dest: window_position_append)
    with Cons.prems Some step show ?thesis by simp
  qed
qed


subsection \<open>The Host header\<close>

definition header_line :: "str \<times> str \<Rightarrow> str" where
  "header_line = (\<lambda>(name, v). name @ 58 # v)"

definition request_text :: "str \<Rightarrow> (str \<times> str) list \<Rightarrow> str" where
  "request_text first hs = concat (map (\<lambda>l. l @ crlf) (first # map header_line hs)) @ crlf"

text \<open>What a Host header stands for: the value without surrounding white space and without the
port, or an error if it is blank.\<close>

definition host_value :: "str \<Rightarrow> (str, gateway_error) res" where
  "host_value v = (if trim v = [] then Err Host_empty else Ok (strip_host_port (trim v)))"

definition is_host_name :: "str \<Rightarrow> bool" where
  "is_host_name name = eq_ignore_ascii_case name (lit ''host'')"

lemma lines_request:
  assumes "\<forall>l \<in> set ls. 10 \<notin> set l"
  shows "lines (concat (map (\<lambda>l. l @ crlf) ls) @ crlf) = ls @ [[]]"
  using assms
proof (induction ls)
  case Nil
  then show ?case using lines_crlf [of "[]" "[]"] by (simp add: lines.simps [of "[]"])
next
  case (Cons l ls)
  then show ?case using lines_crlf [of l] by simp
qed

lemma host_of_header_lines:
  assumes "\<forall>(n, v) \<in> set hs. 58 \<notin> set n"
  shows "host_of_lines (map header_line hs @ [[]]) =
     (case find (\<lambda>(n, v). is_host_name n) hs of Some (n, v) \<Rightarrow> host_value v | None \<Rightarrow> Err Host_missing)"
  using assms
proof (induction hs)
  case Nil
  have "split_once 58 [] = None" by (simp add: split_once_None)
  then show ?case by simp
next
  case (Cons x hs)
  obtain n v where x: "x = (n, v)" by (cases x)
  with Cons.prems have "split_once 58 (header_line x) = Some (n, v)"
    by (simp add: header_line_def split_once_Some)
  with Cons x show ?case by (simp add: is_host_name_def host_value_def Let_def)
qed

lemma strip_host_port_name:
  "58 \<notin> set name \<Longrightarrow> name = [] \<or> hd name \<noteq> 91 \<Longrightarrow> strip_host_port (name @ 58 # port) = name"
  "58 \<notin> set name \<Longrightarrow> name = [] \<or> hd name \<noteq> 91 \<Longrightarrow> strip_host_port name = name"
  "93 \<notin> set name \<Longrightarrow> strip_host_port (91 # name @ 93 # rest) = name"
proof -
  have b: "lit ''['' = [91]" by (simp add: lit_def)
  show "strip_host_port (name @ 58 # port) = name" if "58 \<notin> set name" "name = [] \<or> hd name \<noteq> 91"
    using that split_once_Some [of 58 "name @ 58 # port" name port]
    by (cases name) (auto simp: strip_host_port_def b starts_with_def)
  show "strip_host_port name = name" if "58 \<notin> set name" "name = [] \<or> hd name \<noteq> 91"
    using that split_once_None [of 58 name]
    by (cases name) (auto simp: strip_host_port_def b starts_with_def)
  show "strip_host_port (91 # name @ 93 # rest) = name" if "93 \<notin> set name"
    using that split_once_Some [of 93 "name @ 93 # rest" name rest]
    by (simp add: strip_host_port_def b starts_with_def strip_prefix_char_def)
qed

subsection \<open>The buffered reader\<close>

definition reader_bytes :: "buf_reader \<Rightarrow> byte list" where
  "reader_bytes r = br_buffer r @ client_bytes (br_inner r)"

lemma read_some_bytes:
  "read_some m c = Some (b, c') \<Longrightarrow> length b \<le> m \<and> b @ client_bytes c' = client_bytes c"
  by (cases "(m, c)" rule: read_some.cases) (auto split: if_splits)

lemma buf_read_bytes:
  assumes "buf_read n r = Some (b, r')" "n \<noteq> 0"
  shows "length b \<le> n \<and> b @ reader_bytes r' = reader_bytes r"
proof (cases "br_buffer r = []")
  case True
  show ?thesis
  proof (cases "buf_capacity \<le> n")
    case big: True
    with True assms show ?thesis
      by (auto simp: buf_read_def reader_bytes_def dest: read_some_bytes)
  next
    case False
    with True assms obtain b0 inner where "read_some buf_capacity (br_inner r) = Some (b0, inner)"
      "b = take n b0" "r' = r\<lparr>br_buffer := drop n b0, br_inner := inner\<rparr>"
      by (auto simp: buf_read_def)
    with True read_some_bytes [of buf_capacity "br_inner r" b0 inner] show ?thesis
      by (simp add: reader_bytes_def flip: append_assoc)
  qed
qed (use assms in \<open>auto simp: buf_read_def reader_bytes_def\<close>)

lemma buf_read_exact_bytes:
  "buf_read_exact n r = Ok (bs, r') \<Longrightarrow> length bs = n \<and> bs @ reader_bytes r' = reader_bytes r"
proof (induction n r arbitrary: bs rule: buf_read_exact.induct)
  case (1 n r)
  show ?case
  proof (cases "n = 0")
    case True
    with 1(2) show ?thesis by (subst (asm) buf_read_exact.simps) simp
  next
    case False
    with 1(2) obtain b r1 where b: "buf_read n r = Some (b, r1)" "b \<noteq> []"
      "attempt (buf_read_exact (n - length b) r1) (\<lambda>(bs, r''). Ok (b @ bs, r'')) = Ok (bs, r')"
      by (subst (asm) buf_read_exact.simps) (auto split: option.splits if_splits)
    then obtain bs1 where bs1: "buf_read_exact (n - length b) r1 = Ok (bs1, r')" "bs = b @ bs1"
      by (auto simp: attempt_eq_Ok)
    have "length bs1 = n - length b \<and> bs1 @ reader_bytes r' = reader_bytes r1"
      by (rule 1(1) [OF False b(1) refl b(2) bs1(1)])
    moreover have "length b \<le> n \<and> b @ reader_bytes r1 = reader_bytes r"
      using buf_read_bytes [OF b(1) False] .
    ultimately show ?thesis using bs1 by auto
  qed
qed

lemma buf_read_exact_no_panic [panic_free]: "buf_read_exact n r \<noteq> Panic"
proof (induction n r rule: buf_read_exact.induct)
  case (1 n r)
  then show ?case
    by (subst buf_read_exact.simps) (auto simp: attempt_eq_Panic split: option.split)
qed

text \<open>What is buffered is delivered without another read.\<close>

lemma buf_read_exact_buffered:
  assumes "n \<le> length (br_buffer r)"
  shows "buf_read_exact n r = Ok (take n (br_buffer r), r\<lparr>br_buffer := drop n (br_buffer r)\<rparr>)"
proof (cases "n = 0")
  case False
  then have "br_buffer r \<noteq> []" using assms by auto
  then show ?thesis using False assms
    by (subst buf_read_exact.simps) (simp add: buf_read_def buf_read_exact.simps [of 0])
qed (subst buf_read_exact.simps, simp)

lemma read_tls_sni_Ok:
  assumes "read_tls_sni r = Ok (sni, captured, r')"
  shows "captured @ reader_bytes r' = reader_bytes r \<and> 5 \<le> length captured \<and>
     captured ! 0 = 0x16 \<and> length captured = 5 + unat (be16_at captured 3) \<and>
     parse_tls_sni_from_record (drop 5 captured) = Ok sni"
proof -
  obtain header r1 where h: "buf_read_exact 5 r = Ok (header, r1)"
    using assms by (auto simp: read_tls_sni_def attempt_eq_Ok)
  have l: "length header = 5" "header @ reader_bytes r1 = reader_bytes r"
    using buf_read_exact_bytes [OF h] by auto
  then have ne: "header \<noteq> []" by auto
  have "header ! 0 = 0x16" and "\<exists>body. buf_read_exact (unat (be16_at header 3)) r1 = Ok (body, r') \<and>
      parse_tls_sni_from_record body = Ok sni \<and> captured = header @ body"
    using assms h l ne
    by (auto simp: read_tls_sni_def attempt_eq_Ok Let_def be16_at_def split: if_splits)
  then obtain body where b: "buf_read_exact (unat (be16_at header 3)) r1 = Ok (body, r')"
    "parse_tls_sni_from_record body = Ok sni" "captured = header @ body" by blast
  have "length body = unat (be16_at header 3)" "body @ reader_bytes r' = reader_bytes r1"
    using buf_read_exact_bytes [OF b(1)] by auto
  moreover have "be16_at captured 3 = be16_at header 3"
    using l b(3) by (simp add: be16_at_def nth_append)
  ultimately show ?thesis
    using l ne b \<open>header ! 0 = 0x16\<close> by (simp add: nth_append)
qed

text \<open>
  Where a reader has got to in what a client sends. Of the segments \<open>us @ Chunk b # vs\<close> it has
  delivered the first ones and a nonempty part of the next; its buffer is the part of that segment
  behind it, and the connection underneath still delivers the rest of the segment, of which there
  is none unless the segment is larger than the buffer, and the segments after it.
\<close>

definition reader_at ::
  "client \<Rightarrow> client \<Rightarrow> byte list \<Rightarrow> byte list \<Rightarrow> client \<Rightarrow> buf_reader \<Rightarrow> bool" where
  "reader_at c us pre x vs r \<longleftrightarrow>
     c = us @ Chunk (pre @ br_buffer r @ x) # vs \<and> Read_failed \<notin> set us \<and> pre \<noteq> [] \<and>
     length (br_buffer r) \<le> buf_capacity \<and>
     (length (pre @ br_buffer r @ x) \<le> buf_capacity \<longrightarrow> x = []) \<and>
     br_inner r = (if x = [] then vs else Chunk x # vs)"

definition reader_in :: "client \<Rightarrow> byte list \<Rightarrow> buf_reader \<Rightarrow> bool" where
  "reader_in c got r \<longleftrightarrow>
     got = [] \<and> r = \<lparr>br_buffer = [], br_inner = c\<rparr> \<or>
     (\<exists>us pre x vs. reader_at c us pre x vs r \<and> got = client_bytes us @ pre)"

lemma client_bytes_append: "Read_failed \<notin> set us \<Longrightarrow> client_bytes (us @ vs) = client_bytes us @ client_bytes vs"
  by (induction us rule: client_bytes.induct) auto

text \<open>A fetch from a segment nothing was delivered of.\<close>

lemma fetch_segment:
  assumes "br_buffer r = []" "br_inner r = Chunk y # vs" "buf_read n r = Some (b, r')" "b \<noteq> []" 
    and "Read_failed \<notin> set us"
  shows "\<exists>x. reader_at (us @ Chunk y # vs) us b x vs r'"
proof -
  define m where "m = (if buf_capacity \<le> n then n else buf_capacity)"
  have m: "take n (take m y) = take n y" "buf_capacity \<le> m" by (auto simp: m_def)
  have b: "b = take n y" and r': "r' = \<lparr>br_buffer = (if buf_capacity \<le> n then [] else drop n (take m y)),
      br_inner = (if length y \<le> m then vs else Chunk (drop m y) # vs)\<rparr>"
    using assms by (auto simp: buf_read_def m_def min_def split: if_splits)
  have y: "y = b @ br_buffer r' @ drop m y"
  proof (cases "buf_capacity \<le> n")
    case True
    then show ?thesis by (simp add: b r' m_def)
  next
    case False
    have "take n (take m y) @ drop n (take m y) @ drop m y = y" by (metis append_assoc append_take_drop_id)
    then show ?thesis using False by (simp only: b r' m(1)) simp
  qed
  have "length (br_buffer r') \<le> buf_capacity" by (auto simp: r' m_def)
  moreover have "br_inner r' = (if drop m y = [] then vs else Chunk (drop m y) # vs)" by (simp add: r')
  moreover have "length y \<le> buf_capacity \<Longrightarrow> drop m y = []" using m by simp
  ultimately show ?thesis
    using assms(4,5) y unfolding reader_at_def by (intro exI [of _ "drop m y"]) (metis append_assoc)
qed

lemma reader_in_read:
  assumes "reader_in c got r" "buf_read n r = Some (b, r')" "b \<noteq> []"
  shows "reader_in c (got @ b) r'"
  using assms(1) unfolding reader_in_def [of c got]
proof (elim disjE exE conjE)
  assume r: "got = []" "r = \<lparr>br_buffer = [], br_inner = c\<rparr>"
  then obtain y vs where c: "c = Chunk y # vs"
    using assms(2,3) by (cases c rule: client_bytes.cases) (auto simp: buf_read_def split: if_splits)
  with r fetch_segment [of r y vs n b r' "[]"] assms(2,3) show ?thesis
    by (force simp: reader_in_def)
next
  fix us pre x vs
  assume at: "reader_at c us pre x vs r" and got: "got = client_bytes us @ pre"
  show ?thesis
  proof (cases "br_buffer r = []")
    case False
    then have "b = take n (br_buffer r)" "r' = r\<lparr>br_buffer := drop n (br_buffer r)\<rparr>"
      using assms(2) by (auto simp: buf_read_def)
    then have "reader_at c us (pre @ b) x vs r'"
      using at by (auto simp: reader_at_def)
    then show ?thesis using got unfolding reader_in_def by fastforce
  next
    case True
    show ?thesis
    proof (cases "x = []")
      case empty: True
      then have c: "c = us @ Chunk pre # vs" "br_inner r = vs" "Read_failed \<notin> set us" "pre \<noteq> []"
        using at True by (auto simp: reader_at_def)
      then obtain y vs' where vs: "vs = Chunk y # vs'"
        using assms(2,3) True by (cases vs rule: client_bytes.cases) (auto simp: buf_read_def split: if_splits)
      obtain x' where "reader_at ((us @ [Chunk pre]) @ Chunk y # vs') (us @ [Chunk pre]) b x' vs' r'"
        using fetch_segment [of r y vs' n b r' "us @ [Chunk pre]"] c vs True assms(2,3) by auto
      moreover have "client_bytes (us @ [Chunk pre]) = got" using got c(3) by (simp add: client_bytes_append)
      ultimately show ?thesis using c vs unfolding reader_in_def by fastforce
    next
      case False
      then have c: "c = us @ Chunk (pre @ x) # vs" "br_inner r = Chunk x # vs" "Read_failed \<notin> set us" "pre \<noteq> []"
        "buf_capacity < length (pre @ x)"
        using at True by (auto simp: reader_at_def)
      obtain x' where "reader_at (us @ Chunk x # vs) us b x' vs r'"
        using fetch_segment [of r x vs n b r' us] c True assms(2,3) by auto
      then have "reader_at c us (pre @ b) x' vs r'"
        using c by (auto simp: reader_at_def)
      then show ?thesis using got unfolding reader_in_def by fastforce
    qed
  qed
qed

lemma reader_in_read_exact:
  "buf_read_exact n r = Ok (bs, r') \<Longrightarrow> reader_in c got r \<Longrightarrow> reader_in c (got @ bs) r'"
proof (induction n r arbitrary: bs got rule: buf_read_exact.induct)
  case (1 n r)
  show ?case
  proof (cases "n = 0")
    case True
    with 1(2,3) show ?thesis by (subst (asm) buf_read_exact.simps) simp
  next
    case False
    with 1(2) obtain b r1 where b: "buf_read n r = Some (b, r1)" "b \<noteq> []"
      "attempt (buf_read_exact (n - length b) r1) (\<lambda>(bs, r''). Ok (b @ bs, r'')) = Ok (bs, r')"
      by (subst (asm) buf_read_exact.simps) (auto split: option.splits if_splits)
    then obtain bs1 where bs1: "buf_read_exact (n - length b) r1 = Ok (bs1, r')" "bs = b @ bs1"
      by (auto simp: attempt_eq_Ok)
    have "reader_in c ((got @ b) @ bs1) r'"
      by (rule 1(1) [OF False b(1) refl b(2) bs1(1) reader_in_read [OF 1(3) b(1,2)]])
    with bs1 show ?thesis by simp
  qed
qed

lemma reader_in_sni:
  assumes "read_tls_sni \<lparr>br_buffer = [], br_inner = c\<rparr> = Ok (sni, captured, r')"
  shows "\<exists>us pre x vs. reader_at c us pre x vs r' \<and> captured = client_bytes us @ pre"
proof -
  obtain header r1 n body where h: "buf_read_exact 5 \<lparr>br_buffer = [], br_inner = c\<rparr> = Ok (header, r1)"
    and b: "buf_read_exact n r1 = Ok (body, r')" "captured = header @ body"
    using assms by (auto simp: read_tls_sni_def attempt_eq_Ok Let_def idx_def split: if_splits)
  have "length header = 5" using buf_read_exact_bytes [OF h] by simp
  moreover have "reader_in c captured r'"
    using reader_in_read_exact [OF b(1) reader_in_read_exact [OF h, of c "[]"]] b(2)
    by (simp add: reader_in_def [of c "[]"])
  ultimately show ?thesis using b(2) by (auto simp: reader_in_def)
qed

lemma upstream_write_Ok:
  "upstream_write bytes c = Ok c' \<longleftrightarrow>
     writes_left c \<noteq> 0 \<and> c' = c\<lparr>outbound := outbound c @ bytes, writes_left := writes_left c - 1\<rparr>"
  by (auto simp: upstream_write_def write_all_def)

lemma upstream_write_no_panic [panic_free]: "upstream_write bytes c \<noteq> Panic"
  by (auto simp: upstream_write_def write_all_def)


lemma buf_read_exact_fetch:
  assumes "n \<noteq> 0" "n < buf_capacity" "n \<le> length b" "length b \<le> buf_capacity"
  shows "buf_read_exact n \<lparr>br_buffer = [], br_inner = Chunk b # rest\<rparr> =
     Ok (take n b, \<lparr>br_buffer = drop n b, br_inner = rest\<rparr>)"
proof -
  have "take n b \<noteq> []" using assms by auto
  then show ?thesis using assms
    by (subst buf_read_exact.simps) (simp add: buf_read_def buf_read_exact.simps [of 0])
qed

subsection \<open>Properties\<close>

text \<open>A destination reached without a proxy, for the witnesses.\<close>

definition sample_dial :: "destination \<Rightarrow> (conn, connect_error) res" where
  "sample_dial d = Ok \<lparr>inbound = [], outbound = [], writes_left = 9\<rparr>"

definition sample_http :: "byte list" where
  "sample_http = [71, 32, 47, 13, 10, 72, 111, 115, 116, 58, 97, 46, 98, 13, 10, 13, 10]"

lemma sample_http_parses:
  "find_http_header_end (sample_http @ [120]) = Some 17"
  "parse_http_host (take 17 (sample_http @ [120])) = Ok (lit ''a.b'')"
  by code_simp+

text \<open>C29: The HTTP gateway passes on everything the client sends. When it starts to relay, what it
  has sent upstream together with what it still reads from the client is exactly what the client
  sends, in order, however the bytes were split into reads; the head it acted on is the part up
  to the first empty line, and it connected to the host that head names, on port 80.\<close>

theorem http_gateway_transparent:
  assumes "relay_http_gateway dial client = Ok r"
  shows "\<exists>request e host upstream.
     find_http_header_end request = Some e \<and> parse_http_host (take e request) = Ok host \<and>
     rl_destination r = from_domain host 80 \<and> dial (from_domain host 80) = Ok upstream \<and>
     outbound (rl_upstream r) = outbound upstream @ request \<and>
     request @ client_bytes (rl_client r) = client_bytes client"
proof -
  obtain request rest e host upstream where *: "read_http_request_head [] client = Ok (request, rest)"
    "find_http_header_end request = Some e" "parse_http_host (take e request) = Ok host"
    "dial (from_domain host 80) = Ok upstream" "writes_left upstream \<noteq> 0"
    "r = \<lparr>rl_destination = from_domain host 80,
          rl_upstream = upstream\<lparr>outbound := outbound upstream @ request, writes_left := writes_left upstream - 1\<rparr>,
          rl_client = rest\<rparr>"
    using assms find_end_le
    by (auto simp: relay_http_gateway_def attempt_eq_Ok Let_def upstream_write_Ok)
  have "find_http_header_end [] = None" by (simp add: find_end_None)
  from read_head_spec [OF *(1) this] have "request @ client_bytes rest = client_bytes client" by simp
  with * show ?thesis by auto
qed

text \<open>C35: The HTTP gateway serves every complete request. If the first empty line is among the
  first 16384 bytes the client sends, the head up to it names a host, and the host can be
  connected to and written to, the relay starts, for every split of the bytes into reads.\<close>

theorem http_gateway_serves:
  assumes "find_http_header_end (concat bs) = Some e" "e \<le> 16384" "list_all (\<lambda>b. b \<noteq> []) bs"
    and "parse_http_host (take e (concat bs)) = Ok host"
    and "dial (from_domain host 80) = Ok upstream" "writes_left upstream \<noteq> 0"
  shows "\<exists>r. relay_http_gateway dial (map Chunk bs @ tail) = Ok r \<and> rl_destination r = from_domain host 80"
proof -
  have n: "find_http_header_end [] = None" by (simp add: find_end_None)
  obtain request rest where r: "read_http_request_head [] (map Chunk bs @ tail) = Ok (request, rest)"
    "find_http_header_end request = Some e"
    using read_head_complete [of "[]" bs e tail] assms n by (auto simp: max_http_request_head_size_def)
  have c: "client_bytes (map Chunk bs @ tail) = concat bs @ client_bytes tail"
    by (induction bs) simp_all
  have "request @ client_bytes rest = concat bs @ client_bytes tail"
    using read_head_spec [OF r(1) n] c by simp
  moreover have "e \<le> length request" "e \<le> length (concat bs)"
    using r(2) assms(1) by (auto intro: find_end_le)
  ultimately have "take e request = take e (concat bs)"
    by (metis append_eq_append_conv2 take_append take_all_iff diff_is_0_eq take_0 append_Nil2 diff_is_0_eq')
  with r assms \<open>e \<le> length request\<close> show ?thesis
    by (simp add: relay_http_gateway_def Let_def upstream_write_def write_all_def)
qed

theorem http_gateway_serves_witness:
  "\<exists>r. relay_http_gateway sample_dial [Chunk (sample_http @ [120])] = Ok r \<and>
     rl_destination r = from_domain (lit ''a.b'') 80"
  using http_gateway_serves [of "[sample_http @ [120]]" 17 "lit ''a.b''" sample_dial _ "[]"] sample_http_parses
  by (simp add: sample_dial_def)

theorem http_gateway_transparent_witness:
  "\<exists>r request. relay_http_gateway sample_dial [Chunk (sample_http @ [120])] = Ok r \<and>
     outbound (rl_upstream r) = request \<and> request @ client_bytes (rl_client r) = sample_http @ [120]"
proof -
  have "is_ok (relay_http_gateway sample_dial [Chunk (sample_http @ [120])])" by code_simp
  then obtain r where r: "relay_http_gateway sample_dial [Chunk (sample_http @ [120])] = Ok r"
    by (auto simp: is_ok_iff)
  from http_gateway_transparent [OF r] show ?thesis using r by (auto simp: sample_dial_def)
qed

text \<open>Which host a request names. For a head with any request line and any headers, the
  gateway takes the first header called Host, in any case, without surrounding white
  space and without the port; it is an error if that header is blank or there is none.\<close>

theorem host_header_meaning:
  assumes "10 \<notin> set first" and "case split_once 58 first of Some (n, v) \<Rightarrow> \<not> is_host_name n | None \<Rightarrow> True"
    and "\<forall>(n, v) \<in> set hs. 58 \<notin> set n \<and> 10 \<notin> set n \<and> 10 \<notin> set v"
    and "list_all scalar_value (request_text first hs)"
  shows "parse_http_host (as_bytes (request_text first hs)) =
     (case find (\<lambda>(n, v). is_host_name n) hs of Some (n, v) \<Rightarrow> host_value v | None \<Rightarrow> Err Host_missing)"
proof -
  have "lines (request_text first hs) = (first # map header_line hs) @ [[]]"
    unfolding request_text_def
    by (rule lines_request) (use assms(1,3) in \<open>auto simp: header_line_def\<close>)
  moreover have "host_of_lines (first # rest) = host_of_lines rest" for rest
    using assms(2) by (auto simp: is_host_name_def split: option.splits)
  moreover have "host_of_lines (map header_line hs @ [[]]) =
     (case find (\<lambda>(n, v). is_host_name n) hs of Some (n, v) \<Rightarrow> host_value v | None \<Rightarrow> Err Host_missing)"
    by (rule host_of_header_lines) (use assms(3) in auto)
  ultimately show ?thesis
    using assms(4) by (simp add: parse_http_host_def from_utf8_as_bytes)
qed

theorem host_header_meaning_witness:
  "parse_http_host (as_bytes (request_text (lit ''GET /'') [(lit ''X'', lit ''1''), (lit ''HOST'', lit '' a.b:80'')])) =
   Ok (lit ''a.b'')"
proof -
  have a: "10 \<notin> set (lit ''GET /'')" by (simp add: lit_def)
  have "split_once 58 (lit ''GET /'') = None" by code_simp
  then have b: "case split_once 58 (lit ''GET /'') of Some (n, v) \<Rightarrow> \<not> is_host_name n | None \<Rightarrow> True" by simp
  have c: "\<forall>(n, v) \<in> set [(lit ''X'', lit ''1''), (lit ''HOST'', lit '' a.b:80'')]. 58 \<notin> set n \<and> 10 \<notin> set n \<and> 10 \<notin> set v"
    by (simp add: lit_def)
  have d: "list_all scalar_value (request_text (lit ''GET /'') [(lit ''X'', lit ''1''), (lit ''HOST'', lit '' a.b:80'')])"
    by (simp add: request_text_def header_line_def lit_def crlf_def scalar_value_def)
  have "find (\<lambda>(n, v). is_host_name n) [(lit ''X'', lit ''1''), (lit ''HOST'', lit '' a.b:80'')] =
      Some (lit ''HOST'', lit '' a.b:80'')" by code_simp
  moreover have "host_value (lit '' a.b:80'') = Ok (lit ''a.b'')" by code_simp
  ultimately show ?thesis using host_header_meaning [OF a b c d] by simp
qed

text \<open>C30: What becomes of the bytes a client sends to the TLS gateway. The ClientHello record
  goes upstream byte for byte and as one piece, to the host that it names, on port 443. It ends in
  some segment of what the client sends. What the reader had fetched of that segment behind the
  record, at most 8192 bytes, is lost; if the segment fits into the reader's buffer this is all
  the rest of it. The relay reads from the client exactly the rest of the segment that was not
  fetched and the segments after it. So no byte but those few is lost, none is changed, and the
  relay is transparent exactly if nothing was buffered behind the record.\<close>

theorem tls_gateway_conservation:
  assumes "relay_tls_gateway dial client = Ok r"
  shows "\<exists>us pre lost x vs sni upstream.
     client = us @ Chunk (pre @ lost @ x) # vs \<and> Read_failed \<notin> set us \<and> pre \<noteq> [] \<and>
     length lost \<le> 8192 \<and> (length (pre @ lost @ x) \<le> 8192 \<longrightarrow> x = []) \<and>
     rl_client r = (if x = [] then vs else Chunk x # vs) \<and>
     (let hello = client_bytes us @ pre in
        hello ! 0 = 0x16 \<and> length hello = 5 + unat (be16_at hello 3) \<and>
        parse_tls_sni_from_record (drop 5 hello) = Ok sni \<and>
        rl_destination r = from_domain sni 443 \<and> dial (from_domain sni 443) = Ok upstream \<and>
        outbound (rl_upstream r) = outbound upstream @ hello \<and>
        (hello @ client_bytes (rl_client r) = client_bytes client \<longleftrightarrow> lost = []))"
proof -
  obtain sni hello reader upstream where *:
    "read_tls_sni \<lparr>br_buffer = [], br_inner = client\<rparr> = Ok (sni, hello, reader)"
    "dial (from_domain sni 443) = Ok upstream"
    "r = \<lparr>rl_destination = from_domain sni 443,
          rl_upstream = upstream\<lparr>outbound := outbound upstream @ hello, writes_left := writes_left upstream - 1\<rparr>,
          rl_client = br_inner reader\<rparr>"
    using assms by (auto simp: relay_tls_gateway_def attempt_eq_Ok Let_def upstream_write_Ok into_inner_def)
  obtain us pre x vs where at: "reader_at client us pre x vs reader" and hello: "hello = client_bytes us @ pre"
    using reader_in_sni [OF *(1)] by blast
  have "client_bytes client = hello @ br_buffer reader @ client_bytes (br_inner reader)"
    using read_tls_sni_Ok [OF *(1)] by (simp add: reader_bytes_def)
  then have "hello @ client_bytes (rl_client r) = client_bytes client \<longleftrightarrow> br_buffer reader = []"
    using *(3) by simp
  with at read_tls_sni_Ok [OF *(1)] *(2,3) show ?thesis
    unfolding Let_def hello [symmetric]
    by (intro exI [of _ us] exI [of _ pre] exI [of _ "br_buffer reader"] exI [of _ x] exI [of _ vs]
        exI [of _ sni] exI [of _ upstream]) (simp add: reader_at_def buf_capacity_def flip: hello)
qed

text \<open>A ClientHello for a.b, for the witnesses.\<close>

definition sample_hello :: "byte list" where
  "sample_hello =
     [1, 0, 0, 53] @ replicate 34 0 @ [0, 0, 2, 0x13, 0x01, 1, 0, 0, 10, 0, 0, 0, 6, 0, 4, 0, 0, 1, 0x61]"

definition sample_hello_record :: "byte list" where
  "sample_hello_record = 0x16 # 3 # 1 # to_be16 (word_of_nat (length sample_hello)) @ sample_hello"

lemma sample_hello_reads:
  "length sample_hello = 57" "sample_hello ! 0 = 1" "read_u24 (take 3 (drop 1 sample_hello)) = Ok 53"
  "read_u16_at sample_hello 39 = Ok 2" "read_u16_at sample_hello 45 = Ok 10"
  "get_at sample_hello 38 = Some 0" "get_at sample_hello 43 = Some 1"
  "read_u16_at sample_hello 47 = Ok 0" "read_u16_at sample_hello 49 = Ok 6"
  "take 6 (drop 51 sample_hello) = [0, 4, 0, 0, 1, 0x61]"
  by (simp_all add: sample_hello_def read_u16_at_def read_u24_def from_be16_def get_at_def nth_append)

lemma sample_hello_parses: "parse_tls_sni_from_record sample_hello = Ok (lit ''a'')"
proof -
  have "parse_sni_extension [0, 4, 0, 0, 1, 0x61] = Ok (lit ''a'')"
    by (simp add: parse_sni_extension_def read_u16_at_def from_be16_def sni_loop.simps utf8_next_def lit_def)
  then have "extension_loop sample_hello 57 47 = Ok (lit ''a'')"
    by (subst extension_loop.simps) (simp add: sample_hello_reads)
  moreover have "parse_tls_sni_from_record sample_hello = extension_loop sample_hello 57 47"
    by (rule parse_record_steps [where n = 53 and ?o1.0 = 39 and ?o2.0 = 43 and ?o3.0 = 45 and s = 0
        and cl = 2 and c = 1 and el = 10])
      (simp_all add: sample_hello_reads del: One_nat_def)
  ultimately show ?thesis by simp
qed

text \<open>Bytes the client sends in one segment with its ClientHello never reach the host. The
  reader that looks for the server name fetches the whole segment into its buffer, and the relay
  goes on with the connection underneath it: whatever follows the hello in that segment is
  dropped, although the relay starts as if nothing were missing.\<close>

theorem tls_gateway_drops_buffered:
  assumes "hello = 0x16 # a # b # to_be16 (word_of_nat (length body)) @ body"
    and "parse_tls_sni_from_record body = Ok sni" "length body \<le> 16384"
    and "length (hello @ extra) \<le> 8192"
    and "dial (from_domain sni 443) = Ok upstream" "writes_left upstream \<noteq> 0"
  shows "\<exists>r. relay_tls_gateway dial (Chunk (hello @ extra) # rest) = Ok r \<and>
     outbound (rl_upstream r) = outbound upstream @ hello \<and> rl_client r = rest"
proof -
  let ?n = "length body"
  have n: "?n \<noteq> 0" using assms(2) by (auto simp: parse_tls_sni_from_record_def)
  have u: "unat (word_of_nat ?n :: u16) = ?n" using assms(3) by (intro len16_unat) simp
  have len: "length hello = 5 + ?n" by (simp add: assms(1))
  have h: "take 5 (hello @ extra) = [0x16, a, b] @ to_be16 (word_of_nat ?n)"
    by (simp add: assms(1) to_be16_def)
  have d: "drop 5 (hello @ extra) = body @ extra" by (simp add: assms(1) to_be16_def)
  have r5: "buf_read_exact 5 \<lparr>br_buffer = [], br_inner = Chunk (hello @ extra) # rest\<rparr> =
      Ok ([0x16, a, b] @ to_be16 (word_of_nat ?n), \<lparr>br_buffer = body @ extra, br_inner = rest\<rparr>)"
    using buf_read_exact_fetch [of 5 "hello @ extra" rest] len assms(4) h d
    by (simp add: buf_capacity_def)
  have rb: "buf_read_exact ?n \<lparr>br_buffer = body @ extra, br_inner = rest\<rparr> =
      Ok (body, \<lparr>br_buffer = extra, br_inner = rest\<rparr>)"
    using buf_read_exact_buffered [of ?n "\<lparr>br_buffer = body @ extra, br_inner = rest\<rparr>"] by simp
  define hd5 where "hd5 = [0x16, a, b] @ to_be16 (word_of_nat ?n)"
  have hd5: "hd5 ! 0 = 0x16" "length hd5 = 5" "unat (from_be16 (hd5 ! 3) (hd5 ! 4)) = ?n"
    using u by (simp_all add: hd5_def to_be16_def from_to_be16)
  then have ne: "hd5 \<noteq> []" by auto
  have "read_tls_sni \<lparr>br_buffer = [], br_inner = Chunk (hello @ extra) # rest\<rparr> =
      Ok (sni, hello, \<lparr>br_buffer = extra, br_inner = rest\<rparr>)"
    using n hd5 ne assms(2,3)
    by (simp add: read_tls_sni_def r5 rb Let_def flip: hd5_def) (simp add: hd5_def assms(1) rb)
  then show ?thesis
    using assms(5,6)
    by (simp add: relay_tls_gateway_def Let_def upstream_write_def write_all_def into_inner_def)
qed

theorem tls_gateway_drops_buffered_witness:
  "\<exists>r. relay_tls_gateway sample_dial [Chunk (sample_hello_record @ [1, 2, 3])] = Ok r \<and>
     outbound (rl_upstream r) = sample_hello_record \<and> rl_client r = []"
proof -
  have l: "length sample_hello \<le> 16384" "length (sample_hello_record @ [1, 2, 3]) \<le> 8192"
    by (simp_all add: sample_hello_record_def sample_hello_reads)
  show ?thesis
    using tls_gateway_drops_buffered [OF sample_hello_record_def sample_hello_parses l, of sample_dial _ "[]"]
    by (simp add: sample_dial_def)
qed

theorem tls_gateway_conservation_witness:
  "\<exists>r. relay_tls_gateway sample_dial [Chunk sample_hello_record, Chunk [7]] = Ok r \<and>
     outbound (rl_upstream r) = sample_hello_record \<and> rl_client r = [Chunk [7]]"
proof -
  have n: "unat (word_of_nat (length sample_hello) :: u16) = 57" by (simp add: sample_hello_reads)
  have len: "length sample_hello_record = 62" by (simp add: sample_hello_record_def sample_hello_reads)
  have ne: "sample_hello_record \<noteq> []" by (simp add: sample_hello_record_def)
  have d: "drop 5 sample_hello_record = sample_hello" "sample_hello_record ! 0 = 0x16"
    "unat (from_be16 (sample_hello_record ! 3) (sample_hello_record ! 4)) = 57"
    using n by (simp_all add: sample_hello_record_def to_be16_def from_to_be16)
  have r5: "buf_read_exact 5 \<lparr>br_buffer = [], br_inner = [Chunk sample_hello_record, Chunk [7]]\<rparr> =
      Ok (take 5 sample_hello_record, \<lparr>br_buffer = sample_hello, br_inner = [Chunk [7]]\<rparr>)"
    using buf_read_exact_fetch [of 5 sample_hello_record "[Chunk [7]]"] len d by (simp add: buf_capacity_def)
  have rb: "buf_read_exact 57 \<lparr>br_buffer = sample_hello, br_inner = [Chunk [7]]\<rparr> =
      Ok (sample_hello, \<lparr>br_buffer = [], br_inner = [Chunk [7]]\<rparr>)"
    using buf_read_exact_buffered [of 57 "\<lparr>br_buffer = sample_hello, br_inner = [Chunk [7]]\<rparr>"]
    by (simp add: sample_hello_reads)
  have "is_ok (relay_tls_gateway sample_dial [Chunk sample_hello_record, Chunk [7]])"
    using ne d by (simp add: relay_tls_gateway_def read_tls_sni_def r5 rb sample_hello_parses Let_def len
        sample_dial_def upstream_write_def write_all_def)
  then obtain r where r: "relay_tls_gateway sample_dial [Chunk sample_hello_record, Chunk [7]] = Ok r"
    by (auto simp: is_ok_iff)
  from tls_gateway_conservation [OF r] obtain us pre lost x vs sni upstream where
    c: "[Chunk sample_hello_record, Chunk [7]] = us @ Chunk (pre @ lost @ x) # vs" "pre \<noteq> []"
      "length (pre @ lost @ x) \<le> 8192 \<Longrightarrow> x = []" "rl_client r = (if x = [] then vs else Chunk x # vs)" and
    h: "length (client_bytes us @ pre) = 5 + unat (be16_at (client_bytes us @ pre) 3)"
      "outbound (rl_upstream r) = outbound upstream @ client_bytes us @ pre"
      "sample_dial (from_domain sni 443) = Ok upstream"
    unfolding Let_def by metis
  have at3: "be16_at hello 3 = 57" if "hello @ more = sample_hello_record @ ys" "5 \<le> length hello" for hello more ys
  proof -
    have eq: "hello ! i = sample_hello_record ! i" if "i < 5" for i
      using arg_cong [OF \<open>hello @ more = sample_hello_record @ ys\<close>, of "\<lambda>xs. xs ! i"] that \<open>5 \<le> length hello\<close> len
      by (simp add: nth_append)
    have "from_be16 (sample_hello_record ! 3) (sample_hello_record ! 4) = 57"
      using d(3) by (simp only: word_unat_eq_iff) simp
    with eq [of 3] eq [of 4] show ?thesis by (simp add: be16_at_def)
  qed
  have us: "us = [] \<or> us = [Chunk sample_hello_record]" using c(1) by (cases us; cases "tl us") auto
  have "us \<noteq> [Chunk sample_hello_record]"
  proof
    assume us: "us = [Chunk sample_hello_record]"
    then have "pre = [7]" using c(1,2) by (cases pre) auto
    with us h(1) at3 [of "sample_hello_record @ [7]" "[]" "[7]"] show False by (simp add: len)
  qed
  with us c(1) have u: "us = []" "pre @ lost @ x = sample_hello_record" "vs = [Chunk [7]]" by auto
  have "length pre = 62" using h(1) at3 [of pre "lost @ x" "[]"] u(1,2) by simp
  with u(2) len have p: "pre = sample_hello_record" "lost = []" "x = []"
    by (metis append_eq_append_conv append_Nil2 append_is_Nil_conv)+
  with h u c r show ?thesis by (auto simp: sample_dial_def)
qed

text \<open>The transparent relay connects a client to the destination its flow records, and to
  nothing else; without a flow it connects to nothing and leaves the table alone. The flow is
  removed when the relay has ended without an error; if the connection fails it stays in the table.\<close>

theorem relay_one_spec:
  "case ft_lookup table (relay_key ip port) of
     None \<Rightarrow> relay_one dial now copy table client ip port = (table, Err Missing_flow)
   | Some f \<Rightarrow>
       (case (dial (from_ip (original_dst_ip f) (original_dst_port f)),
              copy (snd (ft_get now table (relay_key ip port)))) of
          (Ok upstream, (after, True)) \<Rightarrow>
            \<exists>final. relay_one dial now copy table client ip port =
              (final, Ok \<lparr>rl_destination = from_ip (original_dst_ip f) (original_dst_port f),
                 rl_upstream = upstream, rl_client = client\<rparr>) \<and>
            ft_lookup final = (ft_lookup after)(relay_key ip port := None)
        | (Ok upstream, (after, False)) \<Rightarrow>
            relay_one dial now copy table client ip port = (after, Err Copy_failed)
        | (Err e, _) \<Rightarrow>
            \<exists>final. relay_one dial now copy table client ip port = (final, Err (Connecting e)) \<and>
            ft_lookup final = (ft_lookup table)(relay_key ip port \<mapsto> touch now f)
        | (Panic, _) \<Rightarrow> True)"
proof (cases "ft_lookup table (relay_key ip port)")
  case None
  then have "ft_get now table (relay_key ip port) = (None, table)"
    by (simp add: ft_get_def ft_lookup_def)
  with None show ?thesis by (simp add: relay_one_def relay_begin_def Let_def)
next
  case (Some f)
  obtain t' where g: "ft_get now table (relay_key ip port) = (Some (touch now f), t')"
    using ft.fst_get [of now table "relay_key ip port"] Some
    by (cases "ft_get now table (relay_key ip port)") simp
  have "ft_lookup t' k = (if k = relay_key ip port then Some (touch now f) else ft_lookup table k)" for k
    using ft.look_get [of now table "relay_key ip port" k] Some g by simp
  then have t': "ft_lookup t' = (ft_lookup table)(relay_key ip port \<mapsto> touch now f)" by auto
  have rem: "ft_lookup (snd (ft_remove t k)) = (ft_lookup t)(k := None)" for t k
    by (auto simp: ft.look_rem)
  show ?thesis
    using Some g t' rem
    by (auto simp: relay_one_def relay_begin_def Let_def touch_def relay_end_def
        split: res.split prod.split bool.split)
qed

end
