(* ===== verification/Datapath.thy ===== *)
theory Datapath
  imports Driver Gateway
begin

section \<open>The running data path\<close>

text \<open>
  The threads and tasks that share the flow table of a running program, as one step relation:
  the two capture workers, each handling one packet, and the relay tasks of the transparent TCP
  proxy, which look a flow up when a client connects and remove it when the copy has ended. Each
  step is one critical section of the table's mutex, so a sequence of steps is an interleaving
  of the real threads; every step may happen at any time.

  The state records what the workers have sent back, with the packet each was made from, the
  client packets that were redirected, and the connections the relay has asked for. The
  invariants are proved by induction on the steps, over the contract of the flow store: every
  recorded flow stems from a redirected packet of that client, so the relay only ever connects
  to where a client's packet was headed and the policy lets it go.
\<close>

subsection \<open>Accepting connections\<close>

text \<open>
  The accept loop of the transparent and of the gateway proxy: one relay task for each accepted
  client, until an accept call fails, which ends the proxy.
\<close>

datatype accept_event = Accepted socket_addr client | Accept_failed

fun accept_loop :: "accept_event list \<Rightarrow> (socket_addr \<times> client) list \<times> bool" where
  "accept_loop [] = ([], False)"
| "accept_loop (Accept_failed # events) = ([], True)"
| "accept_loop (Accepted peer client # events) =
     (case accept_loop events of (rest, ended) \<Rightarrow> ((peer, client) # rest, ended))"

lemma accept_loop_serves:
  "accept_loop (map (\<lambda>(peer, client). Accepted peer client) cs @ Accept_failed # events) = (cs, True)"
  "accept_loop (map (\<lambda>(peer, client). Accepted peer client) cs) = (cs, False)"
  by (induction cs) auto

text \<open>
  The tasks the two proxies spawn: the transparent one runs \<open>relay_one\<close> for the peer's address, the
  gateway one \<open>relay_gateway\<close> for the port it listens on. A task that fails does not end the loop.
\<close>

definition transparent_run :: "accept_event list \<Rightarrow> (client \<times> ip_addr \<times> u16) list \<times> bool" where
  "transparent_run events =
     map_prod (map (\<lambda>(peer, client). (client, sa_ip peer, sa_port peer))) id (accept_loop events)"

definition gateway_run :: "u16 \<Rightarrow> accept_event list \<Rightarrow> (client \<times> u16) list \<times> bool" where
  "gateway_run port events = map_prod (map (\<lambda>(peer, client). (client, port))) id (accept_loop events)"

lemma runs_serve:
  "transparent_run (map (\<lambda>(peer, client). Accepted peer client) cs @ Accept_failed # events) =
     (map (\<lambda>(peer, client). (client, sa_ip peer, sa_port peer)) cs, True)"
  "gateway_run port (map (\<lambda>(peer, client). Accepted peer client) cs @ Accept_failed # events) =
     (map (\<lambda>(peer, client). (client, port)) cs, True)"
  by (simp_all add: transparent_run_def gateway_run_def accept_loop_serves)

subsection \<open>States and steps\<close>

record datapath =
  dp_table :: flow_table
  dp_seen :: "packet_meta list"
  dp_forwarded :: "(byte list \<times> byte list) list"
  dp_returned :: "(byte list \<times> byte list) list"
  dp_dialed :: "(flow_key \<times> destination) list"
  dp_relays :: "flow_key list"

definition dp_start :: "flow_table \<Rightarrow> datapath" where
  "dp_start t =
     \<lparr>dp_table = t, dp_seen = [], dp_forwarded = [], dp_returned = [], dp_dialed = [], dp_relays = []\<rparr>"

text \<open>The metadata of a packet that the inbound worker redirects.\<close>

definition redirected :: "redirector_config \<Rightarrow> byte list \<Rightarrow> packet_meta list" where
  "redirected c p =
     (case parse_ipv4_packet_meta p of
        Ok m \<Rightarrow>
          (case classify_packet c m of
             RedirectTcp ip port \<Rightarrow> [m]
           | RedirectDns ip port \<Rightarrow> [m]
           | _ \<Rightarrow> [])
      | _ \<Rightarrow> [])"

definition sent_pair :: "packet_action \<Rightarrow> byte list \<Rightarrow> byte list \<Rightarrow> (byte list \<times> byte list) list" where
  "sent_pair action p q = (if action = Send_packet then [(p, q)] else [])"

inductive dp_step ::
  "redirector_config \<Rightarrow> (destination \<Rightarrow> (conn, connect_error) res) \<Rightarrow> datapath \<Rightarrow> datapath \<Rightarrow> bool"
  for c dial where
  Forward_packet:
    "process_forward_packet c now (dp_table s) p = Ok (action, t, q) \<Longrightarrow>
     dp_step c dial s
       (s\<lparr>dp_table := t, dp_seen := dp_seen s @ redirected c p,
          dp_forwarded := dp_forwarded s @ sent_pair action p q\<rparr>)"
| Network_packet:
    "process_network_packet c now (dp_table s) p = Ok (action, t, q) \<Longrightarrow>
     dp_step c dial s
       (s\<lparr>dp_table := t, dp_returned := dp_returned s @ sent_pair action p q\<rparr>)"
| Relay_begins:
    "relay_begin dial now (dp_table s) client (relay_key ip port) = (t, Ok r) \<Longrightarrow>
     dp_step c dial s
       (s\<lparr>dp_table := t, dp_dialed := dp_dialed s @ [(relay_key ip port, rl_destination r)],
          dp_relays := dp_relays s @ [relay_key ip port]\<rparr>)"
| Relay_fails:
    "relay_begin dial now (dp_table s) client (relay_key ip port) = (t, Err x) \<Longrightarrow>
     dp_step c dial s (s\<lparr>dp_table := t\<rparr>)"
| Relay_ends:
    "k \<in> set (dp_relays s) \<Longrightarrow>
     dp_step c dial s
       (s\<lparr>dp_table := relay_end k (dp_table s), dp_relays := remove1 k (dp_relays s)\<rparr>)"
| Relay_breaks:
    "k \<in> set (dp_relays s) \<Longrightarrow>
     dp_step c dial s (s\<lparr>dp_relays := remove1 k (dp_relays s)\<rparr>)"

inductive dp_reachable ::
  "redirector_config \<Rightarrow> (destination \<Rightarrow> (conn, connect_error) res) \<Rightarrow> nat \<Rightarrow> datapath \<Rightarrow> bool"
  for c dial capacity where
  Start: "dp_reachable c dial capacity (dp_start (ft_new capacity))"
| Step: "dp_reachable c dial capacity s \<Longrightarrow> dp_step c dial s s' \<Longrightarrow> dp_reachable c dial capacity s'"

subsection \<open>What one step does to the table\<close>

lemma process_forward_table:
  assumes "process_forward_packet c now t p = Ok (a, t', q)"
  shows "(redirected c p = [] \<and> t' = t) \<or>
     (\<exists>m ip port. redirected c p = [m] \<and> parse_ipv4_packet_meta p = Ok m \<and>
       (classify_packet c m = RedirectTcp ip port \<or> classify_packet c m = RedirectDns ip port) \<and>
       t' = ft_insert t (client_key m) (flow_value_new (pm_dst_ip m) (pm_dst_port m) ip port now))"
proof (cases "parse_ipv4_packet_meta p")
  case (Ok m)
  have send: "send_if_rewritten t0 x = Ok (a, t', q) \<Longrightarrow> t' = t0" for t0 x
    by (cases x) (auto simp: send_if_rewritten_def split: prod.splits)
  show ?thesis
  proof (cases "classify_packet c m")
    case (RedirectTcp ip port)
    with Ok assms show ?thesis
      by (auto simp: process_forward_packet_def redirect_to_def redirected_def client_key_def dest!: send)
  next
    case (RedirectDns ip port)
    with Ok assms show ?thesis
      by (auto simp: process_forward_packet_def redirect_to_def redirected_def client_key_def dest!: send)
  qed (use Ok assms in \<open>auto simp: process_forward_packet_def redirected_def\<close>)
qed (use assms in \<open>auto simp: process_forward_packet_def redirected_def\<close>)

lemma process_network_table:
  assumes "process_network_packet c now t p = Ok (a, t', q)"
  shows "t' = t \<or> (\<exists>k. t' = snd (ft_get now t k))"
proof (cases "parse_ipv4_packet_meta p")
  case (Ok m)
  have send: "send_if_rewritten t0 x = Ok (a, t', q) \<Longrightarrow> t' = t0" for t0 x
    by (cases x) (auto simp: send_if_rewritten_def split: prod.splits)
  from assms show ?thesis
    by (auto simp: process_network_eq [OF Ok] split: if_splits option.splits dest!: send)
qed (use assms in \<open>auto simp: process_network_packet_def\<close>)

text \<open>What leaves the outbound worker: the packet it got, or a DNS answer readdressed to the
  destination of the recorded flow.\<close>

lemma process_network_packet_result:
  assumes "process_network_packet c now t p = Ok (Send_packet, t', q)"
  shows "q = p \<or> (\<exists>m f. parse_ipv4_packet_meta p = Ok m \<and> dns_answer c m \<and>
       fst (ft_get now t (reply_key m)) = Some f \<and>
       parse_ipv4_packet_meta q =
         Ok (m\<lparr>pm_src_ip := original_dst_ip f, pm_src_port := original_dst_port f\<rparr>) \<and>
       ip_checksum_ok q)"
proof (cases "parse_ipv4_packet_meta p")
  case (Ok m)
  show ?thesis
  proof (cases "dns_answer c m \<and> fst (ft_get now t (reply_key m)) \<noteq> None")
    case True
    then obtain f where f: "fst (ft_get now t (reply_key m)) = Some f" by blast
    show ?thesis
    proof (cases "original_dst_ip f")
      case (V4 x)
      obtain q' where "rewrite_source p (V4 x) (original_dst_port f) = Ok (Some (), q')"
        "parse_ipv4_packet_meta q' = Ok (m\<lparr>pm_src_ip := V4 x, pm_src_port := original_dst_port f\<rparr>)"
        "ip_checksum_ok q'"
        using rewritten_source [OF Ok] by blast
      with assms Ok True f V4 show ?thesis by (auto simp: process_network_eq)
    qed (use assms Ok True f in \<open>auto simp: process_network_eq rewrite_source_def\<close>)
  qed (use assms Ok in \<open>auto simp: process_network_eq split: if_splits\<close>)
qed (use assms in \<open>auto simp: process_network_packet_def\<close>)

lemma relay_begin_table: "relay_begin dial now t client k = (t', r) \<Longrightarrow> t' = snd (ft_get now t k)"
  by (auto simp: relay_begin_def Let_def split: prod.splits option.splits)

lemma relay_begin_destination:
  assumes "relay_begin dial now t client k = (t', Ok r)"
  obtains f where "fst (ft_get now t k) = Some f"
    and "rl_destination r = from_ip (original_dst_ip f) (original_dst_port f)"
proof -
  obtain o' t1 where g: "ft_get now t k = (o', t1)" by fastforce
  show thesis
  proof (cases o')
    case (Some f)
    with assms g that [of f] show thesis
      by (cases "dial (from_ip (original_dst_ip f) (original_dst_port f))")
        (auto simp: relay_begin_def Let_def)
  qed (use assms g in \<open>simp add: relay_begin_def\<close>)
qed

subsection \<open>Invariants\<close>

text \<open>Where the policy lets a flow of a client go.\<close>

definition flow_allowed :: "redirector_config \<Rightarrow> flow_key \<Rightarrow> ip_addr \<Rightarrow> u16 \<Rightarrow> bool" where
  "flow_allowed c k ip port \<longleftrightarrow>
     is_hotspot_client (rt_subnet (rc_hotspot c)) (fk_client_ip k) \<and>
     (if port = 53 then pol_dns (rc_policy c) = DnsProxy
      else
        fk_protocol k = Tcp \<and> pol_tcp (rc_policy c) = TcpProxy \<and>
        ip \<noteq> rt_gateway_ip (rc_hotspot c) \<and> \<not> is_multicast_or_broadcast ip \<and>
        upstream_proxy_ip (rc_policy c) \<noteq> Some ip \<and>
        \<not> (bypass_private_lan (rc_policy c) \<and> is_private_lan ip))"

text \<open>A flow stems from a redirected packet of its client that was headed for its destination.\<close>

definition flow_from :: "packet_meta list \<Rightarrow> flow_key \<Rightarrow> ip_addr \<Rightarrow> u16 \<Rightarrow> bool" where
  "flow_from seen k ip port \<longleftrightarrow>
     (\<exists>m \<in> set seen. client_key m = k \<and> pm_dst_ip m = ip \<and> pm_dst_port m = port)"

definition origin_ok :: "redirector_config \<Rightarrow> packet_meta list \<Rightarrow> flow_key \<Rightarrow> ip_addr \<Rightarrow> u16 \<Rightarrow> bool" where
  "origin_ok c seen k ip port \<longleftrightarrow> flow_allowed c k ip port \<and> flow_from seen k ip port"

lemma redirect_allowed:
  "classify_packet c m = RedirectTcp ip port \<or> classify_packet c m = RedirectDns ip port \<Longrightarrow>
     flow_allowed c (client_key m) (pm_dst_ip m) (pm_dst_port m)"
  by (auto simp: classify_redirect_tcp classify_redirect_dns flow_allowed_def client_key_def proxied_scope_def)

lemma flows_satisfy_mono:
  "flows_satisfy P m \<Longrightarrow> (\<And>k ip port. P k ip port \<Longrightarrow> Q k ip port) \<Longrightarrow> flows_satisfy Q m"
  by (simp add: flows_satisfy_def)

lemma origin_ok_more: "origin_ok c seen k ip port \<Longrightarrow> origin_ok c (seen @ later) k ip port"
  by (auto simp: origin_ok_def flow_from_def)

text \<open>An outbound packet is left as it is, or is an answer to a client and then comes from port 53
  of an address that this client sent a packet to.\<close>

definition returned_ok :: "redirector_config \<Rightarrow> packet_meta list \<Rightarrow> byte list \<Rightarrow> byte list \<Rightarrow> bool" where
  "returned_ok c seen p q \<longleftrightarrow>
     q = p \<or>
     (\<exists>m n. parse_ipv4_packet_meta p = Ok m \<and> dns_answer c m \<and>
       n \<in> set seen \<and> client_key n = reply_key m \<and> pm_dst_port n = 53 \<and>
       parse_ipv4_packet_meta q = Ok (m\<lparr>pm_src_ip := pm_dst_ip n, pm_src_port := 53\<rparr>) \<and>
       ip_checksum_ok q)"

lemma returned_ok_more: "returned_ok c seen p q \<Longrightarrow> returned_ok c (seen @ later) p q"
  unfolding returned_ok_def by auto

lemma udp_flow_port: "flow_allowed c k ip port \<Longrightarrow> fk_protocol k = Udp \<Longrightarrow> port = 53"
  by (auto simp: flow_allowed_def split: if_splits)

lemma network_returned_ok:
  assumes "process_network_packet c now t p = Ok (action, t', q)"
    and "flows_satisfy (origin_ok c seen) (ft_lookup t)" and "(p', q') \<in> set (sent_pair action p q)"
  shows "returned_ok c seen p' q'"
proof -
  have sent: "action = Send_packet" "p' = p" "q' = q"
    using assms(3) by (auto simp: sent_pair_def split: if_splits)
  from process_network_packet_result [OF assms(1) [unfolded sent(1)]]
  show ?thesis
  proof (elim disjE exE conjE)
    fix m f
    assume m: "parse_ipv4_packet_meta p = Ok m" "dns_answer c m" "ip_checksum_ok q"
      "parse_ipv4_packet_meta q = Ok (m\<lparr>pm_src_ip := original_dst_ip f, pm_src_port := original_dst_port f\<rparr>)"
      and f: "fst (ft_get now t (reply_key m)) = Some f"
    from ft.get_origin [OF assms(2) f] obtain n where n: "n \<in> set seen" "client_key n = reply_key m"
      "pm_dst_ip n = original_dst_ip f" "pm_dst_port n = original_dst_port f"
      and "flow_allowed c (reply_key m) (original_dst_ip f) (original_dst_port f)"
      by (auto simp: origin_ok_def flow_from_def)
    then have "original_dst_port f = 53" by (auto dest: udp_flow_port simp: reply_key_def)
    with m n sent show ?thesis by (auto simp: returned_ok_def)
  qed (simp add: sent returned_ok_def)
qed

definition dp_inv :: "redirector_config \<Rightarrow> nat \<Rightarrow> datapath \<Rightarrow> bool" where
  "dp_inv c capacity s \<longleftrightarrow>
     ft_wf (dp_table s) \<and> ft_capacity (dp_table s) = capacity \<and>
     flows_satisfy (origin_ok c (dp_seen s)) (ft_lookup (dp_table s)) \<and>
     (\<forall>(k, d) \<in> set (dp_dialed s). \<exists>ip port. d = from_ip ip port \<and> origin_ok c (dp_seen s) k ip port) \<and>
     (\<forall>(p, q) \<in> set (dp_returned s). returned_ok c (dp_seen s) p q)"

lemma dp_inv_get:
  "dp_inv c capacity s \<Longrightarrow> dp_inv c capacity (s\<lparr>dp_table := snd (ft_get now (dp_table s) k)\<rparr>)"
  by (auto simp: dp_inv_def ft_wf_get ft.flows_satisfy_get)

lemma dp_inv_step:
  assumes "dp_step c dial s s'" and inv: "dp_inv c capacity s"
  shows "dp_inv c capacity s'"
  using assms(1)
proof (cases rule: dp_step.cases)
  case (Forward_packet now p action t q)
  from process_forward_table [OF Forward_packet(2)]
  consider (unchanged) "redirected c p = []" "t = dp_table s"
    | (inserted) m ip port where "redirected c p = [m]"
      "classify_packet c m = RedirectTcp ip port \<or> classify_packet c m = RedirectDns ip port"
      "t = ft_insert (dp_table s) (client_key m) (flow_value_new (pm_dst_ip m) (pm_dst_port m) ip port now)"
    by blast
  then show ?thesis
  proof cases
    case unchanged
    with inv Forward_packet(1) show ?thesis by (simp add: dp_inv_def)
  next
    case m: (inserted m ip port)
    let ?P = "origin_ok c (dp_seen s @ [m])"
    have new: "?P (client_key m) (pm_dst_ip m) (pm_dst_port m)"
      using redirect_allowed [OF m(2)] by (auto simp: origin_ok_def flow_from_def)
    have old: "flows_satisfy ?P (ft_lookup (dp_table s))"
      using inv by (auto simp: dp_inv_def intro: flows_satisfy_mono origin_ok_more)
    have "flows_satisfy ?P (ft_lookup t)"
      unfolding m(3) by (rule ft.flows_satisfy_ins [OF old]) (use new in \<open>simp add: flow_value_new_def\<close>)
    moreover have "\<forall>(k, d) \<in> set (dp_dialed s). \<exists>ip port. d = from_ip ip port \<and> ?P k ip port"
      using inv origin_ok_more [of c "dp_seen s"] unfolding dp_inv_def by blast
    moreover have "\<forall>(p, q) \<in> set (dp_returned s). returned_ok c (dp_seen s @ [m]) p q"
      using inv returned_ok_more [of c "dp_seen s"] unfolding dp_inv_def by blast
    ultimately show ?thesis
      using inv m by (simp add: Forward_packet(1) dp_inv_def ft_wf_insert)
  qed
next
  case (Network_packet now p action t q)
  have flows: "flows_satisfy (origin_ok c (dp_seen s)) (ft_lookup (dp_table s))"
    using inv by (simp add: dp_inv_def)
  have new: "\<forall>(p', q') \<in> set (sent_pair action p q). returned_ok c (dp_seen s) p' q'"
    using network_returned_ok [OF Network_packet(2) flows] by blast
  from process_network_table [OF Network_packet(2)] show ?thesis
  proof (elim disjE exE)
    assume "t = dp_table s"
    with inv new Network_packet(1) show ?thesis by (simp add: dp_inv_def ball_Un)
  next
    fix k assume "t = snd (ft_get now (dp_table s) k)"
    with dp_inv_get [OF inv, of now k] new Network_packet(1) show ?thesis
      by (simp add: dp_inv_def ball_Un)
  qed
next
  case (Relay_begins now client ip port t r)
  obtain f where f: "fst (ft_get now (dp_table s) (relay_key ip port)) = Some f"
    and d: "rl_destination r = from_ip (original_dst_ip f) (original_dst_port f)"
    using Relay_begins(2) by (rule relay_begin_destination)
  have "flows_satisfy (origin_ok c (dp_seen s)) (ft_lookup (dp_table s))" using inv by (simp add: dp_inv_def)
  from ft.get_origin [OF this f] have "origin_ok c (dp_seen s) (relay_key ip port) (original_dst_ip f) (original_dst_port f)" .
  with d dp_inv_get [OF inv, of now "relay_key ip port"] relay_begin_table [OF Relay_begins(2)]
  show ?thesis unfolding Relay_begins(1) dp_inv_def by auto
next
  case (Relay_fails now client ip port t x)
  with dp_inv_get [OF inv, of now "relay_key ip port"] relay_begin_table [OF Relay_fails(2)]
  show ?thesis by simp
next
  case (Relay_ends k)
  with inv show ?thesis
    by (simp add: dp_inv_def relay_end_def ft_wf_remove ft.flows_satisfy_rem)
next
  case (Relay_breaks k)
  with inv show ?thesis by (simp add: dp_inv_def)
qed

lemma dp_inv_reachable: "dp_reachable c dial capacity s \<Longrightarrow> dp_inv c capacity s"
proof (induction rule: dp_reachable.induct)
  case Start
  show ?case by (simp add: dp_inv_def dp_start_def ft_wf_new flows_satisfy_def) (simp add: ft_new_def)
next
  case (Step s s')
  then show ?case by (blast intro: dp_inv_step)
qed

subsection \<open>Sample packets\<close>

text \<open>192.168.137.20:51000 to 93.184.216.34:443 over TCP, and the listener's answer to it.\<close>

definition sample_tcp :: "byte list" where
  "sample_tcp =
     [0x45, 0, 0, 40, 0, 0, 0, 0, 64, 6, 0, 0, 192, 168, 137, 20, 93, 184, 216, 34,
      0xc7, 0x38, 0x01, 0xbb, 0, 0, 0, 0, 0, 0, 0, 0, 0x50, 0x02, 0, 0, 0, 0, 0, 0]"

definition sample_tcp_answer :: "byte list" where
  "sample_tcp_answer =
     [0x45, 0, 0, 40, 0, 0, 0, 0, 64, 6, 0, 0, 192, 168, 137, 1, 192, 168, 137, 20,
      0x3a, 0xe8, 0xc7, 0x38, 0, 0, 0, 0, 0, 0, 0, 0, 0x50, 0x12, 0, 0, 0, 0, 0, 0]"

definition sample_tcp_meta :: packet_meta where
  "sample_tcp_meta =
     \<lparr>pm_protocol = Tcp, pm_src_ip = V4 (Ipv4Addr 192 168 137 20), pm_src_port = 51000,
      pm_dst_ip = V4 (Ipv4Addr 93 184 216 34), pm_dst_port = 443\<rparr>"

lemma sample_tcp_parses:
  "parse_ipv4_packet_meta sample_tcp = Ok sample_tcp_meta"
  "parse_ipv4_packet_meta sample_tcp_answer =
     Ok \<lparr>pm_protocol = Tcp, pm_src_ip = V4 (Ipv4Addr 192 168 137 1), pm_src_port = 15080,
         pm_dst_ip = V4 (Ipv4Addr 192 168 137 20), pm_dst_port = 51000\<rparr>"
  by code_simp+

lemma sample_tcp_redirected:
  "classify_packet sample_config sample_tcp_meta = RedirectTcp (V4 (Ipv4Addr 192 168 137 1)) 15080"
  by code_simp

subsection \<open>Properties\<close>

text \<open>C15: Where the transparent proxy connects to, under every interleaving of the capture workers
  and the relay tasks: each connection it asks for on behalf of a client address and port is to
  the destination of a packet that this client sent from this port and that was redirected; so
  it is a hotspot client, and unless the port is 53 the destination is not the gateway, not a
  multicast or broadcast address, not the upstream proxy and not in the private LAN when that
  is bypassed. The flow table stays within its capacity throughout.\<close>

theorem relay_destinations_allowed:
  assumes "dp_reachable c dial capacity s" and "(k, d) \<in> set (dp_dialed s)"
  shows "(\<exists>m \<in> set (dp_seen s). client_key m = k \<and> d = from_ip (pm_dst_ip m) (pm_dst_port m) \<and>
      flow_allowed c k (pm_dst_ip m) (pm_dst_port m)) \<and>
    ft_len (dp_table s) \<le> max 1 capacity"
  using dp_inv_reachable [OF assms(1)] assms(2)
  by (fastforce simp: dp_inv_def origin_ok_def flow_from_def ft_wf_def)

theorem relay_destinations_allowed_witness:
  "\<exists>s d. dp_reachable sample_config sample_dial 4 s \<and> (client_key sample_tcp_meta, d) \<in> set (dp_dialed s) \<and>
     (\<exists>m \<in> set (dp_seen s). client_key m = client_key sample_tcp_meta \<and> d = from_ip (pm_dst_ip m) (pm_dst_port m)) \<and>
     ft_len (dp_table s) \<le> 4"
proof -
  let ?s0 = "dp_start (ft_new 4)"
  obtain a t q where f: "process_forward_packet sample_config 5 (ft_new 4) sample_tcp = Ok (a, t, q)"
    using process_forward_returns by blast
  have "redirected sample_config sample_tcp = [sample_tcp_meta]"
    by (simp add: redirected_def sample_tcp_parses sample_tcp_redirected)
  with process_forward_table [OF f] obtain v where t: "t = ft_insert (ft_new 4) (client_key sample_tcp_meta) v"
    by auto
  let ?s1 = "?s0\<lparr>dp_table := t, dp_seen := dp_seen ?s0 @ redirected sample_config sample_tcp,
          dp_forwarded := dp_forwarded ?s0 @ sent_pair a sample_tcp q\<rparr>"
  have s1: "dp_reachable sample_config sample_dial 4 ?s1"
    by (rule Step [OF Start], rule Forward_packet [where now = 5]) (simp add: dp_start_def f)
  have key: "relay_key (V4 (Ipv4Addr 192 168 137 20)) 51000 = client_key sample_tcp_meta"
    by (simp add: relay_key_def client_key_def sample_tcp_meta_def)
  obtain t2 where g: "ft_get 2 t (client_key sample_tcp_meta) = (Some (touch 2 v), t2)"
    using ft.get_after_ins [of 2 "ft_new 4" "client_key sample_tcp_meta" v] t by (metis prod.collapse)
  obtain r where "relay_begin sample_dial 2 (dp_table ?s1) [] (relay_key (V4 (Ipv4Addr 192 168 137 20)) 51000) = (t2, Ok r)"
    by (simp add: key relay_begin_def g Let_def sample_dial_def)
  from Step [OF s1 Relay_begins [OF this]] obtain s where
    s: "dp_reachable sample_config sample_dial 4 s" "(client_key sample_tcp_meta, rl_destination r) \<in> set (dp_dialed s)"
    by (auto simp: key)
  with relay_destinations_allowed [OF s] show ?thesis by auto
qed

text \<open>C17: What leaves the outbound worker under every interleaving: each packet is as it came, or
  it is an answer of the DNS proxy to a client and its source is now port 53 of an address that
  this very client sent a redirected packet to, with a valid header checksum. In particular no
  TCP packet is ever changed on its way out.\<close>

theorem returned_packets_ok:
  assumes "dp_reachable c dial capacity s" and "(p, q) \<in> set (dp_returned s)"
  shows "returned_ok c (dp_seen s) p q \<and>
    (case parse_ipv4_packet_meta p of Ok m \<Rightarrow> pm_protocol m = Udp \<or> q = p | _ \<Rightarrow> q = p)"
proof -
  have "returned_ok c (dp_seen s) p q"
    using dp_inv_reachable [OF assms(1)] assms(2) by (auto simp: dp_inv_def)
  then show ?thesis by (auto simp: returned_ok_def dns_answer_def split: res.split)
qed

theorem returned_packets_ok_witness:
  "\<exists>s. dp_reachable sample_config sample_dial 4 s \<and> (sample_answer, sample_answer) \<in> set (dp_returned s) \<and>
     returned_ok sample_config (dp_seen s) sample_answer sample_answer"
proof -
  have n: "process_network_packet sample_config 9 (dp_table (dp_start (ft_new 4))) sample_answer =
      Ok (Send_packet, ft_new 4, sample_answer)"
    by code_simp
  let ?s = "dp_start (ft_new 4)\<lparr>dp_table := ft_new 4, dp_returned := dp_returned (dp_start (ft_new 4)) @
      sent_pair Send_packet sample_answer sample_answer\<rparr>"
  have s: "dp_reachable sample_config sample_dial 4 ?s" "(sample_answer, sample_answer) \<in> set (dp_returned ?s)"
    by (rule Step [OF Start Network_packet [OF n]]) (simp add: sent_pair_def)
  with returned_packets_ok [OF s] show ?thesis by blast
qed

text \<open>The return path of a redirected TCP connection is not rewritten: the answer of the local
  listener to a client whose packet was redirected to it leaves with the gateway address and the
  listener's port as its source, which are not the address and port the client is talking to.\<close>

theorem tcp_answer_not_restored:
  assumes "classify_packet c m = RedirectTcp ip port"
    and "parse_ipv4_packet_meta a = Ok
           \<lparr>pm_protocol = Tcp, pm_src_ip = ip, pm_src_port = port,
            pm_dst_ip = pm_src_ip m, pm_dst_port = pm_src_port m\<rparr>"
  shows "process_network_packet c now t a = Ok (Send_packet, t, a) \<and> ip \<noteq> pm_dst_ip m"
  using assms
  by (auto simp: process_network_eq dns_answer_def classify_redirect_tcp proxied_scope_def)

theorem tcp_answer_not_restored_witness:
  "process_network_packet sample_config 9 (ft_new 4) sample_tcp_answer =
     Ok (Send_packet, ft_new 4, sample_tcp_answer)"
proof -
  have "parse_ipv4_packet_meta sample_tcp_answer = Ok
           \<lparr>pm_protocol = Tcp, pm_src_ip = V4 (Ipv4Addr 192 168 137 1), pm_src_port = 15080,
            pm_dst_ip = pm_src_ip sample_tcp_meta, pm_dst_port = pm_src_port sample_tcp_meta\<rparr>"
    by (simp add: sample_tcp_parses sample_tcp_meta_def)
  from tcp_answer_not_restored [OF sample_tcp_redirected this] show ?thesis by blast
qed

end
