(* ===== verification/App.thy ===== *)
theory App
  imports Driver Hotspot_Control
begin

section \<open>Orchestration (src/src/app.rs)\<close>

text \<open>
  The commands of the program: bringing the proxy up and down, recovery and status, over
  the three trait objects of \<open>HProxyApp\<close>. Each trait is a record of operations on the host, so
  the definitions are those of any implementation; \<open>windows_app\<close> is the one the program uses.

  The startup block of \<open>up\<close> changes local variables that the rollback reads; they are a second
  component of the state it runs on. A socket that has been bound and not moved into a task is
  closed when the block ends. Aborting a listener task drops the socket it owns; the tasks it has
  spawned, for relays and for DNS queries under way, are not listeners and go on. \<open>Outside\<close> the program are the bind calls, the network
  with the time a connection takes, and Ctrl+C.

  The locale \<open>application\<close> states what the commands rely on: the contract of the redirector,
  and that the hotspot operations keep away from it. The lemmas say in which state every
  branch of \<open>up\<close> leaves the host. The locale is interpreted on the Windows implementation.
\<close>

subsection \<open>The traits and the application\<close>

record 'w hotspot_controller =
  hc_start :: "hotspot_config \<Rightarrow> ('w host, unit, control_error) io"
  hc_stop :: "('w host, unit, control_error) io"
  hc_status :: "('w host, hotspot_status, control_error) io"
  hc_access_point :: "('w host, hotspot_access_point option, control_error) io"

record 'w redirector_object =
  pr_preflight :: "redirector_preflight_config \<Rightarrow> ('w host, unit, driver_error) io"
  pr_start :: "redirector_config \<Rightarrow> ('w host, unit, driver_error) io"
  pr_stop :: "('w host, unit, driver_error) io"

record 'w h_proxy_app =
  app_hotspot :: "'w hotspot_controller"
  app_discover_hotspot :: "('w host, hotspot_runtime, control_error) io"
  app_redirector :: "'w redirector_object"

definition windows_hotspot :: "'w winrt \<Rightarrow> 'w shell \<Rightarrow> 'w hotspot_controller" where
  "windows_hotspot rt sh =
     \<lparr>hc_start = windows_hotspot_start rt sh, hc_stop = windows_hotspot_stop rt sh,
      hc_status = windows_hotspot_status rt sh, hc_access_point = windows_hotspot_access_point rt sh\<rparr>"

definition windivert_redirector :: "'w driver_env \<Rightarrow> 'w redirector_object" where
  "windivert_redirector e =
     \<lparr>pr_preflight = redirector_preflight e, pr_start = redirector_start e, pr_stop = redirector_stop\<rparr>"

definition windows_app ::
  "'w winrt \<Rightarrow> ('w \<Rightarrow> nat \<Rightarrow> adapters_result) \<Rightarrow> 'w shell \<Rightarrow> 'w driver_env \<Rightarrow> 'w h_proxy_app" where
  "windows_app rt adapters sh e =
     \<lparr>app_hotspot = windows_hotspot rt sh,
      app_discover_hotspot = windows_discover_hotspot adapters sh,
      app_redirector = windivert_redirector e\<rparr>"

subsection \<open>Outside the program\<close>

record 'w outside =
  out_bind :: "socket \<Rightarrow> ('w, bool) external"
  out_net :: "'w \<Rightarrow> net"
  out_connect_time :: "connector \<Rightarrow> destination \<Rightarrow> 'w \<Rightarrow> nat \<times> 'w"
  out_ctrl_c :: "('w, bool) external"

datatype outbound_error =
  Probe_timeout_zero | Probe_timed_out socket_addr | Probe_connect_failed socket_addr connect_error

datatype app_error =
  Invalid_config config_error
| No_connector connect_error
| Outbound_failed outbound_error
| Not_bound str socket
| Preflight_refused driver_error
| Hotspot_not_started control_error
| Not_discovered control_error
| Gateway_needs_ipv4
| Redirector_not_started driver_error
| Ctrl_c_failed
| Redirector_error driver_error
| Hotspot_error control_error

definition bind_socket :: "'w outside \<Rightarrow> str \<Rightarrow> socket \<Rightarrow> ('w host, unit, app_error) io" where
  "bind_socket out what s =
     perform (call (\<lambda>w. case out_bind out s w of (b, t, w') \<Rightarrow> (Ok b, t, w'))) (\<lambda>free h.
       if \<not> free \<or> s \<in> set (sockets h) then (Err (Not_bound what s), h)
       else (Ok (), h\<lparr>sockets := sockets h @ [s], actions := actions h @ [Bound s]\<rparr>))"

text \<open>The three listeners, each on a port of the wildcard address.\<close>

definition transparent_bind :: "'w outside \<Rightarrow> u16 \<Rightarrow> ('w host, unit, app_error) io" where
  "transparent_bind out listen_port =
     bind_socket out (lit ''bind transparent TCP proxy'') (Tcp_socket listen_port)"

definition gateway_bind :: "'w outside \<Rightarrow> str \<Rightarrow> u16 \<Rightarrow> ('w host, unit, app_error) io" where
  "gateway_bind out what listen_port = bind_socket out what (Tcp_socket listen_port)"

definition dns_bind :: "'w outside \<Rightarrow> u16 \<Rightarrow> ('w host, unit, app_error) io" where
  "dns_bind out listen_port = bind_socket out (lit ''bind DNS proxy'') (Udp_socket listen_port)"

definition ctrl_c :: "'w outside \<Rightarrow> ('w host, unit, app_error) io" where
  "ctrl_c out =
     perform (call (\<lambda>w. case out_ctrl_c out w of (b, t, w') \<Rightarrow> (Ok b, t, w'))) (\<lambda>came.
       if came then give () else fail Ctrl_c_failed)"

subsection \<open>The outbound probe\<close>

definition probe_outbound_connector ::
  "'w outside \<Rightarrow> connector \<Rightarrow> socket_addr \<Rightarrow> u64 \<Rightarrow> ('w host, unit, outbound_error) io" where
  "probe_outbound_connector out connector target timeout_ms =
     (if timeout_ms = 0 then fail Probe_timeout_zero
      else
        let destination = from_ip (sa_ip target) (sa_port target) in
        perform (emit (Dialed destination)) (\<lambda>_ h.
          case out_connect_time out connector destination (world h) of
            (elapsed, w) \<Rightarrow>
              if unat timeout_ms < elapsed
              then (Err (Probe_timed_out target),
                    h\<lparr>clock := clock h + unat timeout_ms, world := w\<rparr>)
              else
                (map_err (Probe_connect_failed target)
                   (attempt (connect (out_net out (world h)) connector destination) (\<lambda>_. Ok ())),
                 h\<lparr>clock := clock h + elapsed, world := w\<rparr>)))"

definition probe_outbound_if_enabled ::
  "'w outside \<Rightarrow> connector \<Rightarrow> proxy_preflight_config \<Rightarrow> ('w host, unit, outbound_error) io" where
  "probe_outbound_if_enabled out connector config =
     (if \<not> pf_enabled config then give ()
      else probe_outbound_connector out connector (pf_target config) (pf_timeout_ms config))"

subsection \<open>Tasks\<close>

fun socket_of :: "task \<Rightarrow> socket" where
  "socket_of (Transparent_task p) = Tcp_socket p"
| "socket_of (Dns_task p) = Udp_socket p"
| "socket_of (Gateway_task p) = Tcp_socket p"

text \<open>
  \<open>abort\<close> ends a listener task at its next suspension point and drops what it owns, its socket
  among it; this is taken to happen at once. The DNS listener shares its socket with the tasks of
  the queries it has passed on (src/src/dns.rs), so the port itself is free only when the last of
  them has answered or timed out.
\<close>

definition abort_task :: "task \<Rightarrow> ('w host, unit, app_error) io" where
  "abort_task t h =
     (Ok (), h\<lparr>tasks := remove1 t (tasks h), sockets := remove1 (socket_of t) (sockets h),
               actions := actions h @ [Aborted t]\<rparr>)"

definition abort_listener_tasks :: "task list \<Rightarrow> ('w host, unit, app_error) io" where
  "abort_listener_tasks ts = for_each abort_task ts"

text \<open>The end of the startup block: what was bound and not moved into a task is closed.\<close>

definition drop_unused :: "'w host \<Rightarrow> 'w host" where
  "drop_unused h = h\<lparr>sockets := map socket_of (tasks h)\<rparr>"

subsection \<open>Stopping\<close>

definition down :: "'w h_proxy_app \<Rightarrow> ('w host, unit, app_error) io" where
  "down app =
     perform (wrap Redirector_error (pr_stop (app_redirector app))) (\<lambda>_.
     wrap Hotspot_error (hc_stop (app_hotspot app)))"

definition recover :: "'w h_proxy_app \<Rightarrow> ('w host, unit, app_error) io" where
  "recover app =
     perform (wrap Redirector_error (pr_stop (app_redirector app))) (\<lambda>_.
     perform (sleep 100) (\<lambda>_.
     wrap Hotspot_error (hc_stop (app_hotspot app))))"

fun show_status :: "hotspot_status \<Rightarrow> str" where
  "show_status Stopped = lit ''Stopped''"
| "show_status Running = lit ''Running''"
| "show_status Unknown = lit ''Unknown''"

definition status :: "'w h_proxy_app \<Rightarrow> ('w host, unit, app_error) io" where
  "status app =
     perform (wrap Hotspot_error (hc_status (app_hotspot app))) (\<lambda>status.
     perform (println (lit ''hotspot: '' @ show_status status)) (\<lambda>_.
     perform (wrap Hotspot_error (hc_access_point (app_hotspot app))) (\<lambda>access_point.
     perform (case access_point of
         Some ap \<Rightarrow> println (lit ''hotspot SSID: '' @ ap_ssid ap) | None \<Rightarrow> give ()) (\<lambda>_.
     println (lit ''datapath: unknown from status; inspect the running hproxy up console'')))))"

subsection \<open>Starting\<close>

record locals =
  listener_tasks :: "task list"
  hotspot_started :: bool
  redirector_started :: bool

definition no_locals :: locals where
  "no_locals = \<lparr>listener_tasks = [], hotspot_started = False, redirector_started = False\<rparr>"

type_synonym ('w, 'a) startup_io = "('w host \<times> locals, 'a, app_error) io"

definition on_host :: "('w host, 'a, app_error) io \<Rightarrow> ('w, 'a) startup_io" where
  "on_host m = (\<lambda>(h, l). case m h of (r, h') \<Rightarrow> (r, h', l))"

definition set_local :: "(locals \<Rightarrow> locals) \<Rightarrow> ('w, unit) startup_io" where
  "set_local f = (\<lambda>(h, l). (Ok (), h, f l))"

definition spawn_listener :: "task \<Rightarrow> ('w, unit) startup_io" where
  "spawn_listener t =
     (\<lambda>(h, l). (Ok (), h\<lparr>tasks := tasks h @ [t], actions := actions h @ [Spawned t]\<rparr>,
        l\<lparr>listener_tasks := listener_tasks l @ [t]\<rparr>))"

definition gateway_mode :: "app_config \<Rightarrow> bool" where
  "gateway_mode config \<longleftrightarrow> dns_mode_of (cfg_dns config) = Gateway"

definition banner :: "app_config \<Rightarrow> hotspot_runtime \<Rightarrow> str list" where
  "banner config hotspot =
     [lit ''hotspot SSID: '' @ hs_ssid (cfg_hotspot config),
      lit ''hotspot gateway: '' @ show_ip (rt_gateway_ip hotspot),
      lit ''hotspot subnet: '' @ show_ipv4 (cidr_address (rt_subnet hotspot)) @ lit ''/'' @
        show_nat (unat (cidr_prefix_len (rt_subnet hotspot))),
      lit ''hotspot interface index: '' @ show_nat (unat (rt_interface_index hotspot)),
      lit ''local transparent TCP port: '' @ show_nat (unat (transparent_tcp (cfg_ports config))),
      lit ''local DNS proxy port: '' @ show_nat (unat (dns_proxy (cfg_ports config)))] @
     (if gateway_mode config
      then
        [lit ''DNS gateway mode: A records answer '' @ show_ip (rt_gateway_ip hotspot),
         lit ''gateway HTTP proxy port: 80'', lit ''gateway HTTPS proxy port: 443'']
      else []) @
     [lit ''hproxy is running; press Ctrl+C to stop hotspot and datapath'']"

definition startup :: "'w outside \<Rightarrow> 'w h_proxy_app \<Rightarrow> app_config \<Rightarrow> ('w, unit) startup_io" where
  "startup out app config =
     (let ports = cfg_ports config; gateway = gateway_mode config in
      perform (on_host (transparent_bind out (transparent_tcp ports))) (\<lambda>_.
      perform (if gateway then on_host (gateway_bind out (lit ''bind gateway HTTP proxy'') 80) else give ()) (\<lambda>_.
      perform (if gateway then on_host (gateway_bind out (lit ''bind gateway HTTPS proxy'') 443) else give ()) (\<lambda>_.
      perform (on_host (wrap Preflight_refused
        (pr_preflight (app_redirector app) \<lparr>rpc_dns_proxy_port = dns_proxy ports\<rparr>))) (\<lambda>_.
      perform (on_host (wrap Hotspot_not_started (hc_start (app_hotspot app) (cfg_hotspot config)))) (\<lambda>_.
      perform (set_local (hotspot_started_update (\<lambda>_. True))) (\<lambda>_.
      perform (on_host (wrap Not_discovered (app_discover_hotspot app))) (\<lambda>hotspot.
      let gateway_ip = (case rt_gateway_ip hotspot of V4 ip \<Rightarrow> Some ip | V6 _ \<Rightarrow> None) in
      perform (if gateway \<and> gateway_ip = None then fail Gateway_needs_ipv4 else give ()) (\<lambda>_.
      perform (on_host (dns_bind out (dns_proxy ports))) (\<lambda>_.
      perform (spawn_listener (Transparent_task (transparent_tcp ports))) (\<lambda>_.
      perform (spawn_listener (Dns_task (dns_proxy ports))) (\<lambda>_.
      perform (if gateway then spawn_listener (Gateway_task 80) else give ()) (\<lambda>_.
      perform (if gateway then spawn_listener (Gateway_task 443) else give ()) (\<lambda>_.
      perform (on_host (wrap Redirector_not_started
        (pr_start (app_redirector app)
          \<lparr>rc_hotspot = hotspot, rc_ports = ports, rc_policy = cfg_policy config\<rparr>))) (\<lambda>_.
      perform (set_local (redirector_started_update (\<lambda>_. True))) (\<lambda>_.
      on_host (for_each println (banner config hotspot))))))))))))))))))"

definition rollback_startup :: "'w h_proxy_app \<Rightarrow> locals \<Rightarrow> ('w host, unit, app_error) io" where
  "rollback_startup app l =
     perform (abort_listener_tasks (listener_tasks l)) (\<lambda>_.
     caught (if redirector_started l then pr_stop (app_redirector app) else give ()) (\<lambda>_.
     caught (if hotspot_started l then hc_stop (app_hotspot app) else give ()) (\<lambda>_.
     give ())))"

definition run_until_ctrl_c ::
  "'w outside \<Rightarrow> 'w h_proxy_app \<Rightarrow> app_config \<Rightarrow> ('w host, unit, app_error) io" where
  "run_until_ctrl_c out app config h =
     (case startup out app config (h, no_locals) of
        (r, h', l) \<Rightarrow>
          (case r of
             Err e \<Rightarrow> perform (rollback_startup app l) (\<lambda>_. fail e) (drop_unused h')
           | Panic \<Rightarrow> (Panic, drop_unused h')
           | Ok _ \<Rightarrow>
               perform (ctrl_c out) (\<lambda>_.
               perform (abort_listener_tasks (listener_tasks l)) (\<lambda>_.
               down app)) (drop_unused h')))"

definition up :: "'w outside \<Rightarrow> 'w h_proxy_app \<Rightarrow> app_config \<Rightarrow> ('w host, unit, app_error) io" where
  "up out app config =
     perform (wrap Invalid_config (from_res (validate_app config))) (\<lambda>_.
     perform (wrap No_connector (from_res (connector_from_config (cfg_outbound_proxy config)))) (\<lambda>connector.
     perform (wrap Outbound_failed (probe_outbound_if_enabled out connector (cfg_proxy_preflight config))) (\<lambda>_.
     run_until_ctrl_c out app config)))"

subsection \<open>What the commands rely on\<close>

definition not_hotspot :: "action \<Rightarrow> bool" where
  "not_hotspot a \<longleftrightarrow> \<not> hotspot_action a"

locale application =
  fixes app :: "'w h_proxy_app"
    and idle active :: "nat list \<Rightarrow> 'w host \<Rightarrow> bool"
  assumes redirector:
      "packet_redirector (pr_preflight (app_redirector app)) (pr_start (app_redirector app))
         (pr_stop (app_redirector app)) idle active"
    and start_acts: "keeps (only_acts hotspot_action) (hc_start (app_hotspot app) config)"
    and stop_acts: "keeps (only_acts hotspot_action) (hc_stop (app_hotspot app))"
    and status_acts: "keeps (only_acts hotspot_action) (hc_status (app_hotspot app))"
    and access_point_acts: "keeps (only_acts hotspot_action) (hc_access_point (app_hotspot app))"
    and discover_acts: "keeps (only_acts hotspot_action) (app_discover_hotspot app)"
    and hotspot_returns:
      "never_panics (hc_start (app_hotspot app) config)" "never_panics (hc_stop (app_hotspot app))"
      "never_panics (hc_status (app_hotspot app))" "never_panics (hc_access_point (app_hotspot app))"
      "never_panics (app_discover_hotspot app)"

sublocale application \<subseteq> red: packet_redirector
  "pr_preflight (app_redirector app)" "pr_start (app_redirector app)" "pr_stop (app_redirector app)"
  idle active
  by (rule redirector)

lemma only_acts_untouched: "only_acts A h h' \<Longrightarrow> untouched_capture h h'"
  by (simp add: only_acts_def untouched_capture_def)

text \<open>What has happened before the hotspot is touched, and the errors that end \<open>up\<close> there.\<close>

definition hotspot_untouched :: "'w host \<Rightarrow> 'w host \<Rightarrow> bool" where
  "hotspot_untouched h h' \<longleftrightarrow> (\<exists>new. actions h' = actions h @ new \<and> list_all not_hotspot new)"

lemma hotspot_untouched_refl [simp]: "hotspot_untouched h h"
  by (simp add: hotspot_untouched_def)

lemma hotspot_untouched_trans: "hotspot_untouched h h' \<Longrightarrow> hotspot_untouched h' h'' \<Longrightarrow> hotspot_untouched h h''"
  by (auto simp: hotspot_untouched_def)

lemma hotspot_untouched_step: "actions h' = actions h @ [a] \<Longrightarrow> not_hotspot a \<Longrightarrow> hotspot_untouched h h'"
  by (simp add: hotspot_untouched_def)

lemma not_hotspot_actions [simp]:
  "not_hotspot (Bound s)" "not_hotspot (Spawned t)" "not_hotspot (Aborted t)" "not_hotspot (Dialed d)"
  "not_hotspot (Printed x)"
  by (simp_all add: not_hotspot_def hotspot_action_def)

lemma capture_not_hotspot: "capture_action a \<Longrightarrow> not_hotspot a"
  by (auto simp: capture_action_def not_hotspot_def hotspot_action_def split: action.splits)

lemma capture_frame_untouched: "capture_frame h h' \<Longrightarrow> hotspot_untouched h h'"
  unfolding capture_frame_def hotspot_untouched_def by (metis capture_not_hotspot list.pred_mono_strong)

fun before_hotspot :: "app_error \<Rightarrow> bool" where
  "before_hotspot (Invalid_config e) = True"
| "before_hotspot (No_connector e) = True"
| "before_hotspot (Outbound_failed e) = True"
| "before_hotspot (Not_bound what (Tcp_socket p)) = True"
| "before_hotspot (Preflight_refused e) = True"
| "before_hotspot e = False"

fun hotspot_was_on :: "app_error \<Rightarrow> bool" where
  "hotspot_was_on (Not_discovered e) = True"
| "hotspot_was_on Gateway_needs_ipv4 = True"
| "hotspot_was_on (Not_bound what (Udp_socket p)) = True"
| "hotspot_was_on (Redirector_not_started e) = True"
| "hotspot_was_on e = False"

text \<open>The listeners of a configuration, in the order they are spawned.\<close>

definition listeners :: "app_config \<Rightarrow> task list" where
  "listeners config =
     [Transparent_task (transparent_tcp (cfg_ports config)), Dns_task (dns_proxy (cfg_ports config))] @
     (if gateway_mode config then [Gateway_task 80, Gateway_task 443] else [])"

text \<open>
  The state during the startup block: with its local variables, before the hotspot is started,
  after that, and with some listeners running.
\<close>

definition preparing :: "(nat list \<Rightarrow> 'w host \<Rightarrow> bool) \<Rightarrow> nat list \<Rightarrow> 'w host \<Rightarrow> 'w host \<times> locals \<Rightarrow> bool" where
  "preparing idle B h0 = (\<lambda>(h, l). idle B h \<and> tasks h = [] \<and> l = no_locals \<and> hotspot_untouched h0 h)"

text \<open>The hotspot has been started and discovered, and nothing was done to it since.\<close>

definition switched_on :: "'w h_proxy_app \<Rightarrow> app_config \<Rightarrow> 'w host \<Rightarrow> bool" where
  "switched_on app config h \<longleftrightarrow> (\<exists>h1. hc_start (app_hotspot app) (cfg_hotspot config) h1 = (Ok (), h))"

definition hotspot_left_on :: "'w h_proxy_app \<Rightarrow> app_config \<Rightarrow> 'w host \<Rightarrow> bool" where
  "hotspot_left_on app config h \<longleftrightarrow>
     (\<exists>h1 h2 runtime. switched_on app config h1 \<and> app_discover_hotspot app h1 = (Ok runtime, h2) \<and>
        hotspot_untouched h2 h)"

lemma hotspot_left_on_later:
  "hotspot_left_on app config h \<Longrightarrow> hotspot_untouched h h' \<Longrightarrow> hotspot_left_on app config h'"
  unfolding hotspot_left_on_def using hotspot_untouched_trans by blast

definition launching ::
  "(nat list \<Rightarrow> 'w host \<Rightarrow> bool) \<Rightarrow> ('w host \<Rightarrow> bool) \<Rightarrow> nat list \<Rightarrow> task list \<Rightarrow> 'w host \<times> locals \<Rightarrow> bool" where
  "launching idle on B ts =
     (\<lambda>(h, l). idle B h \<and> on h \<and> tasks h = ts \<and>
        l = \<lparr>listener_tasks = ts, hotspot_started = True, redirector_started = False\<rparr>)"

definition serving ::
  "(nat list \<Rightarrow> 'w host \<Rightarrow> bool) \<Rightarrow> ('w host \<Rightarrow> bool) \<Rightarrow> nat list \<Rightarrow> task list \<Rightarrow> 'w host \<times> locals \<Rightarrow> bool" where
  "serving active on B ts =
     (\<lambda>(h, l). active B h \<and> on h \<and> tasks h = ts \<and>
        l = \<lparr>listener_tasks = ts, hotspot_started = True, redirector_started = True\<rparr>)"

text \<open>The state in which a failing step leaves the block.\<close>

definition failed_startup ::
  "(nat list \<Rightarrow> 'w host \<Rightarrow> bool) \<Rightarrow> nat list \<Rightarrow> 'w h_proxy_app \<Rightarrow> app_config \<Rightarrow> 'w host \<Rightarrow> app_error \<Rightarrow>
     'w host \<times> locals \<Rightarrow> bool" where
  "failed_startup idle B app config h0 e =
     (\<lambda>(h, l). idle B h \<and> tasks h = listener_tasks l \<and> \<not> redirector_started l \<and>
        (hotspot_started l \<longleftrightarrow> hotspot_was_on e) \<and> (before_hotspot e \<longrightarrow> hotspot_untouched h0 h) \<and>
        (before_hotspot e \<or> hotspot_was_on e \<or>
          (\<exists>x h1. e = Hotspot_not_started x \<and> l = no_locals \<and>
             hc_start (app_hotspot app) (cfg_hotspot config) h1 = (Err x, h))))"

lemma bind_cases:
  obtains (bound) h' where "bind_socket out what s h = (Ok (), h')" and "untouched_capture h h'"
      and "tasks h' = tasks h" and "hotspot_untouched h h'"
  | (refused) h' where "bind_socket out what s h = (Err (Not_bound what s), h')" and "untouched_capture h h'"
      and "tasks h' = tasks h" and "hotspot_untouched h h'"
proof -
  obtain b t w where o: "out_bind out s (world h) = (b, t, w)" by (metis prod.exhaust)
  let ?h = "h\<lparr>clock := clock h + t, world := w\<rparr>"
  show thesis
  proof (cases "\<not> b \<or> s \<in> set (sockets h)")
    case True
    with o show thesis
      by (intro refused [of ?h]) (auto simp: bind_socket_def perform_def call_def untouched_capture_def hotspot_untouched_def)
  next
    case False
    with o show thesis
      by (intro bound [of "?h\<lparr>sockets := sockets h @ [s], actions := actions h @ [Bound s]\<rparr>"])
        (auto simp: bind_socket_def perform_def call_def untouched_capture_def hotspot_untouched_def)
  qed
qed

text \<open>The host after everything has been stopped, and the outcome of every branch of \<open>up\<close>.\<close>

definition settled :: "(nat list \<Rightarrow> 'w host \<Rightarrow> bool) \<Rightarrow> nat list \<Rightarrow> 'w host \<Rightarrow> bool" where
  "settled idle B h \<longleftrightarrow> idle B h \<and> tasks h = [] \<and> sockets h = []"

definition listening :: "(nat list \<Rightarrow> 'w host \<Rightarrow> bool) \<Rightarrow> nat list \<Rightarrow> task list \<Rightarrow> 'w host \<Rightarrow> bool" where
  "listening state B ts h \<longleftrightarrow> state B h \<and> tasks h = ts \<and> sockets h = map socket_of ts"

definition up_outcome ::
  "(nat list \<Rightarrow> 'w host \<Rightarrow> bool) \<Rightarrow> (nat list \<Rightarrow> 'w host \<Rightarrow> bool) \<Rightarrow> nat list \<Rightarrow> 'w h_proxy_app \<Rightarrow>
     app_config \<Rightarrow> 'w host \<Rightarrow> (unit, app_error) res \<Rightarrow> 'w host \<Rightarrow> bool" where
  "up_outcome idle active B app config h0 r h \<longleftrightarrow>
     (case r of
        Panic \<Rightarrow> False
      | Ok _ \<Rightarrow> settled idle B h \<and> (\<exists>h1. listening active B [] h1 \<and> down app h1 = (r, h))
      | Err e \<Rightarrow>
          if e = Ctrl_c_failed then listening active B (listeners config) h \<and> hotspot_left_on app config h
          else
            settled idle B h \<and>
            (before_hotspot e \<longrightarrow> hotspot_untouched h0 h) \<and>
            (hotspot_was_on e \<longrightarrow> (\<exists>h1 r1. hc_stop (app_hotspot app) h1 = (r1, h))) \<and>
            (\<forall>x. e = Hotspot_not_started x \<longrightarrow>
               (\<exists>h1 h2. hc_start (app_hotspot app) (cfg_hotspot config) h1 = (Err x, h2) \<and>
                  world h = world h2 \<and> actions h = actions h2)) \<and>
            (before_hotspot e \<or> hotspot_was_on e \<or> (\<exists>x. e = Hotspot_not_started x) \<or>
               (\<exists>h1. listening active B [] h1 \<and> down app h1 = (Err e, h))))"

lemma abort_all:
  assumes "tasks h = ts" and "sockets h = map socket_of ts"
  shows "abort_listener_tasks ts h = (Ok (), h\<lparr>tasks := [], sockets := [], actions := actions h @ map Aborted ts\<rparr>)"
  using assms unfolding abort_listener_tasks_def
  by (induction ts arbitrary: h) (simp_all add: give_def perform_def abort_task_def)

lemma validate_no_panic:
  "validate_hotspot c \<noteq> Panic" "validate_preflight p \<noteq> Panic" "validate_dns d \<noteq> Panic"
  "validate_ports l \<noteq> Panic" "validate_endpoint e \<noteq> Panic"
  by (simp_all add: validate_hotspot_def validate_preflight_def validate_dns_def validate_ports_def
      validate_endpoint_def Let_def)

lemma ok_or_no_panic: "ok_or x e \<noteq> Panic"
  by (cases x) simp_all

lemma validate_proxy_no_panic: "validate_proxy c \<noteq> Panic"
  by (cases "px_kind c") (simp_all add: validate_proxy_def attempt_eq_Panic ok_or_no_panic validate_no_panic Let_def)

lemma validate_app_no_panic: "validate_app config \<noteq> Panic"
  by (simp add: validate_app_def attempt_eq_Panic validate_no_panic validate_proxy_no_panic)

lemma connector_no_panic: "connector_from_config config \<noteq> Panic"
proof -
  have "ok_or x e \<noteq> (Panic :: ('x, connect_error) res)" for x e by (cases x) simp_all
  then show ?thesis
    by (auto simp: connector_from_config_def socks5_new_def http_connect_new_def attempt_eq_Panic
        split: proxy_kind.split)
qed

text \<open>Connecting returns an error instead of panicking.\<close>

definition net_returns :: "'w outside \<Rightarrow> bool" where
  "net_returns out \<longleftrightarrow>
     (\<forall>w. (\<forall>h p. tcp_connect (out_net out w) h p \<noteq> Panic) \<and> (\<forall>b h c. tls_connect (out_net out w) b h c \<noteq> Panic))"

lemma probe_keeps: "keeps (only_acts not_hotspot) (probe_outbound_if_enabled out k config)"
proof -
  have "keeps (only_acts not_hotspot) (\<lambda>h. case out_connect_time out k d (world h) of
        (elapsed, w) \<Rightarrow>
              if unat t < elapsed
              then (Err (Probe_timed_out target), h\<lparr>clock := clock h + unat t, world := w\<rparr>)
              else
                (map_err (Probe_connect_failed target)
                   (attempt (connect (out_net out (world h)) k d) (\<lambda>_. Ok ())),
                 h\<lparr>clock := clock h + elapsed, world := w\<rparr>))" for d t target
    by (auto simp: keeps_def only_acts_def split: prod.split)
  then show ?thesis
    unfolding probe_outbound_if_enabled_def probe_outbound_connector_def Let_def
    by (intro keeps_acts) simp_all
qed

lemma probe_returns: "net_returns out \<Longrightarrow> never_panics (probe_outbound_if_enabled out k config)"
  unfolding probe_outbound_if_enabled_def probe_outbound_connector_def Let_def
proof (intro panics_never)
  fix u d t target
  assume "net_returns out"
  then have "connect (out_net out w) k d \<noteq> Panic" for w
    by (intro connect_no_panic) (simp_all add: net_returns_def)
  then have "map_err f (attempt (connect (out_net out w) k d) (\<lambda>_. Ok ())) \<noteq> Panic"
    for w and f :: "connect_error \<Rightarrow> outbound_error"
    by (cases "connect (out_net out w) k d") auto
  then show "never_panics (\<lambda>h. case out_connect_time out k d (world h) of
        (elapsed, w) \<Rightarrow>
              if unat t < elapsed
              then (Err (Probe_timed_out target), h\<lparr>clock := clock h + unat t, world := w\<rparr>)
              else
                (map_err (Probe_connect_failed target)
                   (attempt (connect (out_net out (world h)) k d) (\<lambda>_. Ok ())),
                 h\<lparr>clock := clock h + elapsed, world := w\<rparr>))"
    by (auto simp: never_panics_def split: prod.split)
qed

context application
begin

lemma bind_preparing:
  "holds (preparing idle B h0) (on_host (bind_socket out what (Tcp_socket p))) (\<lambda>_. preparing idle B h0) (failed_startup idle B app config h0)"
proof (rule holdsI)
  fix s assume "preparing idle B h0 s"
  then obtain h l where s: "s = (h, l)" and p: "idle B h" "tasks h = []" "l = no_locals" "hotspot_untouched h0 h"
    by (auto simp: preparing_def)
  then show "(\<exists>a s'. on_host (bind_socket out what (Tcp_socket p)) s = (Ok a, s') \<and> preparing idle B h0 s') \<or>
      (\<exists>e s'. on_host (bind_socket out what (Tcp_socket p)) s = (Err e, s') \<and> failed_startup idle B app config h0 e s')"
    by (cases out what "Tcp_socket p" h rule: bind_cases)
      (auto simp: on_host_def preparing_def failed_startup_def no_locals_def intro: red.idle_local hotspot_untouched_trans)
qed

lemma bind_launching:
  "holds (launching idle (hotspot_left_on app config) B ts) (on_host (bind_socket out what (Udp_socket p))) (\<lambda>_. launching idle (hotspot_left_on app config) B ts) (failed_startup idle B app config h0)"
proof (rule holdsI)
  fix s assume "launching idle (hotspot_left_on app config) B ts s"
  then obtain h l where s: "s = (h, l)" and p: "idle B h" "tasks h = ts" "hotspot_left_on app config h"
    "l = \<lparr>listener_tasks = ts, hotspot_started = True, redirector_started = False\<rparr>"
    by (auto simp: launching_def)
  then show "(\<exists>a s'. on_host (bind_socket out what (Udp_socket p)) s = (Ok a, s') \<and> launching idle (hotspot_left_on app config) B ts s') \<or>
      (\<exists>e s'. on_host (bind_socket out what (Udp_socket p)) s = (Err e, s') \<and> failed_startup idle B app config h0 e s')"
    by (cases out what "Udp_socket p" h rule: bind_cases)
      (auto simp: on_host_def launching_def failed_startup_def intro: red.idle_local hotspot_left_on_later)
qed

lemma preflight_preparing:
  "holds (preparing idle B h0) (on_host (wrap Preflight_refused (pr_preflight (app_redirector app) c)))
     (\<lambda>_. preparing idle B h0) (failed_startup idle B app config h0)"
proof (rule holdsI)
  fix s assume "preparing idle B h0 s"
  then obtain h where s: "s = (h, no_locals)" and p: "idle B h" "tasks h = []" "hotspot_untouched h0 h"
    by (auto simp: preparing_def)
  obtain r h' where m: "pr_preflight (app_redirector app) c h = (r, h')" by fastforce
  have r: "r \<noteq> Panic" "idle B h'" using red.preflight_idle [OF p(1), of c] m by simp_all
  have f: "capture_frame h h'" using red.preflight_frame m by (rule keepsD)
  then have "tasks h' = []" using p by (simp add: capture_frame_def)
  moreover have "hotspot_untouched h0 h'"
    using p(3) capture_frame_untouched [OF f] by (rule hotspot_untouched_trans)
  ultimately show "(\<exists>a s'. on_host (wrap Preflight_refused (pr_preflight (app_redirector app) c)) s = (Ok a, s') \<and> preparing idle B h0 s') \<or>
      (\<exists>e s'. on_host (wrap Preflight_refused (pr_preflight (app_redirector app) c)) s = (Err e, s') \<and> failed_startup idle B app config h0 e s')"
    using r m s by (cases r) (auto simp: on_host_def wrap_def preparing_def failed_startup_def no_locals_def)
qed

lemma hotspot_step:
  assumes "never_panics m" and "keeps (only_acts A) m"
    and "\<And>h h' l a. P (h, l) \<Longrightarrow> only_acts A h h' \<Longrightarrow> Q a (h', l)"
    and "\<And>h h' l e. P (h, l) \<Longrightarrow> only_acts A h h' \<Longrightarrow> E (c e) (h', l)"
  shows "holds P (on_host (wrap c m)) Q E"
proof (rule holdsI)
  fix s assume P: "P s"
  obtain h l where s: "s = (h, l)" by fastforce
  obtain r h' where m: "m h = (r, h')" by fastforce
  have "only_acts A h h'" using assms(2) m by (rule keepsD)
  moreover have "r \<noteq> Panic" using assms(1) m unfolding never_panics_def by (metis fst_conv)
  ultimately show "(\<exists>a s'. on_host (wrap c m) s = (Ok a, s') \<and> Q a s') \<or> (\<exists>e s'. on_host (wrap c m) s = (Err e, s') \<and> E e s')"
    using P s m assms(3,4) [of h l h'] by (cases r) (auto simp: on_host_def wrap_def)
qed

lemma start_preparing:
  "holds (preparing idle B h0)
     (on_host (wrap Hotspot_not_started (hc_start (app_hotspot app) (cfg_hotspot config))))
     (\<lambda>_ (h, l). idle B h \<and> switched_on app config h \<and> tasks h = [] \<and> l = no_locals) (failed_startup idle B app config h0)"
proof (rule holdsI)
  fix s assume "preparing idle B h0 s"
  then obtain h where s: "s = (h, no_locals)" and p: "idle B h" "tasks h = []"
    by (auto simp: preparing_def)
  let ?m = "hc_start (app_hotspot app) (cfg_hotspot config)"
  obtain r h' where m: "?m h = (r, h')" by fastforce
  have "r \<noteq> Panic"
    using hotspot_returns(1) m unfolding never_panics_def by (metis fst_conv)
  moreover have a: "only_acts hotspot_action h h'" using start_acts m by (rule keepsD)
  ultimately show "(\<exists>a s'. on_host (wrap Hotspot_not_started ?m) s = (Ok a, s') \<and>
        (case s' of (h, l) \<Rightarrow> idle B h \<and> switched_on app config h \<and> tasks h = [] \<and> l = no_locals)) \<or>
      (\<exists>e s'. on_host (wrap Hotspot_not_started ?m) s = (Err e, s') \<and> failed_startup idle B app config h0 e s')"
    using s p m red.idle_local [OF only_acts_untouched [OF a] p(1)]
    by (cases r) (auto simp: on_host_def wrap_def failed_startup_def no_locals_def only_acts_def switched_on_def)
qed

lemma discover_launching:
  "holds (launching idle (switched_on app config) B ts) (on_host (wrap Not_discovered (app_discover_hotspot app)))
     (\<lambda>_. launching idle (hotspot_left_on app config) B ts) (failed_startup idle B app config h0)"
proof (rule holdsI)
  fix s assume "launching idle (switched_on app config) B ts s"
  then obtain h l where s: "s = (h, l)" and p: "idle B h" "switched_on app config h" "tasks h = ts"
    "l = \<lparr>listener_tasks = ts, hotspot_started = True, redirector_started = False\<rparr>"
    by (auto simp: launching_def)
  let ?m = "app_discover_hotspot app"
  obtain r h' where m: "?m h = (r, h')" by fastforce
  have "r \<noteq> Panic"
    using hotspot_returns(5) m unfolding never_panics_def by (metis fst_conv)
  moreover have a: "only_acts hotspot_action h h'" using discover_acts m by (rule keepsD)
  moreover have "hotspot_left_on app config h'" if "r = Ok runtime" for runtime
    using p(2) m that hotspot_untouched_refl unfolding hotspot_left_on_def by blast
  ultimately show "(\<exists>a s'. on_host (wrap Not_discovered ?m) s = (Ok a, s') \<and>
        launching idle (hotspot_left_on app config) B ts s') \<or>
      (\<exists>e s'. on_host (wrap Not_discovered ?m) s = (Err e, s') \<and> failed_startup idle B app config h0 e s')"
    using s p m red.idle_local [OF only_acts_untouched [OF a] p(1)]
    by (cases r) (auto simp: on_host_def wrap_def launching_def failed_startup_def only_acts_def)
qed

lemma spawn_launching:
  "holds (launching idle (hotspot_left_on app config) B ts) (spawn_listener t) (\<lambda>_. launching idle (hotspot_left_on app config) B (ts @ [t])) E"
proof (rule holdsI)
  fix s assume "launching idle (hotspot_left_on app config) B ts s"
  then obtain h l where s: "s = (h, l)" and p: "idle B h" "hotspot_left_on app config h" "tasks h = ts"
    "l = \<lparr>listener_tasks = ts, hotspot_started = True, redirector_started = False\<rparr>"
    by (auto simp: launching_def)
  have "idle B (h\<lparr>tasks := tasks h @ [t], actions := actions h @ [Spawned t]\<rparr>)"
    using p(1) by (rule red.idle_local [rotated]) (simp add: untouched_capture_def)
  moreover have "hotspot_left_on app config (h\<lparr>tasks := tasks h @ [t], actions := actions h @ [Spawned t]\<rparr>)"
    using p(2) by (rule hotspot_left_on_later) (simp add: hotspot_untouched_def)
  ultimately show "(\<exists>a s'. spawn_listener t s = (Ok a, s') \<and> launching idle (hotspot_left_on app config) B (ts @ [t]) s') \<or>
      (\<exists>e s'. spawn_listener t s = (Err e, s') \<and> E e s')"
    using s p by (simp add: launching_def spawn_listener_def)
qed

lemma spawn_if:
  "holds (launching idle (hotspot_left_on app config) B ts) (if b then spawn_listener t else give ())
     (\<lambda>_. launching idle (hotspot_left_on app config) B (ts @ (if b then [t] else []))) E"
  by (cases b) (simp_all add: spawn_launching holds_give)

lemma bind_if:
  "holds (preparing idle B h0) (if b then on_host (bind_socket out what (Tcp_socket p)) else give ())
     (\<lambda>_. preparing idle B h0) (failed_startup idle B app config h0)"
  by (cases b) (simp_all add: bind_preparing holds_give)

lemma redirector_launching:
  "holds (launching idle (hotspot_left_on app config) B ts) (on_host (wrap Redirector_not_started (pr_start (app_redirector app) c)))
     (\<lambda>_ (h, l). active B h \<and> hotspot_left_on app config h \<and> tasks h = ts \<and>
        l = \<lparr>listener_tasks = ts, hotspot_started = True, redirector_started = False\<rparr>)
     (failed_startup idle B app config h0)"
proof (rule holdsI)
  fix s assume "launching idle (hotspot_left_on app config) B ts s"
  then obtain h l where s: "s = (h, l)" and p: "idle B h" "hotspot_left_on app config h" "tasks h = ts"
    "l = \<lparr>listener_tasks = ts, hotspot_started = True, redirector_started = False\<rparr>"
    by (auto simp: launching_def)
  obtain r h' where m: "pr_start (app_redirector app) c h = (r, h')" by fastforce
  have f: "capture_frame h h'" using red.start_frame m by (rule keepsD)
  then have t: "tasks h' = ts" "hotspot_left_on app config h'"
    using p hotspot_left_on_later [OF p(2) capture_frame_untouched [OF f]] by (simp_all add: capture_frame_def)
  show "(\<exists>a s'. on_host (wrap Redirector_not_started (pr_start (app_redirector app) c)) s = (Ok a, s') \<and>
        (case s' of (h, l) \<Rightarrow> active B h \<and> hotspot_left_on app config h \<and> tasks h = ts \<and>
          l = \<lparr>listener_tasks = ts, hotspot_started = True, redirector_started = False\<rparr>)) \<or>
      (\<exists>e s'. on_host (wrap Redirector_not_started (pr_start (app_redirector app) c)) s = (Err e, s') \<and>
        failed_startup idle B app config h0 e s')"
    using red.start_idle [OF p(1), of c] m t p s
    by (cases r) (auto simp: on_host_def wrap_def failed_startup_def)
qed

lemma println_serving:
  "holds (serving active (hotspot_left_on app config) B ts) (on_host (for_each println xs)) (\<lambda>_. serving active (hotspot_left_on app config) B ts) E"
proof -
  have run: "serving active (hotspot_left_on app config) B ts (h, l) \<Longrightarrow>
      \<exists>h'. (for_each println xs :: ('w host, unit, app_error) io) h = (Ok (), h') \<and> serving active (hotspot_left_on app config) B ts (h', l)"
    for h :: "'w host" and l
  proof (induction xs arbitrary: h)
    case (Cons x xs)
    have "untouched_capture h (h\<lparr>actions := actions h @ [Printed x]\<rparr>)" by (simp add: untouched_capture_def)
    moreover have "hotspot_untouched h (h\<lparr>actions := actions h @ [Printed x]\<rparr>)" by (simp add: hotspot_untouched_def)
    ultimately have "serving active (hotspot_left_on app config) B ts (h\<lparr>actions := actions h @ [Printed x]\<rparr>, l)"
      using Cons.prems by (auto simp: serving_def intro: red.active_local hotspot_left_on_later)
    from Cons.IH [OF this] show ?case by (simp add: perform_def println_def emit_def)
  qed (simp add: give_def)
  show ?thesis
  proof (rule holdsI)
    fix s assume "serving active (hotspot_left_on app config) B ts s"
    moreover obtain h l where "s = (h, l)" by fastforce
    ultimately obtain h' where "(for_each println xs :: ('w host, unit, app_error) io) h = (Ok (), h')"
      "serving active (hotspot_left_on app config) B ts (h', l)"
      using run by blast
    with \<open>s = (h, l)\<close> show "(\<exists>a s'. on_host (for_each println xs) s = (Ok a, s') \<and> serving active (hotspot_left_on app config) B ts s') \<or>
        (\<exists>e s'. on_host (for_each println xs) s = (Err e, s') \<and> E e s')"
      by (simp add: on_host_def)
  qed
qed

text \<open>The startup block: everything runs and captures, or a failed step is recorded as such.\<close>

lemma startup_states:
  "holds (preparing idle B h0) (startup out app config) (\<lambda>_. serving active (hotspot_left_on app config) B (listeners config))
     (failed_startup idle B app config h0)"
proof -
  have started: "holds (\<lambda>(h, l). idle B h \<and> switched_on app config h \<and> tasks h = [] \<and> l = no_locals)
      (set_local (hotspot_started_update (\<lambda>_. True))) (\<lambda>_. launching idle (switched_on app config) B []) E" for E
    by (rule holdsI) (force simp: set_local_def launching_def no_locals_def)
  have captured: "holds (\<lambda>(h, l). active B h \<and> hotspot_left_on app config h \<and> tasks h = ts \<and>
        l = \<lparr>listener_tasks = ts, hotspot_started = True, redirector_started = False\<rparr>)
      (set_local (redirector_started_update (\<lambda>_. True))) (\<lambda>_. serving active (hotspot_left_on app config) B ts) E" for ts E
    by (rule holdsI) (force simp: set_local_def serving_def)
  have ipv4: "holds (launching idle (hotspot_left_on app config) B []) (if b then fail Gateway_needs_ipv4 else give ())
      (\<lambda>_. launching idle (hotspot_left_on app config) B []) (failed_startup idle B app config h0)" for b
    by (cases b) (auto intro!: holds_fail holds_give simp: launching_def failed_startup_def)
  let ?ts = "(([] @ [Transparent_task (transparent_tcp (cfg_ports config))]) @
      [Dns_task (dns_proxy (cfg_ports config))]) @ (if gateway_mode config then [Gateway_task 80] else [])"
  have ts: "listeners config = ?ts @ (if gateway_mode config then [Gateway_task 443] else [])"
    by (simp add: listeners_def)
  show ?thesis
    unfolding startup_def Let_def ts transparent_bind_def gateway_bind_def dns_bind_def
    by (rule holds_perform [OF bind_preparing] holds_perform [OF bind_if] holds_perform [OF preflight_preparing]
        holds_perform [OF start_preparing] holds_perform [OF started] holds_perform [OF discover_launching]
        holds_perform [OF ipv4] holds_perform [OF bind_launching] holds_perform [OF spawn_launching]
        holds_perform [OF spawn_if] holds_perform [OF redirector_launching] holds_perform [OF captured]
        println_serving)+
qed

text \<open>A stop of the hotspot at the end, whatever it returns.\<close>

lemma hotspot_stop_settles:
  assumes "settled idle B h" and "hc_stop (app_hotspot app) h = (r, h')"
  shows "settled idle B h'" and "r \<noteq> Panic"
proof -
  have a: "only_acts hotspot_action h h'" using stop_acts assms(2) by (rule keepsD)
  with assms(1) show "settled idle B h'"
    by (auto simp: settled_def only_acts_def intro: red.idle_local [OF only_acts_untouched [OF a]])
  show "r \<noteq> Panic"
    using hotspot_returns(2) assms(2) unfolding never_panics_def by (metis fst_conv)
qed

lemma rollback_run:
  assumes "idle B h" and "tasks h = listener_tasks l" and "sockets h = map socket_of (tasks h)"
    and "\<not> redirector_started l"
  shows "\<exists>h'. rollback_startup app l h = (Ok (), h') \<and> settled idle B h' \<and>
    (if hotspot_started l then \<exists>h1 r. hc_stop (app_hotspot app) h1 = (r, h') else hotspot_untouched h h')"
proof -
  let ?h = "h\<lparr>tasks := [], sockets := [], actions := actions h @ map Aborted (listener_tasks l)\<rparr>"
  have ab: "abort_listener_tasks (listener_tasks l) h = (Ok (), ?h)"
    using assms by (intro abort_all) simp_all
  have set: "settled idle B ?h"
    using red.idle_local [of h ?h B] assms(1) by (simp add: settled_def untouched_capture_def)
  have un: "hotspot_untouched h ?h" by (simp add: hotspot_untouched_def list_all_iff)
  show ?thesis
  proof (cases "hotspot_started l")
    case False
    with ab assms(4) have "rollback_startup app l h = (Ok (), ?h)"
      by (simp add: rollback_startup_def perform_def caught_def give_def)
    with set un False show ?thesis by auto
  next
    case True
    obtain r h' where st: "hc_stop (app_hotspot app) ?h = (r, h')" by fastforce
    with hotspot_stop_settles [OF set st] ab assms(4) True have "rollback_startup app l h = (Ok (), h')"
      by (cases r) (simp_all add: rollback_startup_def perform_def caught_def give_def)
    with hotspot_stop_settles [OF set st] st True show ?thesis by auto
  qed
qed

lemma down_run:
  assumes "listening active B [] h"
  shows "settled idle B (snd (down app h)) \<and> (\<forall>e. fst (down app h) = Err e \<longrightarrow> (\<exists>x. e = Hotspot_error x)) \<and>
    fst (down app h) \<noteq> Panic"
proof -
  obtain r h1 where s: "pr_stop (app_redirector app) h = (r, h1)" by fastforce
  have r: "r = Ok ()" "idle B h1" using red.stop_idle [of B h] assms s by (simp_all add: listening_def)
  have "capture_frame h h1" using red.stop_frame s by (rule keepsD)
  with assms r(2) have set: "settled idle B h1" by (simp add: settled_def listening_def capture_frame_def)
  obtain r' h' where t: "hc_stop (app_hotspot app) h1 = (r', h')" by fastforce
  with hotspot_stop_settles [OF set t] s r show ?thesis
    by (cases r') (auto simp: down_def perform_def wrap_def)
qed

lemma drop_unused_same [simp]:
  "untouched_capture h (drop_unused h)" "tasks (drop_unused h) = tasks h"
  "sockets (drop_unused h) = map socket_of (tasks h)" "hotspot_untouched h (drop_unused h)"
  by (simp_all add: drop_unused_def untouched_capture_def hotspot_untouched_def)

lemma failed_outcome:
  assumes "failed_startup idle B app config h0 e (h, l)"
  obtains h' where "perform (rollback_startup app l) (\<lambda>_. fail e :: ('w host, unit, app_error) io) (drop_unused h) = (Err e, h')"
    and "up_outcome idle active B app config h0 (Err e) h'"
proof -
  have f: "idle B h" "tasks h = listener_tasks l" "\<not> redirector_started l"
    "hotspot_started l \<longleftrightarrow> hotspot_was_on e" "before_hotspot e \<Longrightarrow> hotspot_untouched h0 h"
    and e: "before_hotspot e \<or> hotspot_was_on e \<or>
          (\<exists>x h1. e = Hotspot_not_started x \<and> l = no_locals \<and>
             hc_start (app_hotspot app) (cfg_hotspot config) h1 = (Err x, h))"
    using assms by (auto simp: failed_startup_def)
  have "idle B (drop_unused h)" using f(1) by (rule red.idle_local [rotated]) simp
  then obtain h' where h': "rollback_startup app l (drop_unused h) = (Ok (), h')" "settled idle B h'"
    "if hotspot_started l then \<exists>h1 r. hc_stop (app_hotspot app) h1 = (r, h') else hotspot_untouched (drop_unused h) h'"
    using rollback_run [of B "drop_unused h" l] f by auto
  have "before_hotspot e \<Longrightarrow> \<not> hotspot_was_on e" by (cases e rule: before_hotspot.cases) simp_all
  then have "before_hotspot e \<Longrightarrow> hotspot_untouched h0 h'"
    using f h'(3) hotspot_untouched_trans drop_unused_same(4) by metis
  moreover have "e \<noteq> Ctrl_c_failed" using e by auto
  moreover have "\<exists>h1 h2. hc_start (app_hotspot app) (cfg_hotspot config) h1 = (Err x, h2) \<and>
      world h' = world h2 \<and> actions h' = actions h2" if x: "e = Hotspot_not_started x" for x
  proof -
    from e x have l: "l = no_locals" and "\<exists>h1. hc_start (app_hotspot app) (cfg_hotspot config) h1 = (Err x, h)"
      by auto
    moreover have "h' = drop_unused h"
      using h'(1) unfolding l
      by (simp add: rollback_startup_def no_locals_def abort_listener_tasks_def caught_def give_def)
    ultimately show ?thesis by (auto simp: drop_unused_def)
  qed
  ultimately have "up_outcome idle active B app config h0 (Err e) h'"
    using h' f e by (auto simp: up_outcome_def)
  with h'(1) show thesis by (intro that) (simp_all add: perform_def fail_def)
qed

lemma ctrl_c_cases:
  obtains (came) h' where "ctrl_c out h = (Ok (), h')" and "only_acts not_hotspot h h'"
  | (broken) h' where "ctrl_c out h = (Err Ctrl_c_failed, h')" and "only_acts not_hotspot h h'"
proof -
  obtain b t w where o: "out_ctrl_c out (world h) = (b, t, w)" by (metis prod.exhaust)
  let ?h = "h\<lparr>clock := clock h + t, world := w\<rparr>"
  have "only_acts not_hotspot h ?h" by (simp add: only_acts_def)
  moreover have "ctrl_c out h = (if b then Ok () else Err Ctrl_c_failed, ?h)"
    using o by (simp add: ctrl_c_def perform_def call_def give_def fail_def)
  ultimately show thesis using came broken by (cases b) simp_all
qed

lemma run_outcome:
  assumes "settled idle B h" and "hotspot_untouched h0 h"
  shows "up_outcome idle active B app config h0 (fst (run_until_ctrl_c out app config h))
    (snd (run_until_ctrl_c out app config h))"
proof -
  have "preparing idle B h0 (h, no_locals)" using assms by (simp add: preparing_def settled_def)
  from holds_cases [OF startup_states this, of out config] show ?thesis
  proof cases
    case (2 e s')
    then obtain h1 l where s': "s' = (h1, l)" by fastforce
    obtain h' where "perform (rollback_startup app l) (\<lambda>_. fail e :: ('w host, unit, app_error) io) (drop_unused h1) = (Err e, h')"
      "up_outcome idle active B app config h0 (Err e) h'"
      using 2(2) unfolding s' by (rule failed_outcome)
    with 2(1) s' show ?thesis by (simp add: run_until_ctrl_c_def)
  next
    case (1 a s')
    then obtain h1 l where s': "s' = (h1, l)" by fastforce
    let ?ts = "listeners config"
    have a: "active B h1" "tasks h1 = ?ts" "listener_tasks l = ?ts" "hotspot_left_on app config h1"
      using 1(2) s' by (auto simp: serving_def)
    have "active B (drop_unused h1)" using a(1) by (rule red.active_local [rotated]) simp
    then have up: "listening active B ?ts (drop_unused h1)" using a by (simp add: listening_def)
    show ?thesis
    proof (cases out "drop_unused h1" rule: ctrl_c_cases)
      case (broken h')
      have "active B h'"
        using up red.active_local [OF only_acts_untouched [OF broken(2)]] by (simp add: listening_def)
      moreover have "hotspot_untouched (drop_unused h1) h'"
        using broken(2) by (auto simp: only_acts_def hotspot_untouched_def)
      then have "hotspot_left_on app config h'"
        using a(4) drop_unused_same(4) hotspot_left_on_later by blast
      ultimately show ?thesis
        using up broken 1(1) s'
        by (simp add: run_until_ctrl_c_def perform_def up_outcome_def listening_def only_acts_def)
    next
      case (came h2)
      let ?h = "h2\<lparr>tasks := [], sockets := [], actions := actions h2 @ map Aborted ?ts\<rparr>"
      have "tasks h2 = ?ts" "sockets h2 = map socket_of ?ts"
        using up came(2) by (simp_all add: listening_def only_acts_def)
      then have ab: "abort_listener_tasks ?ts h2 = (Ok (), ?h)" by (rule abort_all)
      have "active B h2"
        using up red.active_local [OF only_acts_untouched [OF came(2)]] by (simp add: listening_def)
      then have "active B ?h" by (rule red.active_local [rotated]) (simp add: untouched_capture_def)
      then have l: "listening active B [] ?h" by (simp add: listening_def)
      obtain r h' where d: "down app ?h = (r, h')" by fastforce
      have "run_until_ctrl_c out app config h = (r, h')"
        using 1(1) s' came(1) ab a(3) d by (simp add: run_until_ctrl_c_def perform_def)
      with down_run [OF l] d l show ?thesis
        by (cases r) (auto simp: up_outcome_def)
    qed
  qed
qed

text \<open>Every branch of \<open>up\<close>.\<close>

lemma up_states:
  assumes "settled idle B h" and "net_returns out"
  shows "up_outcome idle active B app config h (fst (up out app config h)) (snd (up out app config h))"
proof -
  have early: "up_outcome idle active B app config h (Err e) h'"
    if "settled idle B h'" "hotspot_untouched h h'" "before_hotspot e" for e h'
    using that by (cases e rule: before_hotspot.cases) (simp_all add: up_outcome_def)
  show ?thesis
  proof (cases "validate_app config")
    case (Err e)
    then show ?thesis using early [OF assms(1)] by (simp add: up_def perform_def wrap_def from_res_def)
  next
    case valid: (Ok u)
    show ?thesis
    proof (cases "connector_from_config (cfg_outbound_proxy config)")
      case (Err e)
      with valid show ?thesis using early [OF assms(1)] by (simp add: up_def perform_def wrap_def from_res_def)
    next
      case conn: (Ok k)
      obtain r h1 where p: "probe_outbound_if_enabled out k (cfg_proxy_preflight config) h = (r, h1)" by fastforce
      have acts: "only_acts not_hotspot h h1" using probe_keeps p by (rule keepsD)
      have h1: "settled idle B h1" "hotspot_untouched h h1"
        using assms(1) acts red.idle_local [OF only_acts_untouched [OF acts]]
        by (auto simp: settled_def only_acts_def hotspot_untouched_def)
      have "r \<noteq> Panic" using probe_returns [OF assms(2)] p unfolding never_panics_def by (metis fst_conv)
      with valid conn p early [OF h1] run_outcome [OF h1, of config out] show ?thesis
        by (cases r) (simp_all add: up_def perform_def wrap_def from_res_def)
    qed (simp add: connector_no_panic)
  qed (simp add: validate_app_no_panic)
qed

end

subsection \<open>The Windows implementation\<close>

interpretation win: application "windows_app rt adapters sh e" idle_redirector active_redirector
  for rt adapters sh e
proof (rule application.intro)
  show "packet_redirector (pr_preflight (app_redirector (windows_app rt adapters sh e)))
     (pr_start (app_redirector (windows_app rt adapters sh e)))
     (pr_stop (app_redirector (windows_app rt adapters sh e))) idle_redirector active_redirector"
    by (simp add: windows_app_def windivert_redirector_def wd.packet_redirector_axioms)
qed (simp_all add: windows_app_def windows_hotspot_def keeps_windows_start keeps_windows_stop keeps_windows_status
    keeps_windows_access_point keeps_windows_discover never_panics_windows never_panics_discover)

lemma windows_app_fields [simp]:
  "hc_start (app_hotspot (windows_app rt adapters sh e)) = windows_hotspot_start rt sh"
  "hc_stop (app_hotspot (windows_app rt adapters sh e)) = windows_hotspot_stop rt sh"
  "hc_status (app_hotspot (windows_app rt adapters sh e)) = windows_hotspot_status rt sh"
  "hc_access_point (app_hotspot (windows_app rt adapters sh e)) = windows_hotspot_access_point rt sh"
  "app_discover_hotspot (windows_app rt adapters sh e) = windows_discover_hotspot adapters sh"
  "pr_preflight (app_redirector (windows_app rt adapters sh e)) = redirector_preflight e"
  "pr_start (app_redirector (windows_app rt adapters sh e)) = redirector_start e"
  "pr_stop (app_redirector (windows_app rt adapters sh e)) = redirector_stop"
  by (simp_all add: windows_app_def windows_hotspot_def windivert_redirector_def)

lemma fresh_settled: "fresh_bound h \<Longrightarrow> settled idle_redirector (handles h) (fresh_process h)"
  by (simp add: settled_def idle_redirector_def fresh_process_def fresh_bound_def)

text \<open>A run of \<open>up\<close> from the start of a process.\<close>

lemma win_outcome:
  assumes "fresh_bound h" and "net_returns out"
    and "up out (windows_app rt adapters sh e) config (fresh_process h) = (r, h')"
  shows "up_outcome idle_redirector active_redirector (handles h) (windows_app rt adapters sh e) config
     (fresh_process h) r h'"
  using win.up_states [OF fresh_settled [OF assms(1)] assms(2), of rt adapters sh e config] assms(3) by simp

lemma down_windows:
  "down (windows_app rt adapters sh e) h = (r, h') \<Longrightarrow> idle_redirector B h \<or> active_redirector B h \<Longrightarrow>
     \<exists>h1 y. windows_hotspot_stop rt sh h1 = (y, h') \<and>
       (case r of Ok _ \<Rightarrow> y = Ok () | Err x \<Rightarrow> \<exists>z. x = Hotspot_error z \<and> y = Err z | Panic \<Rightarrow> False)"
  using never_panics_windows(2) [of rt sh, unfolded never_panics_def, rule_format, of "snd (redirector_stop h)"] wd.stop_idle [of B h]
  by (cases "redirector_stop h"; cases "windows_hotspot_stop rt sh (snd (redirector_stop h))";
      cases "fst (windows_hotspot_stop rt sh (snd (redirector_stop h)))")
    (auto simp: down_def perform_def wrap_def)

subsection \<open>A run\<close>

text \<open>
  A host on which everything works: the tethering service of \<open>sample_winrt\<close>, no PowerShell, a
  driver that opens every handle. Another process has one handle open.
\<close>

lemma filter_no_nul:
  "0 \<notin> set (f_inbound (filters_for_hotspot p s))" "0 \<notin> set (f_network (filters_for_hotspot p s))"
  "0 \<notin> set (f_inbound (filters_preflight p))" "0 \<notin> set (f_network (filters_preflight p))"
  by (auto simp: filters_for_hotspot_def filters_preflight_def lit_def split: prod.split
      dest!: show_nat_digits show_ipv4_chars)

definition sample_env :: "'w driver_env" where
  "sample_env =
     \<lparr>de_search = sample_search, de_load_library = (\<lambda>p. True), de_symbol = (\<lambda>p s. True),
      de_open = (\<lambda>f w. (None, 1, w))\<rparr>"

definition sample_app :: "tethering_state winrt \<Rightarrow> tethering_state h_proxy_app" where
  "sample_app rt = windows_app rt (\<lambda>w n. Adapters [sample_adapter]) sample_shell sample_env"

definition sample_outside :: "bool \<Rightarrow> 'w outside" where
  "sample_outside free =
     \<lparr>out_bind = (\<lambda>s w. (free, 0, w)), out_net = (\<lambda>w. sample_net []),
      out_connect_time = (\<lambda>k d w. (20, w)), out_ctrl_c = (\<lambda>w. (True, 60, w))\<rparr>"

definition sample_app_config :: app_config where
  "sample_app_config =
     \<lparr>cfg_hotspot = sample_hotspot_config, cfg_outbound_proxy = proxy_config_direct,
      cfg_proxy_preflight =
        \<lparr>pf_enabled = False, pf_target = \<lparr>sa_ip = V4 (Ipv4Addr 1 1 1 1), sa_port = 443\<rparr>, pf_timeout_ms = 5000\<rparr>,
      cfg_dns = dns_config_default, cfg_policy = transparent_policy_default,
      cfg_ports = \<lparr>transparent_tcp = 15000, dns_proxy = 15053\<rparr>\<rparr>"

definition sample_machine :: "tethering_state host" where
  "sample_machine = (host_in State_off)\<lparr>handles := [3], next_handle := 8\<rparr>"

lemma sample_facts:
  "fresh_bound sample_machine" "net_returns (sample_outside free)" "validate_app sample_app_config = Ok ()"
  "connector_from_config (cfg_outbound_proxy sample_app_config) = Ok Direct_connector"
proof -
  show "fresh_bound sample_machine" by (simp add: fresh_bound_def sample_machine_def host_in_def)
  show "net_returns (sample_outside free)" by (simp add: net_returns_def sample_outside_def sample_net_def)
  show "validate_app sample_app_config = Ok ()"
    by (simp add: validate_app_def sample_app_config_def validate_hotspot_def sample_hotspot_config_def lit_def
      as_bytes_def encode_char_def validate_proxy_def proxy_config_direct_def validate_preflight_def validate_dns_def
      dns_config_default_def validate_ports_def scalar_value_def)
  show "connector_from_config (cfg_outbound_proxy sample_app_config) = Ok Direct_connector"
    by (simp add: sample_app_config_def proxy_config_direct_def connector_from_config_def)
qed

lemma sample_load: "windivert_load sample_env h = (Ok (), h)"
  by (simp add: windivert_load_def run_windivert_probe_def sample_env_def sample_search_def candidate_dirs_def
      windivert_symbols_def give_def)

lemma sample_open:
  "0 \<notin> set f \<Longrightarrow> \<exists>h'. handle_open sample_env f h = (Ok (next_handle h), h') \<and>
     running h' = running h \<and> world h' = world h \<and> sockets h' = sockets h"
  by (simp add: handle_open_def perform_def call_def sample_env_def)

lemma sample_preflight:
  "\<exists>h'. redirector_preflight sample_env c h = (Ok (), h') \<and>
     running h' = running h \<and> world h' = world h \<and> sockets h' = sockets h"
proof -
  let ?f = "filters_preflight (rpc_dns_proxy_port c)"
  obtain h1 where 1: "handle_open sample_env (f_inbound ?f) h = (Ok (next_handle h), h1)"
    "running h1 = running h" "world h1 = world h" "sockets h1 = sockets h"
    using sample_open filter_no_nul(3) by blast
  obtain h2 where 2: "handle_open sample_env (f_network ?f) h1 = (Ok (next_handle h1), h2)"
    "running h2 = running h1" "world h2 = world h1" "sockets h2 = sockets h1"
    using sample_open filter_no_nul(4) by blast
  from 1 2 show ?thesis
    by (simp add: redirector_preflight_def windivert_preflight_def Let_def wrap_def perform_def sample_load caught_def
        handle_shutdown_def emit_def handle_drop_def)
qed

lemma sample_start:
  assumes "running h = None"
  shows "\<exists>h'. redirector_start sample_env c h = (Ok (), h') \<and> world h' = world h"
proof -
  let ?f = "filters_for_hotspot (dns_proxy (rc_ports c)) (rt_subnet (rc_hotspot c))"
  obtain h1 where 1: "handle_open sample_env (f_inbound ?f) h = (Ok (next_handle h), h1)"
    "running h1 = running h" "world h1 = world h" "sockets h1 = sockets h"
    using sample_open filter_no_nul(1) by blast
  obtain h2 where 2: "handle_open sample_env (f_network ?f) h1 = (Ok (next_handle h1), h2)"
    "running h2 = running h1" "world h2 = world h1" "sockets h2 = sockets h1"
    using sample_open filter_no_nul(2) by blast
  from 1 2 assms show ?thesis
    by (simp add: redirector_start_def windivert_start_def Let_def wrap_def perform_def sample_load caught_def
        spawn_worker_def give_def)
qed

lemma sample_discover: "\<exists>r. \<forall>h. windows_discover_hotspot (\<lambda>w n. Adapters [sample_adapter]) sh h = (Ok r, h)"
proof -
  have "is_ok (discover_native (\<lambda>n. Adapters [sample_adapter]))" by code_simp
  then show ?thesis
    by (cases "discover_native (\<lambda>n. Adapters [sample_adapter])") (simp_all add: windows_discover_hotspot_def give_def)
qed

lemma sample_hotspot_start:
  assumes "world h = State_off"
  shows "\<exists>h'. windows_hotspot_start sample_winrt sample_shell sample_hotspot_config h = (Ok (), h') \<and>
     world h' = State_on \<and> running h' = running h \<and> sockets h' = sockets h"
  using assms by (simp add: native_eval sample_winrt_def sample_hotspot_config_def)

lemma sample_hotspot_stop:
  assumes "world h = State_on"
  shows "\<exists>h'. windows_hotspot_stop sample_winrt sample_shell h = (Ok (), h') \<and> world h' = State_off"
  using assms by (simp add: native_eval sample_winrt_def)

lemma sample_bind:
  assumes "s \<notin> set (sockets h)"
  shows "\<exists>h'. bind_socket (sample_outside True) what s h = (Ok (), h') \<and> running h' = running h \<and>
     world h' = world h \<and> sockets h' = sockets h @ [s]"
  using assms by (simp add: bind_socket_def sample_outside_def perform_def call_def)

text \<open>Operations that succeed and leave the world outside alone.\<close>

definition just_runs :: "('w host, unit, 'e) io \<Rightarrow> bool" where
  "just_runs m \<longleftrightarrow> (\<forall>h. \<exists>h'. m h = (Ok (), h') \<and> world h' = world h)"

lemma just_runsD: "just_runs m \<Longrightarrow> \<exists>h'. m h = (Ok (), h') \<and> world h' = world h"
  unfolding just_runs_def by blast

lemma just_runs_perform: "just_runs m \<Longrightarrow> just_runs n \<Longrightarrow> just_runs (perform m (\<lambda>_. n))"
  unfolding just_runs_def [of "perform m (\<lambda>_. n)"] perform_def
  by (metis (no_types, lifting) just_runsD old.prod.case res.case(1))

lemma just_runs_for_each: "(\<And>x. just_runs (f x)) \<Longrightarrow> just_runs (for_each f xs)"
  by (induction xs) (simp_all add: just_runs_perform just_runs_def [of "give ()"] give_def)

lemma just_runs_basic:
  "just_runs (println x)" "just_runs (abort_task t)" "just_runs (handle_shutdown i)" "just_runs (handle_drop i)"
  "just_runs (join_worker k)"
  by (simp_all add: just_runs_def println_def emit_def abort_task_def handle_shutdown_def handle_drop_def join_worker_def)

lemma just_runs_redirector_stop: "just_runs redirector_stop"
proof -
  have "just_runs (running_stop r)" for r
    unfolding running_stop_def by (intro just_runs_perform just_runs_for_each just_runs_basic)
  note stop = just_runsD [OF this]
  show ?thesis
    unfolding just_runs_def redirector_stop_def
  proof
    fix h :: "'a host"
    show "\<exists>h'. (case running h of None \<Rightarrow> (Ok (), h)
        | Some r \<Rightarrow> (running_stop r :: ('a host, unit, driver_error) io) (h\<lparr>running := None\<rparr>)) = (Ok (), h') \<and>
      world h' = world h"
      using stop [of _ "h\<lparr>running := None\<rparr>"] by (auto split: option.split)
  qed
qed

lemma sample_each:
  "\<exists>h'. (for_each println xs :: ('w host, unit, app_error) io) h = (Ok (), h') \<and> world h' = world h"
  "\<exists>h'. abort_listener_tasks ts h = (Ok (), h') \<and> world h' = world h"
  unfolding abort_listener_tasks_def
  by (rule just_runsD, intro just_runs_for_each just_runs_basic)+

lemma sample_startup:
  assumes "running h = None" and "world h = State_off" and "sockets h = []"
  shows "\<exists>h' l. startup (sample_outside True) (sample_app sample_winrt) sample_app_config (h, no_locals) = (Ok (), h', l) \<and>
     world h' = State_on"
proof -
  obtain h1 where 1: "bind_socket (sample_outside True) (lit ''bind transparent TCP proxy'') (Tcp_socket 15000) h = (Ok (), h1)"
    "running h1 = None" "world h1 = State_off" "sockets h1 = [Tcp_socket 15000]"
    using sample_bind [of "Tcp_socket 15000" h] assms by auto
  obtain h2 where 2: "redirector_preflight sample_env \<lparr>rpc_dns_proxy_port = 15053\<rparr> h1 = (Ok (), h2)"
    "running h2 = None" "world h2 = State_off" "sockets h2 = [Tcp_socket 15000]"
    using sample_preflight [of _ h1] 1 by metis
  obtain h3 where 3: "windows_hotspot_start sample_winrt sample_shell sample_hotspot_config h2 = (Ok (), h3)"
    "running h3 = None" "world h3 = State_on" "sockets h3 = [Tcp_socket 15000]"
    using sample_hotspot_start [of h2] 2 by auto
  obtain r where 4: "windows_discover_hotspot (\<lambda>w n. Adapters [sample_adapter]) sample_shell h3 = (Ok r, h3)"
    using sample_discover by blast
  obtain h5 where 5: "bind_socket (sample_outside True) (lit ''bind DNS proxy'') (Udp_socket 15053) h3 = (Ok (), h5)"
    "running h5 = None" "world h5 = State_on"
    using sample_bind [of "Udp_socket 15053" h3] 3 by auto
  let ?h = "h5\<lparr>tasks := tasks h5 @ [Transparent_task 15000, Dns_task 15053],
      actions := actions h5 @ [Spawned (Transparent_task 15000), Spawned (Dns_task 15053)]\<rparr>"
  obtain h6 where 6: "redirector_start sample_env \<lparr>rc_hotspot = r, rc_ports = cfg_ports sample_app_config,
      rc_policy = cfg_policy sample_app_config\<rparr> ?h = (Ok (), h6)" "world h6 = State_on"
    using sample_start [of ?h] 5 by auto
  obtain h7 where 7: "(for_each println (banner sample_app_config r) :: (tethering_state host, unit, app_error) io) h6 = (Ok (), h7)"
    "world h7 = State_on"
    using sample_each(1) [of "banner sample_app_config r" h6] 6(2) by auto
  have c: "cfg_hotspot sample_app_config = sample_hotspot_config" "transparent_tcp (cfg_ports sample_app_config) = 15000"
    "dns_proxy (cfg_ports sample_app_config) = 15053" "\<not> gateway_mode sample_app_config"
    by (simp_all add: sample_app_config_def gateway_mode_def dns_config_default_def)
  show ?thesis
    using 1(1) 2(1) 3(1) 4 5(1) 6 7 c
    by (simp add: startup_def transparent_bind_def dns_bind_def sample_app_def perform_def on_host_def wrap_def give_def set_local_def spawn_listener_def
        Let_def)
qed

lemma sample_run:
  obtains h where "up (sample_outside True) (sample_app sample_winrt) sample_app_config (fresh_process sample_machine) = (Ok (), h)"
    and "world h = State_off"
proof -
  have "running (fresh_process sample_machine) = None" "world (fresh_process sample_machine) = State_off"
      "sockets (fresh_process sample_machine) = []"
    by (simp_all add: fresh_process_def sample_machine_def host_in_def)
  from sample_startup [OF this] obtain h l where
    s: "startup (sample_outside True) (sample_app sample_winrt) sample_app_config
      (fresh_process sample_machine, no_locals) = (Ok (), h, l)" and w: "world h = State_on"
    by blast
  let ?o = "sample_outside True"
  let ?a = "sample_app sample_winrt"
  have u: "up ?o ?a sample_app_config (fresh_process sample_machine) =
      run_until_ctrl_c ?o ?a sample_app_config (fresh_process sample_machine)"
    using sample_facts(3,4)
    by (simp add: up_def from_res_def wrap_def perform_def probe_outbound_if_enabled_def give_def)
      (simp add: sample_app_config_def)
  obtain h1 where c: "ctrl_c ?o (drop_unused h) = (Ok (), h1)" and w1: "world h1 = State_on"
    using w by (simp add: ctrl_c_def perform_def call_def sample_outside_def give_def drop_unused_def)
  obtain h2 where a: "abort_listener_tasks (listener_tasks l) h1 = (Ok (), h2)" and w2: "world h2 = State_on"
    using sample_each(2) [of "listener_tasks l" h1] w1 by auto
  obtain h3 where r: "redirector_stop h2 = (Ok (), h3)" and w3: "world h3 = State_on"
    using just_runsD [OF just_runs_redirector_stop, of h2] w2 by auto
  obtain h4 where "windows_hotspot_stop sample_winrt sample_shell h3 = (Ok (), h4)" and w4: "world h4 = State_off"
    using sample_hotspot_stop [OF w3] by blast
  with r have "down ?a h2 = (Ok (), h4)" by (simp add: down_def sample_app_def perform_def wrap_def)
  with u s c a have "up ?o ?a sample_app_config (fresh_process sample_machine) = (Ok (), h4)"
    by (simp add: run_until_ctrl_c_def perform_def)
  with w4 show thesis by (rule that [rotated])
qed

text \<open>The service goes on and then fails to report its state.\<close>

definition faulty_winrt :: "tethering_state winrt" where
  "faulty_winrt = sample_winrt\<lparr>wr_state := (\<lambda>w. if w = State_on then (Inl 5, 1, w) else (Inr w, 3, w))\<rparr>"

lemma faulty_hotspot_start:
  assumes "world h = State_off"
  shows "\<exists>x h'. windows_hotspot_start faulty_winrt sample_shell sample_hotspot_config h = (Err x, h') \<and> world h' = State_on"
  using assms by (simp add: native_eval faulty_winrt_def sample_winrt_def sample_hotspot_config_def sample_shell_def
      powershell_available_def run_shell_def fail_def)

lemma faulty_run:
  obtains x h where "up (sample_outside True) (sample_app faulty_winrt) sample_app_config (fresh_process sample_machine) =
      (Err (Hotspot_not_started x), h)"
    and "world h = State_on"
proof -
  let ?h = "fresh_process sample_machine"
  have m: "running ?h = None" "world ?h = State_off" "sockets ?h = []"
    by (simp_all add: fresh_process_def sample_machine_def host_in_def)
  let ?o = "sample_outside True"
  let ?a = "sample_app faulty_winrt"
  obtain h1 where 1: "bind_socket ?o (lit ''bind transparent TCP proxy'') (Tcp_socket 15000) ?h = (Ok (), h1)"
    "world h1 = State_off"
    using sample_bind [of "Tcp_socket 15000" ?h] m by auto
  obtain h2 where 2: "redirector_preflight sample_env \<lparr>rpc_dns_proxy_port = 15053\<rparr> h1 = (Ok (), h2)"
    "world h2 = State_off"
    using sample_preflight [of _ h1] 1 by metis
  obtain x h3 where 3: "windows_hotspot_start faulty_winrt sample_shell sample_hotspot_config h2 = (Err x, h3)"
    "world h3 = State_on"
    using faulty_hotspot_start [of h2] 2 by blast
  have c: "cfg_hotspot sample_app_config = sample_hotspot_config" "transparent_tcp (cfg_ports sample_app_config) = 15000"
    "dns_proxy (cfg_ports sample_app_config) = 15053" "\<not> gateway_mode sample_app_config"
    by (simp_all add: sample_app_config_def gateway_mode_def dns_config_default_def)
  have "startup ?o ?a sample_app_config (?h, no_locals) = (Err (Hotspot_not_started x), h3, no_locals)"
    using 1(1) 2(1) 3(1) c
    by (simp add: startup_def transparent_bind_def dns_bind_def sample_app_def perform_def on_host_def wrap_def give_def Let_def)
  then have "run_until_ctrl_c ?o ?a sample_app_config ?h = (Err (Hotspot_not_started x), drop_unused h3)"
    by (simp add: run_until_ctrl_c_def rollback_startup_def no_locals_def perform_def abort_listener_tasks_def
        caught_def give_def fail_def)
  then have "up ?o ?a sample_app_config ?h = (Err (Hotspot_not_started x), drop_unused h3)"
    using sample_facts(3,4)
    by (simp add: up_def from_res_def wrap_def perform_def probe_outbound_if_enabled_def give_def)
      (simp add: sample_app_config_def)
  then show thesis by (rule that) (simp add: drop_unused_def 3(2))
qed

subsection \<open>Properties\<close>

text \<open>Whatever fails and wherever, a process that runs hproxy up has stopped capturing packets
  when up returns: it has no capture handle, no worker thread, no listener and no socket left, the
  handles of other processes are as they were, and it did not panic. The one exception is a
  failure to wait for Ctrl+C.\<close>

theorem up_releases_everything:
  assumes "fresh_bound h" and "net_returns out"
    and "up out (windows_app rt adapters sh e) config (fresh_process h) = (r, h')"
    and "r \<noteq> Err Ctrl_c_failed"
  shows "r \<noteq> Panic \<and> handles h' = handles h \<and> workers h' = [] \<and> running h' = None \<and>
     tasks h' = [] \<and> sockets h' = []"
  using win_outcome [OF assms(1-3)] assms(4)
  by (cases r) (auto simp: up_outcome_def settled_def idle_redirector_def)

theorem up_releases_everything_witness:
  "\<exists>h. up (sample_outside True) (sample_app sample_winrt) sample_app_config (fresh_process sample_machine) = (Ok (), h) \<and>
     handles h = [3] \<and> tasks h = [] \<and> sockets h = []"
proof -
  obtain h where h: "up (sample_outside True) (sample_app sample_winrt) sample_app_config (fresh_process sample_machine) = (Ok (), h)"
    by (rule sample_run)
  with up_releases_everything [OF sample_facts(1,2), of True _ _ _ _ _ "Ok ()" h] show ?thesis
    by (simp add: sample_app_def sample_machine_def)
qed

text \<open>C6: What a run of hproxy up does to the hotspot, on every path, whatever fails. Its success,
  and a failure to stop the hotspot after Ctrl+C, are the result of a last stop of the hotspot, and
  nothing is done after that stop. An invalid configuration, a failed outbound probe, a TCP port
  that is taken and a refused capture preflight are found before anything is done to the hotspot. A
  failed discovery, a gateway without an IPv4 address, a DNS port that is taken and a redirector
  that does not start are followed by a stop of the hotspot, the last thing that is done. Two paths
  end without a stop: a start of the hotspot that fails is not undone, and the process ends with
  the world and its actions as the failed start left them; and a failure to wait for Ctrl+C leaves
  the hotspot as the start and the discovery left it, with both capture handles open and every
  listener running.\<close>

theorem up_stops_hotspot:
  assumes "fresh_bound h" and "net_returns out"
    and "up out (windows_app rt adapters sh e) config (fresh_process h) = (r, h')"
  shows "case r of
      Panic \<Rightarrow> False
    | Ok _ \<Rightarrow> \<exists>h1. windows_hotspot_stop rt sh h1 = (Ok (), h')
    | Err x \<Rightarrow>
        if before_hotspot x then list_all not_hotspot (actions h')
        else if hotspot_was_on x then \<exists>h1 y. windows_hotspot_stop rt sh h1 = (y, h')
        else
          (case x of
             Hotspot_error z \<Rightarrow> \<exists>h1. windows_hotspot_stop rt sh h1 = (Err z, h')
           | Hotspot_not_started z \<Rightarrow>
               \<exists>h1 h2. windows_hotspot_start rt sh (cfg_hotspot config) h1 = (Err z, h2) \<and>
                 world h' = world h2 \<and> actions h' = actions h2
           | Ctrl_c_failed \<Rightarrow>
               listening active_redirector (handles h) (listeners config) h' \<and>
               (\<exists>h1 h2 runtime h3.
                  windows_hotspot_start rt sh (cfg_hotspot config) h1 = (Ok (), h2) \<and>
                  windows_discover_hotspot adapters sh h2 = (Ok runtime, h3) \<and> hotspot_untouched h3 h')
           | _ \<Rightarrow> False)"
proof -
  let ?app = "windows_app rt adapters sh e"
  have o: "up_outcome idle_redirector active_redirector (handles h) ?app config (fresh_process h) r h'"
    by (rule win_outcome [OF assms])
  have stop: "\<exists>h1 y. windows_hotspot_stop rt sh h1 = (y, h') \<and>
      (case r of Ok _ \<Rightarrow> y = Ok () | Err x \<Rightarrow> \<exists>z. x = Hotspot_error z \<and> y = Err z | Panic \<Rightarrow> False)"
    if "listening active_redirector (handles h) [] h1" "down ?app h1 = (r, h')" for h1
    using down_windows [OF that(2) disjI2] that(1) unfolding listening_def by blast
  show ?thesis
  proof (cases r)
    case (Ok u)
    with o stop show ?thesis by (fastforce simp: up_outcome_def)
  next
    case (Err x)
    consider (c) "x = Ctrl_c_failed" | (b) "before_hotspot x" | (w) "hotspot_was_on x" "\<not> before_hotspot x"
      | (s) z where "x = Hotspot_not_started z"
      | (d) h1 where "listening active_redirector (handles h) [] h1" "down ?app h1 = (r, h')"
          "x \<noteq> Ctrl_c_failed" "\<not> before_hotspot x" "\<not> hotspot_was_on x"
      using o Err by (auto simp: up_outcome_def split: if_splits)
    then show ?thesis
    proof cases
      case c
      with o Err show ?thesis by (simp add: up_outcome_def hotspot_left_on_def switched_on_def) blast
    next
      case b
      then have "x \<noteq> Ctrl_c_failed" by auto
      with b o Err have "hotspot_untouched (fresh_process h) h'" by (simp add: up_outcome_def)
      with b Err show ?thesis by (auto simp: hotspot_untouched_def fresh_process_def)
    next
      case w
      then have "x \<noteq> Ctrl_c_failed" by auto
      with w o Err show ?thesis by (simp add: up_outcome_def)
    next
      case s
      with o Err show ?thesis by (simp add: up_outcome_def)
    next
      case d
      with stop [OF d(1,2)] Err show ?thesis by auto
    qed
  qed (use o in \<open>simp add: up_outcome_def\<close>)
qed

theorem up_stops_hotspot_witness:
  "\<exists>h h1. up (sample_outside True) (sample_app sample_winrt) sample_app_config (fresh_process sample_machine) = (Ok (), h) \<and>
     windows_hotspot_stop sample_winrt sample_shell h1 = (Ok (), h) \<and> world h = State_off"
proof -
  obtain h where h: "up (sample_outside True) (sample_app sample_winrt) sample_app_config (fresh_process sample_machine) = (Ok (), h)"
    and w: "world h = State_off"
    by (rule sample_run)
  with up_stops_hotspot [OF sample_facts(1,2) h [unfolded sample_app_def]] show ?thesis by auto
qed

text \<open>On Ctrl+C the listeners go first: at one point no listener and no listening socket is left
  while both capture handles are still open and their workers running, so packets are still
  redirected, to ports nobody listens on. Only then are the handles closed and the hotspot
  stopped. The same order is used for every run that gets as far as serving.\<close>

theorem capture_outlives_listeners:
  assumes "fresh_bound h" and "net_returns out"
    and "up out (windows_app rt adapters sh e) config (fresh_process h) = (Ok (), h')"
  shows "\<exists>h1. tasks h1 = [] \<and> sockets h1 = [] \<and> length (handles h1) = length (handles h) + 2 \<and>
     length (workers h1) = 2 \<and> down (windows_app rt adapters sh e) h1 = (Ok (), h')"
  using win_outcome [OF assms]
  by (auto simp: up_outcome_def listening_def active_redirector_def pair_redirector_def)

theorem capture_outlives_listeners_witness:
  "\<exists>h h1. up (sample_outside True) (sample_app sample_winrt) sample_app_config (fresh_process sample_machine) = (Ok (), h) \<and>
     tasks h1 = [] \<and> length (handles h1) = 3 \<and> down (sample_app sample_winrt) h1 = (Ok (), h)"
proof -
  obtain h where h: "up (sample_outside True) (sample_app sample_winrt) sample_app_config (fresh_process sample_machine) = (Ok (), h)"
    by (rule sample_run)
  have "length (handles sample_machine) + 2 = 3" by (simp add: sample_machine_def)
  with h capture_outlives_listeners [OF sample_facts(1,2), of True _ _ _ _ _ h] show ?thesis
    unfolding sample_app_def by metis
qed

text \<open>If waiting for Ctrl+C fails, up returns with everything running.\<close>

theorem ctrl_c_failure_leaves_running:
  assumes "fresh_bound h" and "net_returns out"
    and "up out (windows_app rt adapters sh e) config (fresh_process h) = (Err Ctrl_c_failed, h')"
  shows "tasks h' = listeners config \<and> sockets h' = map socket_of (listeners config) \<and>
     length (handles h') = length (handles h) + 2 \<and> length (workers h') = 2"
  using win_outcome [OF assms]
  by (auto simp: up_outcome_def listening_def active_redirector_def pair_redirector_def)

text \<open>A start of the hotspot that fails is not undone: the process ends with the world outside
  and the list of its actions exactly as the failed start left them, even if the start had
  switched the hotspot on.\<close>

theorem failed_hotspot_start_not_undone:
  assumes "fresh_bound h" and "net_returns out"
    and "up out (windows_app rt adapters sh e) config (fresh_process h) = (Err (Hotspot_not_started x), h')"
  shows "\<exists>h1 h2. windows_hotspot_start rt sh (cfg_hotspot config) h1 = (Err x, h2) \<and>
     world h' = world h2 \<and> actions h' = actions h2"
  using win_outcome [OF assms] by (simp add: up_outcome_def)

theorem failed_hotspot_start_not_undone_witness:
  "\<exists>x h h1 h2. up (sample_outside True) (sample_app faulty_winrt) sample_app_config (fresh_process sample_machine) =
       (Err (Hotspot_not_started x), h) \<and>
     windows_hotspot_start faulty_winrt sample_shell sample_hotspot_config h1 = (Err x, h2) \<and>
     actions h = actions h2 \<and> world h = State_on"
proof -
  obtain x h where h: "up (sample_outside True) (sample_app faulty_winrt) sample_app_config (fresh_process sample_machine) =
      (Err (Hotspot_not_started x), h)" and w: "world h = State_on"
    by (rule faulty_run)
  have "cfg_hotspot sample_app_config = sample_hotspot_config" by (simp add: sample_app_config_def)
  with h w failed_hotspot_start_not_undone [OF sample_facts(1,2), of True _ _ _ _ _ x h] show ?thesis
    unfolding sample_app_def by metis
qed

text \<open>A redirector that is stopped: its handles shut down, its workers joined, its handles closed.\<close>

lemma redirector_stop_actions:
  assumes "idle_redirector B h \<or> active_redirector B h"
  shows "redirector_stop h = (Ok (), snd (redirector_stop h)) \<and> idle_redirector B (snd (redirector_stop h)) \<and>
     (case running h of
        None \<Rightarrow> snd (redirector_stop h) = h
      | Some r \<Rightarrow> actions (snd (redirector_stop h)) =
          actions h @ map Shut_down (rr_handles r) @ map Closed (rr_handles r))"
proof -
  have "running h = None \<or> (\<exists>i j. running h = Some (pair_redirector i j))"
    using assms by (auto simp: idle_redirector_def active_redirector_def)
  then show ?thesis
    using redirector_stop_idle [OF assms]
    by (cases "redirector_stop h")
      (auto simp: redirector_stop_def running_stop_def pair_redirector_def perform_def handle_shutdown_def emit_def
        join_worker_def handle_drop_def give_def)
qed

text \<open>C36: The commands down and recover stop the redirector of their own process first and the
  hotspot after it, and the result of the hotspot's stop is theirs. A running redirector has both
  handles shut down, its workers joined and the handles closed, in this order, before the hotspot
  is touched, and no handle but those of other processes stays open; recover lets at least 100 ms
  pass in between. Where no redirector runs, as at the start of either command's process, the first
  step does nothing at all: the handles, whoever opened them, stay open, and the command is a stop
  of the hotspot.\<close>

theorem down_is_hotspot_stop:
  assumes "idle_redirector B h \<or> active_redirector B h"
  shows "\<exists>k. idle_redirector B k \<and>
     (case running h of
        None \<Rightarrow> k = h
      | Some r \<Rightarrow> actions k = actions h @ map Shut_down (rr_handles r) @ map Closed (rr_handles r)) \<and>
     down (windows_app rt adapters sh e) h = wrap Hotspot_error (windows_hotspot_stop rt sh) k \<and>
     recover (windows_app rt adapters sh e) h =
       wrap Hotspot_error (windows_hotspot_stop rt sh) (k\<lparr>clock := clock k + 100 + late k (clock k)\<rparr>)"
proof -
  obtain k where k: "redirector_stop h = (Ok (), k)" "idle_redirector B k"
    "case running h of None \<Rightarrow> k = h
      | Some r \<Rightarrow> actions k = actions h @ map Shut_down (rr_handles r) @ map Closed (rr_handles r)"
    using redirector_stop_actions [OF assms] by blast
  then show ?thesis
    by (intro exI [of _ k]) (simp add: down_def recover_def perform_def wrap_def sleep_def)
qed

theorem down_is_hotspot_stop_witness:
  "let h = sample_machine\<lparr>handles := [3, 8, 9], next_handle := 10, running := Some (pair_redirector 8 9),
         workers := rr_workers (pair_redirector 8 9), world := State_on\<rparr> in
   \<exists>k. handles k = [3] \<and> workers k = [] \<and> actions k = [Shut_down 8, Shut_down 9, Closed 8, Closed 9] \<and>
     down (sample_app sample_winrt) h = wrap Hotspot_error (windows_hotspot_stop sample_winrt sample_shell) k"
proof -
  let ?h = "sample_machine\<lparr>handles := [3, 8, 9], next_handle := 10, running := Some (pair_redirector 8 9),
         workers := rr_workers (pair_redirector 8 9), world := State_on\<rparr>"
  have "active_redirector [3] ?h" by (simp add: active_redirector_def fresh_bound_def pair_redirector_def)
  from down_is_hotspot_stop [OF disjI2 [OF this], where rt = sample_winrt and adapters = "\<lambda>w n. Adapters [sample_adapter]"
      and sh = sample_shell and e = sample_env]
  obtain k where k: "idle_redirector [3] k"
    "actions k = actions ?h @ [Shut_down 8, Shut_down 9, Closed 8, Closed 9]"
    "down (sample_app sample_winrt) ?h = wrap Hotspot_error (windows_hotspot_stop sample_winrt sample_shell) k"
    unfolding sample_app_def by (auto simp: pair_redirector_def)
  have "actions ?h = []" by (simp add: sample_machine_def host_in_def)
  with k show ?thesis by (auto simp: idle_redirector_def Let_def)
qed

end
