(* ===== verification/Contracts.thy ===== *)
theory Contracts
  imports Datapath App
begin

section \<open>The configuration of a run and the data it works on\<close>

text \<open>
  What the parts of a run promise each other. \<open>up\<close> validates its configuration and discovers the
  hotspot; the redirector and the data path rely on the result: a gateway with an IPv4 address
  inside its subnet, and two different local ports that are not 0. On a data path with such a
  configuration the shared flow table, the packets sent on and the connections asked for are well
  typed in every state that the threads can reach, and in such a state neither processor panics
  or drops a packet because it cannot be rewritten. This is stated like the type safety of a
  language: every step preserves the typing, and a well-typed state makes progress.
\<close>

definition local_ports_of :: "redirector_config \<Rightarrow> u16 set" where
  "local_ports_of c = {transparent_tcp (rc_ports c), dns_proxy (rc_ports c)}"

definition wf_redirector_config :: "redirector_config \<Rightarrow> bool" where
  "wf_redirector_config c \<longleftrightarrow>
     (\<exists>g. rt_gateway_ip (rc_hotspot c) = V4 g \<and> cidr_contains (rt_subnet (rc_hotspot c)) g) \<and>
     0 \<notin> local_ports_of c \<and> transparent_tcp (rc_ports c) \<noteq> dns_proxy (rc_ports c)"

subsection \<open>Typing\<close>

definition typed_flow :: "redirector_config \<Rightarrow> flow_key \<Rightarrow> flow_value \<Rightarrow> bool" where
  "typed_flow c k f \<longleftrightarrow>
     is_hotspot_client (rt_subnet (rc_hotspot c)) (fk_client_ip k) \<and>
     (\<exists>a. original_dst_ip f = V4 a) \<and>
     redirected_dst_ip f = rt_gateway_ip (rc_hotspot c) \<and> redirected_dst_port f \<in> local_ports_of c"

definition typed_table :: "redirector_config \<Rightarrow> (flow_key \<rightharpoonup> flow_value) \<Rightarrow> bool" where
  "typed_table c m \<longleftrightarrow> (\<forall>k f. m k = Some f \<longrightarrow> typed_flow c k f)"

text \<open>A packet the inbound worker sends: as it came, or readdressed to a local listener.\<close>

definition typed_forward :: "redirector_config \<Rightarrow> byte list \<Rightarrow> byte list \<Rightarrow> bool" where
  "typed_forward c p q \<longleftrightarrow>
     q = p \<or>
     (\<exists>m port. parse_ipv4_packet_meta p = Ok m \<and> port \<in> local_ports_of c \<and>
       parse_ipv4_packet_meta q =
         Ok (m\<lparr>pm_dst_ip := rt_gateway_ip (rc_hotspot c), pm_dst_port := port\<rparr>) \<and> ip_checksum_ok q)"

definition typed_dial :: "destination \<Rightarrow> bool" where
  "typed_dial d \<longleftrightarrow> (\<exists>a port. d = from_ip (V4 a) port)"

definition well_typed :: "redirector_config \<Rightarrow> datapath \<Rightarrow> bool" where
  "well_typed c s \<longleftrightarrow>
     typed_table c (ft_lookup (dp_table s)) \<and>
     (\<forall>(p, q) \<in> set (dp_forwarded s). typed_forward c p q) \<and>
     (\<forall>(k, d) \<in> set (dp_dialed s). typed_dial d)"

context flow_store
begin

lemma typed_ins: "typed_table c (look t) \<Longrightarrow> typed_flow c k v \<Longrightarrow> typed_table c (look (ins t k v))"
  unfolding typed_table_def
proof (intro allI impI)
  fix k' f
  assume t: "\<forall>k f. look t k = Some f \<longrightarrow> typed_flow c k f" "typed_flow c k v" and f: "look (ins t k v) k' = Some f"
  then show "typed_flow c k' f"
    using look_ins_same [of t k v] look_ins_other [of k' k t v] by (cases "k' = k") auto
qed

lemma typed_get: "typed_table c (look t) \<Longrightarrow> typed_table c (look (snd (get now t k)))"
  by (auto simp: typed_table_def look_get touch_def typed_flow_def split: if_splits)

lemma typed_rem: "typed_table c (look t) \<Longrightarrow> typed_table c (look (snd (rem t k)))"
  by (auto simp: typed_table_def look_rem split: if_splits)

lemma typed_got: "typed_table c (look t) \<Longrightarrow> fst (get now t k) = Some f \<Longrightarrow> typed_flow c k f"
  by (auto simp: typed_table_def fst_get touch_def typed_flow_def)

end

subsection \<open>Steps\<close>

lemma meta_ipv4: "parse_ipv4_packet_meta p = Ok m \<Longrightarrow> \<exists>a. pm_dst_ip m = V4 a"
  unfolding parse_meta_Ok by (metis packet_meta.select_convs(4))

lemma redirect_target:
  "classify_packet c m = RedirectTcp ip port \<or> classify_packet c m = RedirectDns ip port \<Longrightarrow>
     ip = rt_gateway_ip (rc_hotspot c) \<and> port \<in> local_ports_of c \<and>
     is_hotspot_client (rt_subnet (rc_hotspot c)) (pm_src_ip m)"
  by (auto simp: classify_redirect_tcp classify_redirect_dns local_ports_of_def proxied_scope_def)

text \<open>A redirected packet with an IPv4 gateway is always rewritten and sent.\<close>

lemma redirected_sent:
  assumes "wf_redirector_config c" and "parse_ipv4_packet_meta p = Ok m"
    and "classify_packet c m = RedirectTcp ip port \<or> classify_packet c m = RedirectDns ip port"
  shows "\<exists>q. process_forward_packet c now t p =
       Ok (Send_packet, ft_insert t (client_key m) (flow_value_new (pm_dst_ip m) (pm_dst_port m) ip port now), q) \<and>
     typed_forward c p q"
proof -
  obtain g where g: "rt_gateway_ip (rc_hotspot c) = V4 g" using assms(1) by (auto simp: wf_redirector_config_def)
  note target = redirect_target [OF assms(3)]
  obtain q where "rewrite_destination p (V4 g) port = Ok (Some (), q)"
    "parse_ipv4_packet_meta q = Ok (m\<lparr>pm_dst_ip := V4 g, pm_dst_port := port\<rparr>)" "ip_checksum_ok q"
    using rewritten_destination [OF assms(2)] by blast
  with assms(2,3) target g show ?thesis
    by (auto simp: process_forward_packet_def redirect_to_def client_key_def send_if_rewritten_def typed_forward_def)
qed

lemma forward_typed:
  assumes "wf_redirector_config c" and "process_forward_packet c now t p = Ok (a, t', q)"
    and "typed_table c (ft_lookup t)"
  shows "typed_table c (ft_lookup t') \<and> (\<forall>(p', q') \<in> set (sent_pair a p q). typed_forward c p' q')"
proof (cases "\<exists>m ip port. parse_ipv4_packet_meta p = Ok m \<and>
    (classify_packet c m = RedirectTcp ip port \<or> classify_packet c m = RedirectDns ip port)")
  case True
  then obtain m ip port where m: "parse_ipv4_packet_meta p = Ok m"
    and r: "classify_packet c m = RedirectTcp ip port \<or> classify_packet c m = RedirectDns ip port" by blast
  from redirected_sent [OF assms(1) m r, of now t] assms(2)
  have t': "t' = ft_insert t (client_key m) (flow_value_new (pm_dst_ip m) (pm_dst_port m) ip port now)"
    and q: "typed_forward c p q" by auto
  have "typed_flow c (client_key m) (flow_value_new (pm_dst_ip m) (pm_dst_port m) ip port now)"
    using redirect_target [OF r] meta_ipv4 [OF m] by (auto simp: typed_flow_def client_key_def flow_value_new_def)
  with q show ?thesis
    unfolding t' using ft.typed_ins [OF assms(3)] by (auto simp: sent_pair_def)
next
  case False
  then have "t' = t \<and> q = p"
    using assms(2) by (auto simp: process_forward_packet_def split: res.splits redirect_decision.splits)
  with assms(3) show ?thesis by (auto simp: sent_pair_def typed_forward_def)
qed

text \<open>The outbound worker sends every packet, with one whose source it cannot restore left out by the typing.\<close>

lemma network_sends:
  assumes "typed_table c (ft_lookup t)"
  shows "\<exists>t' q. process_network_packet c now t p = Ok (Send_packet, t', q)"
proof (cases "parse_ipv4_packet_meta p")
  case (Ok m)
  show ?thesis
  proof (cases "fst (ft_get now t (reply_key m))")
    case (Some f)
    then obtain a where a: "original_dst_ip f = V4 a"
      using ft.typed_got [OF assms Some] by (auto simp: typed_flow_def)
    obtain q where "rewrite_source p (V4 a) (original_dst_port f) = Ok (Some (), q)"
      using rewritten_source [OF Ok] by blast
    with Ok Some a show ?thesis by (simp add: process_network_eq send_if_rewritten_def)
  qed (simp add: process_network_eq [OF Ok])
qed (use parse_meta_no_panic [of p] in \<open>auto simp: process_network_packet_def\<close>)

lemma well_typed_step:
  assumes "wf_redirector_config c" and "dp_step c dial s s'" and "well_typed c s"
  shows "well_typed c s'"
  using assms(2)
proof (cases rule: dp_step.cases)
  case (Forward_packet now p action t q)
  with forward_typed [OF assms(1) Forward_packet(2)] assms(3) show ?thesis
    by (auto simp: well_typed_def)
next
  case (Network_packet now p action t q)
  with process_network_table [OF Network_packet(2)] assms(3) ft.typed_get show ?thesis
    by (auto simp: well_typed_def)
next
  case (Relay_begins now client ip port t r)
  obtain f where f: "fst (ft_get now (dp_table s) (relay_key ip port)) = Some f"
    and d: "rl_destination r = from_ip (original_dst_ip f) (original_dst_port f)"
    using Relay_begins(2) by (rule relay_begin_destination)
  have "typed_table c (ft_lookup (dp_table s))" using assms(3) by (simp add: well_typed_def)
  from ft.typed_got [OF this f] d have "typed_dial (rl_destination r)"
    unfolding typed_flow_def typed_dial_def by metis
  with Relay_begins assms(3) relay_begin_table [OF Relay_begins(2)] ft.typed_get show ?thesis
    by (auto simp: well_typed_def)
next
  case (Relay_fails now client ip port t x)
  with assms(3) relay_begin_table [OF Relay_fails(2)] ft.typed_get show ?thesis by (auto simp: well_typed_def)
next
  case (Relay_ends k)
  with assms(3) ft.typed_rem show ?thesis by (auto simp: well_typed_def relay_end_def)
qed (use assms(3) in \<open>simp add: well_typed_def\<close>)

lemma well_typed_reachable:
  "dp_reachable c dial capacity s \<Longrightarrow> wf_redirector_config c \<Longrightarrow> well_typed c s"
proof (induction rule: dp_reachable.induct)
  case Start
  show ?case by (simp add: well_typed_def typed_table_def dp_start_def)
qed (blast intro: well_typed_step)

subsection \<open>The contract of the redirector\<close>

text \<open>The application with a redirector that panics on a configuration that is not well formed.\<close>

definition checked :: "'w h_proxy_app \<Rightarrow> 'w h_proxy_app" where
  "checked app =
     app\<lparr>app_redirector := (app_redirector app)\<lparr>pr_start :=
       (\<lambda>c. if wf_redirector_config c then pr_start (app_redirector app) c else from_res Panic)\<rparr>\<rparr>"

lemma checked_fields [simp]:
  "app_hotspot (checked app) = app_hotspot app" "app_discover_hotspot (checked app) = app_discover_hotspot app"
  "pr_preflight (app_redirector (checked app)) = pr_preflight (app_redirector app)"
  "pr_stop (app_redirector (checked app)) = pr_stop (app_redirector app)"
  "wf_redirector_config c \<Longrightarrow> pr_start (app_redirector (checked app)) c = pr_start (app_redirector app) c"
  by (simp_all add: checked_def)

lemma perform_cong: "(\<And>a s'. m s = (Ok a, s') \<Longrightarrow> k a s' = k' a s') \<Longrightarrow> perform m k s = perform m k' s"
  by (auto simp: perform_def split: prod.split res.split)

lemma runtime_of_wf:
  "validate_ports ports = Ok () \<Longrightarrow>
     wf_redirector_config \<lparr>rc_hotspot = runtime_of x, rc_ports = ports, rc_policy = policy\<rparr>"
  using runtime_of_contains
  by (cases x) (auto simp: wf_redirector_config_def local_ports_of_def validate_ports_iff)

lemma windows_discover_runtime:
  assumes "windows_discover_hotspot adapters sh h = (Ok r, h')"
  shows "\<exists>x. r = runtime_of x"
proof (cases "discover_native (adapters (world h))")
  case (Ok r')
  then obtain as where "choose_candidate (adapter_candidates as) = Ok r'" by (rule discover_native_Ok)
  then have "\<exists>x. r' = runtime_of x" by (rule choose_candidate_Ok) blast
  with Ok assms show ?thesis by (simp add: windows_discover_hotspot_def give_def)
next
  case (Err e)
  have "\<exists>output. parse_hotspot_runtime output = Ok r"
    using assms Err
    by (auto simp: windows_discover_hotspot_def perform_eq_Ok fail_def from_res_def split: if_splits
        elim: map_err.elims)
  then show ?thesis by (blast elim: parse_runtime_subnet)
qed (use assms in \<open>simp add: windows_discover_hotspot_def from_res_def\<close>)

lemma startup_checked:
  assumes "validate_ports (cfg_ports config) = Ok ()"
    and "\<And>h r h'. app_discover_hotspot app h = (Ok r, h') \<Longrightarrow> \<exists>x. r = runtime_of x"
  shows "startup out (checked app) config s = startup out app config s"
proof -
  have wf: "wf_redirector_config \<lparr>rc_hotspot = r, rc_ports = cfg_ports config, rc_policy = cfg_policy config\<rparr>"
    if "on_host (wrap Not_discovered (app_discover_hotspot app)) s = (Ok r, s')" for r s s'
  proof -
    obtain h l where s: "s = (h, l)" by fastforce
    with that have "fst (app_discover_hotspot app h) = Ok r"
      by (cases "app_discover_hotspot app h"; cases "fst (app_discover_hotspot app h)") (auto simp: on_host_def wrap_def)
    with assms(2) obtain x where "r = runtime_of x" by (metis prod.collapse)
    with runtime_of_wf [OF assms(1)] show ?thesis by simp
  qed
  show ?thesis
    unfolding startup_def Let_def checked_fields(1-4)
    by (rule perform_cong)+ (simp add: wf)
qed

lemma stops_checked:
  "rollback_startup (checked app) = rollback_startup app" "down (checked app) = down app"
  by (rule ext, simp add: rollback_startup_def down_def)+

lemma run_checked:
  assumes "validate_ports (cfg_ports config) = Ok ()"
    and "\<And>h r h'. app_discover_hotspot app h = (Ok r, h') \<Longrightarrow> \<exists>x. r = runtime_of x"
  shows "run_until_ctrl_c out (checked app) config = run_until_ctrl_c out app config"
  by (rule ext, unfold run_until_ctrl_c_def stops_checked) (simp only: startup_checked [OF assms])

subsection \<open>Properties\<close>

text \<open>C9: up keeps the contract of the redirector: it never starts it with a configuration whose
  gateway is not an IPv4 address inside its subnet, or whose local ports are 0 or the same. A
  redirector that panics on every other configuration makes no difference to any run, whatever
  configuration file, tethering service, PowerShell output or driver it meets.\<close>

theorem up_respects_contract:
  "up out (checked (windows_app rt adapters sh e)) config = up out (windows_app rt adapters sh e) config"
proof (rule ext)
  fix h
  let ?app = "windows_app rt adapters sh e"
  show "up out (checked ?app) config h = up out ?app config h"
  proof (cases "validate_app config")
    case (Ok u)
    then have "validate_ports (cfg_ports config) = Ok ()" by (cases u) (simp add: validate_app_parts)
    moreover have "\<exists>x. r = runtime_of x" if "app_discover_hotspot ?app k = (Ok r, k')" for k r k'
      using that windows_discover_runtime by simp
    ultimately have "run_until_ctrl_c out (checked ?app) config = run_until_ctrl_c out ?app config"
      by (rule run_checked)
    then show ?thesis by (simp add: up_def)
  qed (simp_all add: up_def perform_def wrap_def from_res_def)
qed

text \<open>C7: Type safety of the data path. Started with a configuration that keeps the contract, in every
  state the workers and relays can reach under any interleaving, each flow in the table is that of
  a client in the subnet, with an IPv4 destination and a local listener; every packet sent on is as
  it came or headed for a local listener; every connection asked for is to an IPv4 address. And in
  such a state both workers make progress on every packet: no panic, no redirected packet dropped
  because it cannot be rewritten, and nothing at all dropped on the way out.\<close>

theorem datapath_type_sound:
  assumes "wf_redirector_config c" and "dp_reachable c dial capacity s"
  shows "well_typed c s \<and>
    (\<exists>t q. process_network_packet c now (dp_table s) p = Ok (Send_packet, t, q)) \<and>
    (redirected c p \<noteq> [] \<longrightarrow> (\<exists>t q. process_forward_packet c now (dp_table s) p = Ok (Send_packet, t, q))) \<and>
    (\<exists>a t q. process_forward_packet c now (dp_table s) p = Ok (a, t, q))"
proof -
  have typed: "well_typed c s" by (rule well_typed_reachable [OF assms(2,1)])
  then have "typed_table c (ft_lookup (dp_table s))" by (simp add: well_typed_def)
  from typed network_sends [OF this] process_forward_returns [of c now "dp_table s" p]
  show ?thesis
  proof (intro conjI impI)
    assume "redirected c p \<noteq> []"
    then obtain m ip port where "parse_ipv4_packet_meta p = Ok m"
      "classify_packet c m = RedirectTcp ip port \<or> classify_packet c m = RedirectDns ip port"
      by (auto simp: redirected_def split: res.splits redirect_decision.splits)
    from redirected_sent [OF assms(1) this] show "\<exists>t q. process_forward_packet c now (dp_table s) p = Ok (Send_packet, t, q)"
      by blast
  qed blast+
qed

lemma sample_config_wf: "wf_redirector_config sample_config"
  by (simp add: wf_redirector_config_def local_ports_of_def sample_config_def) code_simp

theorem datapath_type_sound_witness:
  "\<exists>s t q. dp_reachable sample_config sample_dial 4 s \<and> well_typed sample_config s \<and> dp_seen s = [sample_tcp_meta] \<and>
     process_network_packet sample_config 9 (dp_table s) sample_answer = Ok (Send_packet, t, q)"
proof -
  let ?s0 = "dp_start (ft_new 4)"
  obtain a t q where f: "process_forward_packet sample_config 5 (ft_new 4) sample_tcp = Ok (a, t, q)"
    using process_forward_returns by blast
  define s where "s = ?s0\<lparr>dp_table := t, dp_seen := dp_seen ?s0 @ redirected sample_config sample_tcp,
          dp_forwarded := dp_forwarded ?s0 @ sent_pair a sample_tcp q\<rparr>"
  have "dp_seen s = [sample_tcp_meta]"
    by (simp add: s_def dp_start_def redirected_def sample_tcp_parses sample_tcp_redirected)
  moreover have r: "dp_reachable sample_config sample_dial 4 s"
    unfolding s_def by (rule Step [OF Start], rule Forward_packet [where now = 5]) (simp add: dp_start_def f)
  ultimately show ?thesis
    using datapath_type_sound [OF sample_config_wf r, of 9 sample_answer] by blast
qed

end
