(* ===== verification/Delivery.thy ===== *)
theory Delivery
  imports Datapath
begin

section \<open>What becomes of a redirected packet\<close>

text \<open>
  The steps of the data path as events that can be executed: what the workers and relay tasks do,
  with the time each reads from the clock. A run of events is an interleaving, and the states the
  step relation reaches are the ones some run ends in.

  The lemmas follow one redirected packet through a run. The flow table forgets its flow only if
  so many other flows are used later that they fill the table; until then a relay that begins for
  the client connects to where the packet was headed, and an answer of the DNS proxy to the client
  gets that address back. The key of a flow does not have the destination, so two connections from
  one client port share a flow.
\<close>

subsection \<open>Events\<close>

datatype dp_event =
  Forward_event instant "byte list"
| Network_event instant "byte list"
| Begin_event instant client ip_addr u16
| End_event flow_key
| Break_event flow_key

fun exec_event ::
  "redirector_config \<Rightarrow> (destination \<Rightarrow> (conn, connect_error) res) \<Rightarrow> dp_event \<Rightarrow> datapath \<Rightarrow> datapath option" where
  "exec_event c dial (Forward_event now p) s =
     (case process_forward_packet c now (dp_table s) p of
        Ok (action, t, q) \<Rightarrow>
          Some (s\<lparr>dp_table := t, dp_seen := dp_seen s @ redirected c p,
                  dp_forwarded := dp_forwarded s @ sent_pair action p q\<rparr>)
      | _ \<Rightarrow> None)"
| "exec_event c dial (Network_event now p) s =
     (case process_network_packet c now (dp_table s) p of
        Ok (action, t, q) \<Rightarrow>
          Some (s\<lparr>dp_table := t, dp_returned := dp_returned s @ sent_pair action p q\<rparr>)
      | _ \<Rightarrow> None)"
| "exec_event c dial (Begin_event now client ip port) s =
     (case relay_begin dial now (dp_table s) client (relay_key ip port) of
        (t, Ok r) \<Rightarrow>
          Some (s\<lparr>dp_table := t, dp_dialed := dp_dialed s @ [(relay_key ip port, rl_destination r)],
                  dp_relays := dp_relays s @ [relay_key ip port]\<rparr>)
      | (t, Err x) \<Rightarrow> Some (s\<lparr>dp_table := t\<rparr>)
      | (t, Panic) \<Rightarrow> None)"
| "exec_event c dial (End_event k) s =
     (if k \<in> set (dp_relays s)
      then Some (s\<lparr>dp_table := relay_end k (dp_table s), dp_relays := remove1 k (dp_relays s)\<rparr>)
      else None)"
| "exec_event c dial (Break_event k) s =
     (if k \<in> set (dp_relays s) then Some (s\<lparr>dp_relays := remove1 k (dp_relays s)\<rparr>) else None)"

fun exec_events ::
  "redirector_config \<Rightarrow> (destination \<Rightarrow> (conn, connect_error) res) \<Rightarrow> dp_event list \<Rightarrow> datapath \<Rightarrow> datapath option" where
  "exec_events c dial [] s = Some s"
| "exec_events c dial (e # es) s =
     (case exec_event c dial e s of None \<Rightarrow> None | Some s' \<Rightarrow> exec_events c dial es s')"

lemma exec_events_append:
  "exec_events c dial (es @ es') s =
     (case exec_events c dial es s of None \<Rightarrow> None | Some s' \<Rightarrow> exec_events c dial es' s')"
  by (induction es arbitrary: s) (auto split: option.split)

lemma exec_event_step: "exec_event c dial e s = Some s' \<Longrightarrow> dp_step c dial s s'"
  by (cases e) (auto intro: dp_step.intros split: res.splits prod.splits if_splits)

lemma step_exec_event: "dp_step c dial s s' \<Longrightarrow> \<exists>e. exec_event c dial e s = Some s'"
proof (induction rule: dp_step.induct)
  case (Forward_packet now s p action t q)
  then show ?case by (intro exI [of _ "Forward_event now p"]) simp
next
  case (Network_packet now s p action t q)
  then show ?case by (intro exI [of _ "Network_event now p"]) simp
next
  case (Relay_begins now s client ip port t r)
  then show ?case by (intro exI [of _ "Begin_event now client ip port"]) simp
next
  case (Relay_fails now s client ip port t x)
  then show ?case by (intro exI [of _ "Begin_event now client ip port"]) simp
next
  case (Relay_ends k s)
  then show ?case by (intro exI [of _ "End_event k"]) simp
next
  case (Relay_breaks k s)
  then show ?case by (intro exI [of _ "Break_event k"]) simp
qed

lemma exec_events_reachable:
  "dp_reachable c dial capacity s \<Longrightarrow> exec_events c dial es s = Some s' \<Longrightarrow> dp_reachable c dial capacity s'"
proof (induction es arbitrary: s)
  case (Cons e es)
  then show ?case by (auto split: option.splits dest: exec_event_step intro: dp_reachable.Step)
qed simp

subsection \<open>What an event does to the table\<close>

text \<open>The keys an event uses in the table, and when.\<close>

fun touched :: "redirector_config \<Rightarrow> dp_event \<Rightarrow> flow_key list" where
  "touched c (Forward_event now p) = map client_key (redirected c p)"
| "touched c (Network_event now p) =
     (case parse_ipv4_packet_meta p of Ok m \<Rightarrow> if dns_answer c m then [reply_key m] else [] | _ \<Rightarrow> [])"
| "touched c (Begin_event now client ip port) = [relay_key ip port]"
| "touched c (End_event k) = []"
| "touched c (Break_event k) = []"

text \<open>An event no earlier than \<open>since\<close> that does not end a relay of the flow and is not another packet of
  the same client port to another destination.\<close>

fun spares :: "redirector_config \<Rightarrow> instant \<Rightarrow> packet_meta \<Rightarrow> dp_event \<Rightarrow> bool" where
  "spares c since m (Forward_event now p) \<longleftrightarrow>
     since \<le> now \<and>
     list_all (\<lambda>n. client_key n = client_key m \<longrightarrow>
       pm_dst_ip n = pm_dst_ip m \<and> pm_dst_port n = pm_dst_port m) (redirected c p)"
| "spares c since m (Network_event now p) \<longleftrightarrow> since \<le> now"
| "spares c since m (Begin_event now client ip port) \<longleftrightarrow> since \<le> now"
| "spares c since m (End_event k) \<longleftrightarrow> k \<noteq> client_key m"
| "spares c since m (Break_event k) \<longleftrightarrow> True"

text \<open>The other flows that were used no earlier than \<open>since\<close>.\<close>

definition fresher :: "flow_table \<Rightarrow> flow_key \<Rightarrow> instant \<Rightarrow> flow_key set" where
  "fresher t k since = {k'. k' \<noteq> k \<and> (\<exists>f. ft_lookup t k' = Some f \<and> since \<le> last_seen f)}"

definition remembers ::
  "flow_key \<Rightarrow> instant \<Rightarrow> ip_addr \<Rightarrow> u16 \<Rightarrow> nat \<Rightarrow> flow_key set \<Rightarrow> flow_table \<Rightarrow> bool" where
  "remembers k since ip port capacity others t \<longleftrightarrow>
     ft_wf t \<and> ft_capacity t = capacity \<and> fresher t k since \<subseteq> others \<and>
     (\<exists>f. ft_lookup t k = Some f \<and> original_dst_ip f = ip \<and> original_dst_port f = port \<and>
          since \<le> last_seen f)"

lemma remembers_not_oldest:
  assumes "remembers k since ip port capacity others t" "finite others" "card others + 1 < capacity"
    and "capacity \<le> ft_len t"
  shows "oldest_key t \<noteq> Some k"
proof
  assume old: "oldest_key t = Some k"
  have d: "distinct (map fst (ft_flows t))" using assms(1) by (simp add: remembers_def ft_wf_def)
  obtain f where f: "ft_lookup t k = Some f"
    "\<And>k' f'. ft_lookup t k' = Some f' \<Longrightarrow> last_seen f \<le> last_seen f'"
    using oldest_key_Some [OF old d] by blast
  have "since \<le> last_seen f" using assms(1) f(1) by (simp add: remembers_def)
  with f(2) have "dom (ft_lookup t) \<subseteq> insert k (fresher t k since)"
    by (force simp: fresher_def)
  also have "\<dots> \<subseteq> insert k others" using assms(1) by (auto simp: remembers_def)
  finally have "card (dom (ft_lookup t)) \<le> card (insert k others)"
    using assms(2) by (intro card_mono) simp_all
  also have "\<dots> \<le> card others + 1" by (simp add: card_insert_if assms(2))
  finally show False using assms(3,4) card_dom_lookup [OF d] by simp
qed

lemma remembers_insert:
  assumes "remembers k since ip port capacity others t" "finite others" "card others + 1 < capacity"
    and "k' = k \<Longrightarrow> original_dst_ip v = ip \<and> original_dst_port v = port" "since \<le> last_seen v"
    and "k' \<noteq> k \<Longrightarrow> k' \<in> others"
  shows "remembers k since ip port capacity others (ft_insert t k' v)"
proof -
  have old: "ft_capacity t \<le> ft_len t \<Longrightarrow> oldest_key t \<noteq> Some k"
    using remembers_not_oldest [OF assms(1,2,3)] assms(1) by (simp add: remembers_def)
  have sub: "ft_lookup (ft_insert t k' v) x = Some f \<Longrightarrow> x \<noteq> k' \<Longrightarrow> ft_lookup t x = Some f" for x f
    by (auto simp: ft_lookup_insert split: option.splits if_splits)
  then have "fresher (ft_insert t k' v) k since \<subseteq> others"
    using assms(1,6) by (fastforce simp: fresher_def remembers_def)
  moreover have "ft_lookup (ft_insert t k' v) k = (if k' = k then Some v else ft_lookup t k)"
    using old by (auto simp: ft_lookup_insert split: option.split)
  ultimately show ?thesis
    using assms(1,4,5) by (auto simp: remembers_def ft_wf_insert)
qed

lemma remembers_get:
  assumes "remembers k since ip port capacity others t" "since \<le> now" "k' \<noteq> k \<Longrightarrow> k' \<in> others"
  shows "remembers k since ip port capacity others (snd (ft_get now t k'))"
proof -
  have "fresher (snd (ft_get now t k')) k since \<subseteq> others"
    using assms(1,3) by (auto simp: fresher_def remembers_def ft_lookup_get(2) split: option.splits if_splits)
  moreover have "\<exists>f. ft_lookup (snd (ft_get now t k')) k = Some f \<and> original_dst_ip f = ip \<and>
      original_dst_port f = port \<and> since \<le> last_seen f"
    using assms(1,2) by (auto simp: remembers_def ft_lookup_get(2) touch_def split: option.split)
  ultimately show ?thesis using assms(1) by (simp add: remembers_def ft_wf_get)
qed

lemma remembers_remove:
  assumes "remembers k since ip port capacity others t" "k' \<noteq> k"
  shows "remembers k since ip port capacity others (snd (ft_remove t k'))"
proof -
  have "fresher (snd (ft_remove t k')) k since \<subseteq> fresher t k since"
    by (auto simp: fresher_def ft_lookup_remove split: if_splits)
  with assms show ?thesis by (auto simp: remembers_def ft_wf_remove ft_lookup_remove)
qed

lemma process_network_uses:
  assumes "process_network_packet c now t p = Ok (a, t', q)"
  shows "t' = t \<or> (\<exists>k \<in> set (touched c (Network_event now p)). t' = snd (ft_get now t k))"
proof (cases "parse_ipv4_packet_meta p")
  case (Ok m)
  have send: "send_if_rewritten t0 x = Ok (a, t', q) \<Longrightarrow> t' = t0" for t0 x
    by (cases x) (auto simp: send_if_rewritten_def split: prod.splits)
  from assms Ok show ?thesis
    by (auto simp: process_network_eq [OF Ok] split: if_splits option.splits dest!: send)
qed (use assms in \<open>auto simp: process_network_packet_def\<close>)

lemma remembers_event:
  assumes "exec_event c dial e s = Some s'" and "spares c since m e"
    and used: "set (touched c e) \<subseteq> insert (client_key m) others" "finite others" "card others + 1 < capacity"
    and old: "remembers (client_key m) since (pm_dst_ip m) (pm_dst_port m) capacity others (dp_table s)"
  shows "remembers (client_key m) since (pm_dst_ip m) (pm_dst_port m) capacity others (dp_table s')"
proof (cases e)
  case (Forward_event now p)
  with assms(1) obtain a t q where f: "process_forward_packet c now (dp_table s) p = Ok (a, t, q)"
    and s': "dp_table s' = t"
    by (auto split: res.splits)
  from process_forward_table [OF f] consider (same) "t = dp_table s"
    | (inserted) n ip port where "redirected c p = [n]"
      "t = ft_insert (dp_table s) (client_key n) (flow_value_new (pm_dst_ip n) (pm_dst_port n) ip port now)"
    by blast
  then show ?thesis
  proof cases
    case same
    with old s' show ?thesis by simp
  next
    case (inserted n ip port)
    show ?thesis unfolding s' inserted(2)
      by (rule remembers_insert [OF old used(2,3)])
        (use inserted(1) used(1) assms(2) Forward_event in \<open>auto simp: flow_value_new_def\<close>)
  qed
next
  case (Network_event now p)
  with assms(1) obtain a t q where f: "process_network_packet c now (dp_table s) p = Ok (a, t, q)"
    and s': "dp_table s' = t"
    by (auto split: res.splits)
  from process_network_uses [OF f] show ?thesis
  proof (elim disjE bexE)
    fix k assume "k \<in> set (touched c (Network_event now p))" and t: "t = snd (ft_get now (dp_table s) k)"
    then show ?thesis unfolding s' t
      by (intro remembers_get [OF old]) (use used(1) assms(2) Network_event in auto)
  qed (use old s' in simp)
next
  case (Begin_event now client ip port)
  let ?k = "relay_key ip port"
  obtain t r where b: "relay_begin dial now (dp_table s) client ?k = (t, r)" by fastforce
  with assms(1) Begin_event have s': "dp_table s' = t" by (cases r) auto
  show ?thesis unfolding s' relay_begin_table [OF b]
    by (intro remembers_get [OF old]) (use used(1) assms(2) Begin_event in auto)
next
  case (End_event k)
  with assms(1) have s': "dp_table s' = snd (ft_remove (dp_table s) k)"
    by (auto simp: relay_end_def split: if_splits)
  show ?thesis unfolding s' by (rule remembers_remove [OF old]) (use assms(2) End_event in simp)
next
  case (Break_event k)
  with assms(1) old show ?thesis by (auto split: if_splits)
qed

lemma remembers_events:
  assumes "exec_events c dial es s = Some s'" and "list_all (spares c since m) es"
    and "set (concat (map (touched c) es)) \<subseteq> insert (client_key m) others" "finite others" "card others + 1 < capacity"
    and "remembers (client_key m) since (pm_dst_ip m) (pm_dst_port m) capacity others (dp_table s)"
  shows "remembers (client_key m) since (pm_dst_ip m) (pm_dst_port m) capacity others (dp_table s')"
  using assms(1,2,3,6)
proof (induction es arbitrary: s)
  case (Cons e es)
  then obtain s1 where e: "exec_event c dial e s = Some s1" and es: "exec_events c dial es s1 = Some s'"
    by (auto split: option.splits)
  from Cons.prems have "remembers (client_key m) since (pm_dst_ip m) (pm_dst_port m) capacity others (dp_table s1)"
    by (intro remembers_event [OF e _ _ assms(4,5)]) auto
  with Cons.IH [OF es] Cons.prems show ?case by auto
qed simp

text \<open>A redirected packet puts its flow into the table; if the clock has moved on since the table was
  used last, no other flow is as fresh.\<close>

lemma remembers_redirected:
  assumes "dp_reachable c dial capacity s" and "redirected c p = [m]"
    and "\<And>k f. ft_lookup (dp_table s) k = Some f \<Longrightarrow> last_seen f < since"
    and "exec_event c dial (Forward_event since p) s = Some s'"
  shows "remembers (client_key m) since (pm_dst_ip m) (pm_dst_port m) capacity {} (dp_table s')"
proof -
  from assms(4) obtain a t q where f: "process_forward_packet c since (dp_table s) p = Ok (a, t, q)"
    and s': "dp_table s' = t"
    by (auto split: res.splits)
  from process_forward_table [OF f] assms(2) obtain ip port where
    t: "t = ft_insert (dp_table s) (client_key m) (flow_value_new (pm_dst_ip m) (pm_dst_port m) ip port since)"
    by auto
  have "ft_lookup t x = Some f \<Longrightarrow> x \<noteq> client_key m \<Longrightarrow> ft_lookup (dp_table s) x = Some f" for x f
    by (auto simp: t ft_lookup_insert split: option.splits if_splits)
  then have "fresher t (client_key m) since = {}"
    using assms(3) by (fastforce simp: fresher_def)
  moreover have "ft_wf t" "ft_capacity t = capacity"
    using dp_inv_reachable [OF assms(1)] by (simp_all add: dp_inv_def t ft_wf_insert)
  ultimately show ?thesis
    unfolding s' by (simp add: remembers_def) (simp add: t flow_value_new_def)
qed

subsection \<open>Properties\<close>

text \<open>The states of the step relation are exactly those some run of events ends in.\<close>

theorem reachable_iff_run:
  "dp_reachable c dial capacity s \<longleftrightarrow> (\<exists>es. exec_events c dial es (dp_start (ft_new capacity)) = Some s)"
proof
  assume "dp_reachable c dial capacity s"
  then show "\<exists>es. exec_events c dial es (dp_start (ft_new capacity)) = Some s"
  proof (induction rule: dp_reachable.induct)
    case Start
    show ?case by (intro exI [of _ "[]"]) simp
  next
    case (Step s s')
    then obtain es e where "exec_events c dial es (dp_start (ft_new capacity)) = Some s" "exec_event c dial e s = Some s'"
      using step_exec_event by blast
    then have "exec_events c dial (es @ [e]) (dp_start (ft_new capacity)) = Some s'"
      by (simp add: exec_events_append)
    then show ?case ..
  qed
next
  assume "\<exists>es. exec_events c dial es (dp_start (ft_new capacity)) = Some s"
  then show "dp_reachable c dial capacity s"
    using exec_events_reachable [OF dp_reachable.Start] by blast
qed

text \<open>C16: A redirected packet is delivered. Let a client's packet be redirected in any state the data path
  can reach, at a time later than every use of the flow table so far, and let any run of the
  workers and relay tasks follow, of any length, that uses fewer than capacity - 1 other flows,
  ends no relay of this client port and has no packet from it to another destination. Then a
  relay that begins for the client connects to where the packet was headed, if that can be
  reached; and an answer of the DNS proxy to the client leaves with that address and port as its
  source, with valid checksums.\<close>

theorem redirected_packet_delivered:
  assumes "dp_reachable c dial capacity s" and "redirected c p = [m]"
    and "\<forall>k f. ft_lookup (dp_table s) k = Some f \<longrightarrow> last_seen f < since"
    and "exec_events c dial (Forward_event since p # es) s = Some s'" and "list_all (spares c since m) es"
    and "card (set (concat (map (touched c) es)) - {client_key m}) + 1 < capacity"
  shows "(pm_protocol m = Tcp \<and> dial (from_ip (pm_dst_ip m) (pm_dst_port m)) = Ok upstream \<longrightarrow>
      (\<exists>t r. relay_begin dial now (dp_table s') client (relay_key (pm_src_ip m) (pm_src_port m)) = (t, Ok r) \<and>
         rl_destination r = from_ip (pm_dst_ip m) (pm_dst_port m) \<and> rl_upstream r = upstream)) \<and>
    (parse_ipv4_packet_meta a = Ok n \<and> dns_answer c n \<and> reply_key n = client_key m \<longrightarrow>
      (\<exists>t b. process_network_packet c now (dp_table s') a = Ok (Send_packet, t, b) \<and>
         parse_ipv4_packet_meta b = Ok (n\<lparr>pm_src_ip := pm_dst_ip m, pm_src_port := pm_dst_port m\<rparr>) \<and>
         ip_checksum_ok b))"
proof -
  let ?others = "set (concat (map (touched c) es)) - {client_key m}"
  from assms(4) obtain s1 where e: "exec_event c dial (Forward_event since p) s = Some s1"
    and es: "exec_events c dial es s1 = Some s'"
    by (auto simp del: exec_event.simps split: option.splits)
  have "remembers (client_key m) since (pm_dst_ip m) (pm_dst_port m) capacity {} (dp_table s1)"
    using assms(3) by (intro remembers_redirected [OF assms(1,2) _ e]) blast
  then have "remembers (client_key m) since (pm_dst_ip m) (pm_dst_port m) capacity ?others (dp_table s1)"
    by (auto simp: remembers_def)
  from remembers_events [OF es assms(5) _ _ assms(6) this]
  obtain f where f: "ft_lookup (dp_table s') (client_key m) = Some f"
    "original_dst_ip f = pm_dst_ip m" "original_dst_port f = pm_dst_port m"
    by (auto simp: remembers_def)
  then have fst: "fst (ft_get now (dp_table s') (client_key m)) = Some (touch now f)" for now
    by (subst ft_lookup_get(1)) simp
  then obtain t where got: "ft_get now (dp_table s') (client_key m) = (Some (touch now f), t)"
    by (metis prod.collapse)
  have "parse_ipv4_packet_meta p = Ok m"
    using assms(2) by (auto simp: redirected_def split: res.splits redirect_decision.splits)
  then obtain x where x: "pm_dst_ip m = V4 x"
    unfolding parse_meta_Ok by (metis packet_meta.select_convs(4))
  show ?thesis
  proof (intro conjI impI)
    assume tcp: "pm_protocol m = Tcp \<and> dial (from_ip (pm_dst_ip m) (pm_dst_port m)) = Ok upstream"
    then have "relay_key (pm_src_ip m) (pm_src_port m) = client_key m" by (simp add: relay_key_def client_key_def)
    with got f tcp show "\<exists>t r. relay_begin dial now (dp_table s') client (relay_key (pm_src_ip m) (pm_src_port m)) =
        (t, Ok r) \<and> rl_destination r = from_ip (pm_dst_ip m) (pm_dst_port m) \<and> rl_upstream r = upstream"
      by (simp add: relay_begin_def touch_def Let_def)
  next
    assume a: "parse_ipv4_packet_meta a = Ok n \<and> dns_answer c n \<and> reply_key n = client_key m"
    then obtain b where "rewrite_source a (V4 x) (pm_dst_port m) = Ok (Some (), b)"
      "parse_ipv4_packet_meta b = Ok (n\<lparr>pm_src_ip := V4 x, pm_src_port := pm_dst_port m\<rparr>)" "ip_checksum_ok b"
      using rewritten_source by blast
    with a fst f x show "\<exists>t b. process_network_packet c now (dp_table s') a = Ok (Send_packet, t, b) \<and>
        parse_ipv4_packet_meta b = Ok (n\<lparr>pm_src_ip := pm_dst_ip m, pm_src_port := pm_dst_port m\<rparr>) \<and> ip_checksum_ok b"
      by (simp add: process_network_eq touch_def)
  qed
qed

lemma events_return:
  "\<exists>s'. exec_event c dial (Forward_event now p) s = Some s'"
  "\<exists>s'. exec_event c dial (Network_event now p) s = Some s'"
  using process_forward_returns [of c now "dp_table s" p] process_network_returns [of c now "dp_table s" p]
  by (auto split: res.split)

lemma sample_redirected:
  "redirected sample_config sample_tcp = [sample_tcp_meta]" "redirected sample_config sample_packet = [sample_meta]"
  by (simp_all add: redirected_def sample_tcp_parses sample_tcp_redirected sample_parses sample_classified)

theorem redirected_packet_delivered_witness:
  "\<exists>s t r. exec_events sample_config sample_dial [Forward_event 5 sample_tcp, Forward_event 6 sample_packet,
        Network_event 7 sample_answer] (dp_start (ft_new 3)) = Some s \<and>
     relay_begin sample_dial 9 (dp_table s) [] (relay_key (V4 (Ipv4Addr 192 168 137 20)) 51000) = (t, Ok r) \<and>
     rl_destination r = from_ip (V4 (Ipv4Addr 93 184 216 34)) 443"
proof -
  let ?es = "[Forward_event 6 sample_packet, Network_event 7 sample_answer]"
  obtain s1 where "exec_event sample_config sample_dial (Forward_event 5 sample_tcp) (dp_start (ft_new 3)) = Some s1"
    using events_return(1) by blast
  moreover obtain s2 where "exec_event sample_config sample_dial (Forward_event 6 sample_packet) s1 = Some s2"
    using events_return(1) by blast
  moreover obtain s where "exec_event sample_config sample_dial (Network_event 7 sample_answer) s2 = Some s"
    using events_return(2) by blast
  ultimately have s: "exec_events sample_config sample_dial (Forward_event 5 sample_tcp # ?es) (dp_start (ft_new 3)) = Some s"
    by (simp del: exec_event.simps)
  have spared: "list_all (spares sample_config 5 sample_tcp_meta) ?es"
    by (simp add: sample_redirected client_key_def sample_meta_def sample_tcp_meta_def)
  have "set (concat (map (touched sample_config) ?es)) - {client_key sample_tcp_meta} \<subseteq> {client_key sample_meta}"
    by (auto simp: sample_redirected sample_parses(2) reply_key_def client_key_def sample_meta_def)
  then have "card (set (concat (map (touched sample_config) ?es)) - {client_key sample_tcp_meta}) \<le> 1"
    using card_mono [of "{client_key sample_meta}"] by simp
  then have few: "card (set (concat (map (touched sample_config) ?es)) - {client_key sample_tcp_meta}) + 1 < 3"
    by simp
  have "\<forall>k f. ft_lookup (dp_table (dp_start (ft_new 3))) k = Some f \<longrightarrow> last_seen f < 5"
    by (simp add: dp_start_def)
  from redirected_packet_delivered [OF dp_reachable.Start sample_redirected(1) this s spared few,
      of "\<lparr>inbound = [], outbound = [], writes_left = 9\<rparr>" 9 "[]" sample_answer sample_meta]
  have "\<exists>t r. relay_begin sample_dial 9 (dp_table s) [] (relay_key (V4 (Ipv4Addr 192 168 137 20)) 51000) = (t, Ok r) \<and>
     rl_destination r = from_ip (V4 (Ipv4Addr 93 184 216 34)) 443"
    by (auto simp: sample_tcp_meta_def sample_dial_def)
  with s show ?thesis by blast
qed

text \<open>The key of a flow has no destination and the redirected packet keeps no trace of it either: two
  TCP connections a client opens from one port to different destinations become the same
  connection to the listener, and the relay connects to the later destination.\<close>

theorem client_port_is_the_flow:
  assumes "parse_ipv4_packet_meta p1 = Ok m1" "classify_packet c m1 = RedirectTcp (V4 g) port"
    and "parse_ipv4_packet_meta p2 = Ok m2" "classify_packet c m2 = RedirectTcp (V4 g) port"
    and "client_key m1 = client_key m2"
  shows "\<exists>t1 q1 t2 q2 n. process_forward_packet c now t p1 = Ok (Send_packet, t1, q1) \<and>
      process_forward_packet c now' t1 p2 = Ok (Send_packet, t2, q2) \<and>
      parse_ipv4_packet_meta q1 = Ok n \<and> parse_ipv4_packet_meta q2 = Ok n \<and>
      (case relay_begin dial now'' t2 client (client_key m1) of
         (_, Ok r) \<Rightarrow> rl_destination r = from_ip (pm_dst_ip m2) (pm_dst_port m2)
       | _ \<Rightarrow> True)"
proof -
  let ?ins = "\<lambda>m t now. ft_insert t (client_key m) (flow_value_new (pm_dst_ip m) (pm_dst_port m) (V4 g) port now)"
  have sent: "\<exists>q. process_forward_packet c now t p = Ok (Send_packet, ?ins m t now, q) \<and>
      parse_ipv4_packet_meta q = Ok (m\<lparr>pm_dst_ip := V4 g, pm_dst_port := port\<rparr>)"
    if parsed: "parse_ipv4_packet_meta p = Ok m" and redirect: "classify_packet c m = RedirectTcp (V4 g) port" for p m t now
  proof -
    obtain q where "rewrite_destination p (V4 g) port = Ok (Some (), q)"
      "parse_ipv4_packet_meta q = Ok (m\<lparr>pm_dst_ip := V4 g, pm_dst_port := port\<rparr>)"
      using rewritten_destination [OF parsed] by blast
    with parsed redirect show ?thesis
      by (auto simp: process_forward_packet_def redirect_to_def client_key_def send_if_rewritten_def)
  qed
  let ?t2 = "?ins m2 (?ins m1 t now) now'"
  obtain q1 q2 where q: "process_forward_packet c now t p1 = Ok (Send_packet, ?ins m1 t now, q1)"
    "parse_ipv4_packet_meta q1 = Ok (m1\<lparr>pm_dst_ip := V4 g, pm_dst_port := port\<rparr>)"
    "process_forward_packet c now' (?ins m1 t now) p2 = Ok (Send_packet, ?t2, q2)"
    "parse_ipv4_packet_meta q2 = Ok (m2\<lparr>pm_dst_ip := V4 g, pm_dst_port := port\<rparr>)"
    using sent [OF assms(1,2)] sent [OF assms(3,4)] by blast
  have "m1\<lparr>pm_dst_ip := V4 g, pm_dst_port := port\<rparr> = m2\<lparr>pm_dst_ip := V4 g, pm_dst_port := port\<rparr>"
    using assms(5) by (cases m1; cases m2) (simp add: client_key_def)
  moreover have "rl_destination r = from_ip (pm_dst_ip m2) (pm_dst_port m2)"
    if r: "relay_begin dial now'' ?t2 client (client_key m1) = (t', Ok r)" for t' r
    using r
  proof (rule relay_begin_destination)
    fix f assume "fst (ft_get now'' ?t2 (client_key m1)) = Some f"
      "rl_destination r = from_ip (original_dst_ip f) (original_dst_port f)"
    then show ?thesis
      by (subst (asm) ft_lookup_get(1)) (auto simp: assms(5) touch_def flow_value_new_def)
  qed
  ultimately show ?thesis using q by (fastforce split: prod.split res.split)
qed

text \<open>A relay that ends removes the flow its client port has by then. If the client has started another
  connection from this port in the meantime, that connection is refused: its flow is gone.\<close>

theorem ended_relay_takes_newer_flow:
  assumes "redirected c p = [m]" "pm_protocol m = Tcp"
    and "exec_events c dial [Forward_event now p, End_event (client_key m)] s = Some s'"
  shows "snd (relay_begin dial now' (dp_table s') client (relay_key (pm_src_ip m) (pm_src_port m))) = Err Missing_flow"
proof -
  obtain s1 where "exec_event c dial (End_event (client_key m)) s1 = Some s'"
    using assms(3) by (auto simp del: exec_event.simps split: option.splits)
  then have "ft_lookup (dp_table s') (client_key m) = None"
    by (auto simp: relay_end_def ft_lookup_remove split: if_splits)
  moreover have "relay_key (pm_src_ip m) (pm_src_port m) = client_key m"
    using assms(2) by (simp add: relay_key_def client_key_def)
  moreover have "ft_get now' t k = (None, t)" if "ft_lookup t k = None" for t k
    using that by (simp add: ft_get_def ft_lookup_def)
  ultimately show ?thesis by (simp add: relay_begin_def)
qed

end
