(* ===== verification/Dns.thy ===== *)
theory Dns
  imports Config
begin

section \<open>The DNS proxy (src/src/dns.rs)\<close>

text \<open>
  The UDP listener that answers a client's query with the gateway's address or forwards it to
  the upstream resolver. The question parser and the response builder index the query as the
  code does. The sockets are outside: a received datagram, a timeout or an error of an operation
  is an argument, and what is sent is part of the result. A forwarded query runs in a task of its
  own, so the listener's loop yields the tasks it spawned.

  The lemmas show that the parser accepts exactly the queries with one well-formed question in
  the Internet class and finds where it ends, what the gateway's response says, which
  queries are answered locally, and what a forwarded query sends to whom.
\<close>

unbundle bit_operations_syntax

subsection \<open>The question of a query\<close>

record dns_question =
  q_qtype :: u16
  q_question_end :: nat

function name_loop :: "byte list \<Rightarrow> nat \<Rightarrow> (nat, unit) res" where
  "name_loop query offset =
     (case get_at query offset of
        None \<Rightarrow> Nothing
      | Some b \<Rightarrow>
          let len = unat b; offset' = offset + 1 in
          if len = 0 then Ok offset'
          else if b AND 0xc0 \<noteq> 0 \<or> length query < offset' + len then Nothing
          else name_loop query (offset' + len))"
  by pat_completeness auto
termination
  by (relation "measure (\<lambda>(query, offset). length query - offset)") (auto simp: get_at_eq_Some)

declare name_loop.simps [simp del]

definition parse_single_question :: "byte list \<Rightarrow> (dns_question, unit) res" where
  "parse_single_question query =
     (if length query < 17 then Nothing
      else idx query 4 (\<lambda>b4. idx query 5 (\<lambda>b5.
        if from_be16 b4 b5 \<noteq> 1 then Nothing
        else attempt (name_loop query 12) (\<lambda>offset.
          if length query < offset + 4 then Nothing
          else
            idx query offset (\<lambda>t0. idx query (offset + 1) (\<lambda>t1.
            idx query (offset + 2) (\<lambda>c0. idx query (offset + 3) (\<lambda>c1.
            if from_be16 c0 c1 \<noteq> 1 then Nothing
            else Ok \<lparr>q_qtype = from_be16 t0 t1, q_question_end = offset + 4\<rparr>))))))))"

definition gateway_dns_response :: "byte list \<Rightarrow> ipv4addr \<Rightarrow> (byte list, unit) res" where
  "gateway_dns_response query gateway_ip =
     attempt (parse_single_question query) (\<lambda>parsed.
     slice query 0 2 (\<lambda>ident.
     let r1 = ident @ [0x81, 0x80] @ [0x00, 0x01];
         r2 = r1 @ (if q_qtype parsed = 1 then [0x00, 0x01] else [0x00, 0x00]);
         r3 = r2 @ [0x00, 0x00] @ [0x00, 0x00] in
     slice query 12 (q_question_end parsed) (\<lambda>quest.
     let r4 = r3 @ quest in
     if q_qtype parsed \<noteq> 1 then Ok r4
     else Ok (r4 @ [0xc0, 0x0c] @ [0x00, 0x01] @ [0x00, 0x01] @ [0x00, 0x00, 0x00, 0x3c] @
           [0x00, 0x04] @ octets gateway_ip))))"

subsection \<open>The listener\<close>

definition wildcard_bind_addr :: "socket_addr \<Rightarrow> socket_addr" where
  "wildcard_bind_addr upstream =
     (if is_ipv4 upstream then \<lparr>sa_ip = V4 (Ipv4Addr 0 0 0 0), sa_port = 0\<rparr>
      else \<lparr>sa_ip = V6 (Ipv6Addr 0), sa_port = 0\<rparr>)"

record dns_server =
  srv_config :: dns_config
  srv_gateway_ip :: "ipv4addr option"

type_synonym datagram = "byte list \<times> socket_addr"

datatype dns_action = Answer datagram | Forward_task datagram

text \<open>What the loop does with one received query. A failed match of the gateway conditions
  falls through to forwarding.\<close>

definition dns_dispatch :: "dns_server \<Rightarrow> datagram \<Rightarrow> (dns_action, unit) res" where
  "dns_dispatch srv q =
     (if dns_mode_of (srv_config srv) = Gateway
      then
        case srv_gateway_ip srv of
          None \<Rightarrow> Ok (Forward_task q)
        | Some gateway_ip \<Rightarrow>
            (case gateway_dns_response (fst q) gateway_ip of
               Ok response \<Rightarrow> Ok (Answer (response, snd q))
             | Err _ \<Rightarrow> Ok (Forward_task q)
             | Panic \<Rightarrow> Panic)
      else Ok (Forward_task q))"

datatype recv_event = Datagram "byte list" socket_addr | Recv_error

datatype run_end = Running_still | Ended_recv_error | Ended_send_error

text \<open>
  The loop over what \<open>recv_from\<close> returns, until the events given are used up
  (\<open>Running_still\<close>) or an error ends it. \<open>send_ok\<close> says whether a local answer can be sent.
\<close>

fun dns_run :: "dns_server \<Rightarrow> (datagram \<Rightarrow> bool) \<Rightarrow> recv_event list \<Rightarrow> (dns_action list \<times> run_end, unit) res" where
  "dns_run srv send_ok [] = Ok ([], Running_still)"
| "dns_run srv send_ok (Recv_error # events) = Ok ([], Ended_recv_error)"
| "dns_run srv send_ok (Datagram bytes peer # events) =
     attempt (dns_dispatch srv (bytes, peer)) (\<lambda>action.
       case action of
         Answer d \<Rightarrow>
           if send_ok d
           then attempt (dns_run srv send_ok events) (\<lambda>(actions, e). Ok (action # actions, e))
           else Ok ([], Ended_send_error)
       | Forward_task q \<Rightarrow>
           attempt (dns_run srv send_ok events) (\<lambda>(actions, e). Ok (action # actions, e)))"

subsection \<open>Forwarding\<close>

datatype upstream_recv = Timed_out | Recv_failed | Response "byte list" socket_addr

text \<open>What the sockets of one forwarding task do.\<close>

record forward_env =
  fe_bind_ok :: bool
  fe_send_ok :: bool
  fe_recv :: upstream_recv
  fe_reply_ok :: bool

datatype dns_error = Bind_failed | Send_failed | Query_timed_out | Receive_failed | Reply_failed

text \<open>What a task did: the address it bound, what it sent upstream and to the client.\<close>

record forward_trace =
  tr_bound :: "socket_addr option"
  tr_upstream :: "datagram list"
  tr_client :: "datagram list"

definition forward_dns_query ::
  "forward_env \<Rightarrow> socket_addr \<Rightarrow> byte list \<Rightarrow> socket_addr \<Rightarrow> forward_trace \<times> (unit, dns_error) res" where
  "forward_dns_query env peer query upstream =
     (let bind_addr = wildcard_bind_addr upstream;
          t0 = \<lparr>tr_bound = None, tr_upstream = [], tr_client = []\<rparr> in
      if \<not> fe_bind_ok env then (t0, Err Bind_failed)
      else let t1 = t0\<lparr>tr_bound := Some bind_addr\<rparr> in
      if \<not> fe_send_ok env then (t1, Err Send_failed)
      else let t2 = t1\<lparr>tr_upstream := [(query, upstream)]\<rparr> in
      case fe_recv env of
        Timed_out \<Rightarrow> (t2, Err Query_timed_out)
      | Recv_failed \<Rightarrow> (t2, Err Receive_failed)
      | Response response source \<Rightarrow>
          if sa_ip source \<noteq> sa_ip upstream then (t2, Ok ())
          else if \<not> fe_reply_ok env then (t2, Err Reply_failed)
          else (t2\<lparr>tr_client := [(response, peer)]\<rparr>, Ok ()))"

subsection \<open>The format of a query\<close>

fun encode_name :: "byte list list \<Rightarrow> byte list" where
  "encode_name [] = [0]"
| "encode_name (l # ls) = word_of_nat (length l) # l @ encode_name ls"

definition label_ok :: "byte list \<Rightarrow> bool" where
  "label_ok l \<longleftrightarrow> 1 \<le> length l \<and> length l \<le> 63"

definition encode_query :: "byte list \<Rightarrow> byte list list \<Rightarrow> u16 \<Rightarrow> byte list \<Rightarrow> byte list" where
  "encode_query hdr ls qtype rest = hdr @ encode_name ls @ to_be16 qtype @ to_be16 1 @ rest"

lemma length_encode_name: "1 \<le> length (encode_name ls)"
  by (cases ls) auto

lemma label_byte: "b AND 0xc0 = 0 \<longleftrightarrow> unat b < 64" for b :: byte
proof -
  have m: "(0xc0 :: byte) = NOT (mask 6)" by (simp add: mask_eq_exp_minus_1)
  have "b AND 0xc0 = push_bit 6 (drop_bit 6 b)"
    unfolding m by (rule bit_word_eqI) (auto simp: bit_simps)
  moreover have "unat (drop_bit 6 b) = unat b div 64"
    by (subst unat_drop_bit_eq) (simp add: drop_bit_eq_div [where ?'a = nat])
  moreover have "unat b div 64 * 64 < 256"
    using unat_byte_less [of b] div_times_less_eq_dividend [of "unat b" 64] by linarith
  ultimately have "unat (b AND 0xc0) = unat b div 64 * 64"
    by (simp add: push_bit_eq_mult unat_word_ariths)
  moreover have "b AND 0xc0 = 0 \<longleftrightarrow> unat (b AND 0xc0) = 0" by (simp only: unsigned_eq_0_iff)
  ultimately show ?thesis by auto
qed


lemma name_loop_step:
  "offset < length query \<Longrightarrow> name_loop query offset =
     (if unat (query ! offset) = 0 then Ok (offset + 1)
      else if 64 \<le> unat (query ! offset) \<or> length query < offset + 1 + unat (query ! offset) then Nothing
      else name_loop query (offset + 1 + unat (query ! offset)))"
  using label_byte [of "query ! offset"]
  by (subst name_loop.simps) (auto simp: get_at_def Let_def not_less)

lemma name_loop_encode:
  "list_all label_ok ls \<Longrightarrow>
   name_loop (pre @ encode_name ls @ post) (length pre) = Ok (length pre + length (encode_name ls))"
proof (induction ls arbitrary: pre)
  case Nil
  then show ?case by (simp add: name_loop_step nth_append)
next
  case (Cons l ls)
  have u: "unat (word_of_nat (length l) :: byte) = length l" "1 \<le> length l" "length l \<le> 63"
    using Cons.prems by (auto simp: label_ok_def unsigned_of_nat take_bit_eq_mod)
  have "name_loop (pre @ encode_name (l # ls) @ post) (length pre) =
      name_loop ((pre @ word_of_nat (length l) # l) @ encode_name ls @ post)
        (length (pre @ word_of_nat (length l) # l))"
    using u by (subst name_loop_step) (auto simp: nth_append)
  also have "\<dots> = Ok (length (pre @ word_of_nat (length l) # l) + length (encode_name ls))"
    using Cons.prems by (intro Cons.IH) simp
  finally show ?case by (simp add: add.assoc)
qed

lemma name_loop_Ok:
  "name_loop query offset = Ok e \<Longrightarrow>
   \<exists>ls. list_all label_ok ls \<and> e = offset + length (encode_name ls) \<and> e \<le> length query \<and>
     take (length (encode_name ls)) (drop offset query) = encode_name ls"
proof (induction query offset rule: name_loop.induct)
  case (1 query offset)
  show ?case
  proof (cases "offset < length query")
    case False
    with 1(2) show ?thesis by (subst (asm) name_loop.simps) (simp add: get_at_def)
  next
    case True
    let ?b = "query ! offset"
    note st = 1(2) [unfolded name_loop_step [OF True]]
    show ?thesis
    proof (cases "unat ?b = 0")
      case zero: True
      then have "?b = 0" by (simp only: unsigned_eq_0_iff)
      with st zero True show ?thesis
        by (intro exI [of _ "[]"]) (simp add: take_Suc_conv_app_nth flip: Cons_nth_drop_Suc)
    next
      case False
      with st have b: "unat ?b < 64" "offset + 1 + unat ?b \<le> length query"
        and r: "name_loop query (offset + 1 + unat ?b) = Ok e"
        by (auto split: if_splits)
      have "\<exists>ls. list_all label_ok ls \<and> e = offset + 1 + unat ?b + length (encode_name ls) \<and> e \<le> length query \<and>
          take (length (encode_name ls)) (drop (offset + 1 + unat ?b) query) = encode_name ls"
        using True b False r label_byte [of ?b] by (intro 1(1)) (auto simp: get_at_def)
      then obtain ls where ls: "list_all label_ok ls" "e = offset + 1 + unat ?b + length (encode_name ls)"
        "e \<le> length query" "take (length (encode_name ls)) (drop (offset + 1 + unat ?b) query) = encode_name ls"
        by blast
      define l where "l = take (unat ?b) (drop (offset + 1) query)"
      have l: "length l = unat ?b" using b by (simp add: l_def)
      have "take (1 + unat ?b + length (encode_name ls)) (drop offset query) =
          ?b # l @ take (length (encode_name ls)) (drop (offset + 1 + unat ?b) query)"
        using True take_add [of "unat ?b" "length (encode_name ls)" "drop (offset + 1) query"]
        by (simp add: l_def add.commute add.left_commute flip: Cons_nth_drop_Suc)
      moreover have "label_ok l" using l b False by (simp add: label_ok_def)
      ultimately show ?thesis
        using ls l b by (intro exI [of _ "l # ls"]) simp
    qed
  qed
qed

lemma name_loop_no_panic [panic_free]: "name_loop query offset \<noteq> Panic"
proof (induction query offset rule: name_loop.induct)
  case (1 query offset)
  then show ?case by (subst name_loop.simps) (auto simp: Let_def split: option.split)
qed


lemma parse_question_eq:
  assumes "17 \<le> length query"
  shows "parse_single_question query =
     (if be16_at query 4 \<noteq> 1 then Nothing
      else attempt (name_loop query 12) (\<lambda>offset.
        if offset + 4 \<le> length query \<and> be16_at query (offset + 2) = 1
        then Ok \<lparr>q_qtype = be16_at query offset, q_question_end = offset + 4\<rparr>
        else Nothing))"
proof -
  have "query \<noteq> []" using assms by auto
  then show ?thesis
    using assms unfolding parse_single_question_def
    by (cases "name_loop query 12") (auto simp: be16_at_def numeral_3_eq_3)
qed

lemma parse_question_short: "length query < 17 \<Longrightarrow> parse_single_question query = Nothing"
  by (simp add: parse_single_question_def)

lemma parse_question_no_panic [panic_free]: "parse_single_question query \<noteq> Panic"
  by (cases "17 \<le> length query")
    (auto simp: parse_question_eq parse_question_short attempt_eq_Panic name_loop_no_panic)

lemma parse_encoded:
  assumes "length hdr = 12" "be16_at hdr 4 = 1" "list_all label_ok ls"
  shows "parse_single_question (encode_query hdr ls qtype rest) =
     Ok \<lparr>q_qtype = qtype, q_question_end = 16 + length (encode_name ls)\<rparr>"
proof -
  let ?n = "length (encode_name ls)"
  let ?q = "encode_query hdr ls qtype rest"
  have n: "1 \<le> ?n" by (rule length_encode_name)
  have "name_loop ?q 12 = Ok (12 + ?n)"
    using name_loop_encode [OF assms(3), of hdr "to_be16 qtype @ to_be16 1 @ rest"] assms(1)
    by (simp add: encode_query_def)
  moreover have "be16_at ?q 4 = 1" using assms(1,2) by (simp add: encode_query_def be16_at_def nth_append)
  moreover have "be16_at ?q (12 + ?n) = qtype"
    using be16_append [of "hdr @ encode_name ls" qtype "to_be16 1 @ rest"] assms(1)
    by (simp add: encode_query_def)
  moreover have "be16_at ?q (12 + ?n + 2) = 1"
    using be16_append [of "hdr @ encode_name ls @ to_be16 qtype" 1 rest] assms(1)
    by (simp add: encode_query_def add.assoc)
  ultimately show ?thesis
    using n assms(1) by (subst parse_question_eq) (simp_all add: encode_query_def)
qed

lemma parse_question_Ok:
  assumes "parse_single_question query = Ok r"
  obtains hdr ls rest where "length hdr = 12" "be16_at hdr 4 = 1" "list_all label_ok ls"
    "query = encode_query hdr ls (q_qtype r) rest" "q_question_end r = 16 + length (encode_name ls)"
proof -
  have len: "17 \<le> length query" using assms parse_question_short by (cases "17 \<le> length query") auto
  obtain offset where o: "be16_at query 4 = 1" "name_loop query 12 = Ok offset"
    "offset + 4 \<le> length query" "be16_at query (offset + 2) = 1"
    "r = \<lparr>q_qtype = be16_at query offset, q_question_end = offset + 4\<rparr>"
    using assms by (auto simp: parse_question_eq [OF len] attempt_eq_Ok split: if_splits)
  obtain ls where ls: "list_all label_ok ls" "offset = 12 + length (encode_name ls)"
    "take (length (encode_name ls)) (drop 12 query) = encode_name ls"
    using name_loop_Ok [OF o(2)] by blast
  have f: "take 2 (drop a query) = to_be16 (be16_at query a)" if "a + 2 \<le> length query" for a
    using that by (simp add: be16.enc_rd)
  have s: "drop a query = take n (drop a query) @ drop (a + n) query" for a n
    by (metis append_take_drop_id drop_drop add.commute)
  have "drop 12 query = encode_name ls @ drop offset query"
    using s [of 12 "length (encode_name ls)"] ls by simp
  also have "drop offset query = to_be16 (q_qtype r) @ drop (offset + 2) query"
    using s [of offset 2] f [of offset] o by simp
  also have "drop (offset + 2) query = to_be16 1 @ drop (offset + 4) query"
    using s [of "offset + 2" 2] f [of "offset + 2"] o by (simp add: numeral_eq_Suc)
  finally have "query = encode_query (take 12 query) ls (q_qtype r) (drop (offset + 4) query)"
    using append_take_drop_id [of 12 query] by (simp add: encode_query_def)
  then show thesis
    using that [of "take 12 query" ls "drop (offset + 4) query"] o ls len by (simp add: be16_at_def)
qed

subsection \<open>What a response says\<close>

text \<open>The part of a response after its question, and the header it gives a query's identifier.\<close>

definition response_header :: "byte list \<Rightarrow> u16 \<Rightarrow> byte list" where
  "response_header hdr qtype =
     take 2 hdr @ [0x81, 0x80, 0, 1, 0, if qtype = 1 then 1 else 0, 0, 0, 0, 0]"

definition address_record :: "ipv4addr \<Rightarrow> byte list" where
  "address_record ip = [0xc0, 0x0c, 0, 1, 0, 1, 0, 0, 0, 0x3c, 0, 4] @ octets ip"

lemma gateway_response_encoded:
  assumes "length hdr = 12" "be16_at hdr 4 = 1" "list_all label_ok ls"
  shows "gateway_dns_response (encode_query hdr ls qtype rest) gw =
     Ok (encode_query (response_header hdr qtype) ls qtype (if qtype = 1 then address_record gw else []))"
  using assms
  by (simp add: gateway_dns_response_def parse_encoded)
    (simp add: encode_query_def response_header_def address_record_def to_be16_def)

lemma gateway_response_no_panic [panic_free]: "gateway_dns_response query gw \<noteq> Panic"
proof
  assume p: "gateway_dns_response query gw = Panic"
  show False
  proof (cases "parse_single_question query")
    case (Ok r)
    then obtain hdr ls rest where "length hdr = 12" "be16_at hdr 4 = 1" "list_all label_ok ls"
      "query = encode_query hdr ls (q_qtype r) rest"
      by (rule parse_question_Ok)
    with p show False by (simp add: gateway_response_encoded)
  qed (use p in \<open>auto simp: gateway_dns_response_def parse_question_no_panic\<close>)
qed

lemma gateway_response_Ok:
  "gateway_dns_response query gw = Ok response \<Longrightarrow> \<exists>r. parse_single_question query = Ok r"
  by (auto simp: gateway_dns_response_def attempt_eq_Ok)


lemma dns_dispatch_eq:
  "dns_dispatch srv (query, peer) =
     Ok (case (dns_mode_of (srv_config srv), srv_gateway_ip srv, gateway_dns_response query (the (srv_gateway_ip srv))) of
           (Gateway, Some gw, Ok response) \<Rightarrow> Answer (response, peer)
         | _ \<Rightarrow> Forward_task (query, peer))"
  using gateway_response_no_panic [of query "the (srv_gateway_ip srv)"]
  by (auto simp: dns_dispatch_def split: dns_mode.split option.split res.split)

lemma dns_dispatch_no_panic [panic_free]: "dns_dispatch srv q \<noteq> Panic"
  by (cases q) (simp add: dns_dispatch_eq)

lemma address_record_fields:
  "be16_at (address_record gw) 0 = 0xc00c" "be16_at (address_record gw) 2 = 1"
  "be16_at (address_record gw) 4 = 1" "be16_at (address_record gw) 10 = 4"
  "ipv4_at (address_record gw) 12 = gw" "length (address_record gw) = 16"
proof -
  obtain a b c d where gw: "gw = Ipv4Addr a b c d" by (cases gw)
  show "be16_at (address_record gw) 0 = 0xc00c" "be16_at (address_record gw) 2 = 1"
    "be16_at (address_record gw) 4 = 1" "be16_at (address_record gw) 10 = 4"
    by (simp_all add: address_record_def be16_at_def from_be16_def gw)
  show "ipv4_at (address_record gw) 12 = gw" "length (address_record gw) = 16"
    by (simp_all add: address_record_def ipv4_at_def gw)
qed

subsection \<open>Properties\<close>

text \<open>C33: The question parser accepts exactly the messages with a question count of one whose
  question section starts with a name of labels of 1 to 63 bytes, without compression, in the
  Internet class; it reports the type of that question and the offset right behind it.\<close>

theorem parse_question_iff:
  "parse_single_question query = Ok r \<longleftrightarrow>
     (\<exists>hdr ls rest. length hdr = 12 \<and> be16_at hdr 4 = 1 \<and> list_all label_ok ls \<and>
        query = hdr @ encode_name ls @ to_be16 (q_qtype r) @ to_be16 1 @ rest \<and>
        q_question_end r = 16 + length (encode_name ls))"
proof
  assume "parse_single_question query = Ok r"
  then show "\<exists>hdr ls rest. length hdr = 12 \<and> be16_at hdr 4 = 1 \<and> list_all label_ok ls \<and>
        query = hdr @ encode_name ls @ to_be16 (q_qtype r) @ to_be16 1 @ rest \<and>
        q_question_end r = 16 + length (encode_name ls)"
    by (rule parse_question_Ok) (auto simp: encode_query_def)
next
  assume "\<exists>hdr ls rest. length hdr = 12 \<and> be16_at hdr 4 = 1 \<and> list_all label_ok ls \<and>
        query = hdr @ encode_name ls @ to_be16 (q_qtype r) @ to_be16 1 @ rest \<and>
        q_question_end r = 16 + length (encode_name ls)"
  then show "parse_single_question query = Ok r"
    using parse_encoded by (auto simp: encode_query_def)
qed

text \<open>How a client reads the first address of a response: a response header that answers one
  question with at least one record, and behind the question a record of type A and class IN with
  four bytes of data.\<close>

definition read_address :: "byte list \<Rightarrow> ipv4addr option" where
  "read_address response =
     (case parse_single_question response of
        Ok r \<Rightarrow>
          let e = q_question_end r in
          if be16_at response 2 AND 0x800f = 0x8000 \<and> be16_at response 6 \<noteq> 0 \<and>
             e + 16 \<le> length response \<and> be16_at response e = 0xc00c \<and>
             be16_at response (e + 2) = 1 \<and> be16_at response (e + 4) = 1 \<and>
             be16_at response (e + 10) = 4
          then Some (ipv4_at response (e + 12)) else None
      | _ \<Rightarrow> None)"

text \<open>In gateway mode a client is told the gateway's address. Every query with a question
  the parser accepts gets a response that carries the query's identifier and its question byte
  for byte; a client reads the gateway's address out of it if it asked for an IPv4 address, and
  no address if it asked for anything else.\<close>

theorem gateway_response_spec:
  assumes "parse_single_question query = Ok r"
  shows "\<exists>response. gateway_dns_response query gw = Ok response \<and>
     take 2 response = take 2 query \<and>
     parse_single_question response = Ok r \<and>
     take (q_question_end r - 12) (drop 12 response) = take (q_question_end r - 12) (drop 12 query) \<and>
     read_address response = (if q_qtype r = 1 then Some gw else None)"
proof -
  obtain hdr ls rest where q: "length hdr = 12" "be16_at hdr 4 = 1" "list_all label_ok ls"
    "query = encode_query hdr ls (q_qtype r) rest" "q_question_end r = 16 + length (encode_name ls)"
    using assms by (rule parse_question_Ok)
  define rh where "rh = response_header hdr (q_qtype r)"
  define ans where "ans = (if q_qtype r = 1 then address_record gw else [])"
  have rh: "length rh = 12" "be16_at rh 4 = 1" "be16_at rh 2 = 0x8180"
    "be16_at rh 6 = (if q_qtype r = 1 then 1 else 0)"
    using q(1) by (auto simp: rh_def response_header_def be16_at_def nth_append from_be16_def)
  define response where "response = encode_query rh ls (q_qtype r) ans"
  have resp: "gateway_dns_response query gw = Ok response"
    using gateway_response_encoded [OF q(1,2,3)] q(4) by (simp add: response_def rh_def ans_def)
  have p: "parse_single_question response = Ok r"
    using parse_encoded [OF rh(1,2) q(3)] q(5) by (simp add: response_def)
  define pre where "pre = rh @ encode_name ls @ to_be16 (q_qtype r) @ to_be16 1"
  have pre: "length pre = q_question_end r" "response = pre @ ans"
    using q(5) rh(1) by (simp_all add: pre_def response_def encode_query_def)
  have h: "be16_at response i = be16_at rh i" if "i + 2 \<le> 12" for i
    using that rh(1) by (simp add: response_def encode_query_def be16_at_def nth_append)
  have a: "be16_at response (q_question_end r + i) = be16_at ans i" if "q_qtype r = 1" for i
    using pre by (simp add: be16_at_def nth_append add.assoc flip: pre(1))
  have "be16_at ans 0 = 0xc00c" "be16_at ans 2 = 1" "be16_at ans 4 = 1" "be16_at ans 10 = 4"
    "ipv4_at ans 12 = gw" "length ans = 16" if "q_qtype r = 1"
    using that by (simp_all add: ans_def address_record_fields)
  moreover have "ipv4_at response (q_question_end r + 12) = ipv4_at ans 12"
    using pre by (intro ipv4.rd_local) (simp add: nth_append add.assoc flip: pre(1))
  moreover have "length response = q_question_end r + length ans" using pre by simp
  ultimately have "read_address response = (if q_qtype r = 1 then Some gw else None)"
    using a [of 0] a [of 2] a [of 4] a [of 10] h [of 2] h [of 6] rh
    by (auto simp: read_address_def p Let_def)
  moreover have "take 2 response = take 2 query"
    using q(1,4) by (simp add: response_def encode_query_def rh_def response_header_def)
  moreover have "take (q_question_end r - 12) (drop 12 response) = take (q_question_end r - 12) (drop 12 query)"
    using q rh by (simp add: response_def encode_query_def)
  ultimately show ?thesis using resp p by blast
qed

text \<open>A query for the A record of a.b, for the witnesses.\<close>

definition sample_query :: "byte list" where
  "sample_query =
     [0x12, 0x34, 1, 0, 0, 1, 0, 0, 0, 0, 0, 0, 1, 0x61, 1, 0x62, 0, 0, 1, 0, 1]"

lemma sample_query_parses:
  "parse_single_question sample_query = Ok \<lparr>q_qtype = 1, q_question_end = 21\<rparr>"
  by code_simp

theorem gateway_response_spec_witness:
  "\<exists>response. gateway_dns_response sample_query (Ipv4Addr 192 168 137 1) = Ok response \<and>
     read_address response = Some (Ipv4Addr 192 168 137 1)"
  using gateway_response_spec [OF sample_query_parses, of "Ipv4Addr 192 168 137 1"] by auto


text \<open>Which queries are answered locally: exactly those with an acceptable question, in
  gateway mode and with an IPv4 gateway. Every other query is forwarded, byte for byte, on behalf
  of the client that sent it; no query makes the server panic.\<close>

theorem dns_dispatch_spec:
  "dns_dispatch srv (query, peer) =
     Ok (if dns_mode_of (srv_config srv) = Gateway \<and> srv_gateway_ip srv \<noteq> None \<and>
            is_ok (parse_single_question query)
         then Answer (the (ok_value (gateway_dns_response query (the (srv_gateway_ip srv)))), peer)
         else Forward_task (query, peer))"
proof -
  have "is_ok (gateway_dns_response query gw) \<longleftrightarrow> is_ok (parse_single_question query)" for gw
  proof (cases "parse_single_question query")
    case (Ok r)
    then obtain hdr ls rest where "length hdr = 12" "be16_at hdr 4 = 1" "list_all label_ok ls"
      "query = encode_query hdr ls (q_qtype r) rest"
      by (rule parse_question_Ok)
    with Ok show ?thesis by (simp add: gateway_response_encoded)
  qed (simp_all add: gateway_dns_response_def)
  from this [of "the (srv_gateway_ip srv)"] show ?thesis
    by (cases "srv_gateway_ip srv"; cases "gateway_dns_response query (the (srv_gateway_ip srv))")
      (auto simp: dns_dispatch_eq split: dns_mode.split)
qed

text \<open>C40: The server loop treats the datagrams in order, each exactly once: if no receive fails
  and no local answer fails to be sent, it is still running after any number of queries, and its
  actions are those of the queries, one for each. A single local answer that cannot be sent ends
  the loop for every client.\<close>

theorem dns_run_spec:
  assumes "list_all (\<lambda>(query, peer). case dns_dispatch srv (query, peer) of Ok (Answer d) \<Rightarrow> send_ok d | _ \<Rightarrow> True) qs"
  shows "\<exists>actions. dns_run srv send_ok (map (\<lambda>(query, peer). Datagram query peer) qs @ rest) =
       attempt (dns_run srv send_ok rest) (\<lambda>(more, e). Ok (actions @ more, e)) \<and>
     map Ok actions = map (dns_dispatch srv) qs \<and>
     (dns_dispatch srv q = Ok (Answer d) \<longrightarrow> \<not> send_ok d \<longrightarrow>
       dns_run srv send_ok (map (\<lambda>(query, peer). Datagram query peer) qs @ Datagram (fst q) (snd q) # rest) =
         Ok (actions, Ended_send_error))"
proof -
  have "\<exists>actions. map Ok actions = map (dns_dispatch srv) qs \<and>
      (\<forall>rest. dns_run srv send_ok (map (\<lambda>(query, peer). Datagram query peer) qs @ rest) =
       attempt (dns_run srv send_ok rest) (\<lambda>(more, e). Ok (actions @ more, e)))"
    using assms
  proof (induction qs)
    case Nil
    have "attempt r (\<lambda>(more, e). Ok ([] @ more, e)) = r" for r :: "(dns_action list \<times> run_end, unit) res"
      by (cases r) auto
    then show ?case by (intro exI [of _ "[]"]) simp
  next
    case (Cons x qs)
    obtain query peer where x: "x = (query, peer)" by (cases x)
    obtain actions where IH: "map Ok actions = map (dns_dispatch srv) qs"
      "\<And>rest. dns_run srv send_ok (map (\<lambda>(query, peer). Datagram query peer) qs @ rest) =
       attempt (dns_run srv send_ok rest) (\<lambda>(more, e). Ok (actions @ more, e))"
      using Cons by auto
    obtain a where a: "dns_dispatch srv (query, peer) = Ok a" by (auto simp: dns_dispatch_eq)
    have "attempt (attempt r (\<lambda>(more, e). Ok (actions @ more, e))) (\<lambda>(actions, e). Ok (a # actions, e)) =
        attempt r (\<lambda>(more, e). Ok ((a # actions) @ more, e))"
      for r :: "(dns_action list \<times> run_end, unit) res"
      by (cases r) auto
    with IH a Cons.prems x show ?case
      by (intro exI [of _ "a # actions"]) (auto split: dns_action.split)
  qed
  then obtain actions where A: "map Ok actions = map (dns_dispatch srv) qs"
    "\<And>rest. dns_run srv send_ok (map (\<lambda>(query, peer). Datagram query peer) qs @ rest) =
       attempt (dns_run srv send_ok rest) (\<lambda>(more, e). Ok (actions @ more, e))"
    by blast
  then show ?thesis by (intro exI [of _ actions]) (auto simp: A(2))
qed

definition sample_server :: dns_server where
  "sample_server =
     \<lparr>srv_config = dns_config_default\<lparr>dns_mode_of := Gateway\<rparr>, srv_gateway_ip = Some (Ipv4Addr 192 168 137 1)\<rparr>"

definition sample_peer :: socket_addr where
  "sample_peer = \<lparr>sa_ip = V4 (Ipv4Addr 192 168 137 20), sa_port = 53001\<rparr>"

theorem dns_run_spec_witness:
  "\<exists>actions. dns_run sample_server (\<lambda>_. True) [Datagram sample_query sample_peer, Recv_error] =
     Ok (actions, Ended_recv_error) \<and> map Ok actions = map (dns_dispatch sample_server) [(sample_query, sample_peer)]"
proof -
  have h: "list_all (\<lambda>(query, peer). case dns_dispatch sample_server (query, peer) of Ok (Answer d) \<Rightarrow> True | _ \<Rightarrow> True)
      [(sample_query, sample_peer)]"
    by (auto split: res.split dns_action.split)
  show ?thesis using dns_run_spec [OF h, of "[Recv_error]"] by auto
qed

text \<open>A forwarding task sends the client nothing but a datagram that came from the upstream
  resolver's address, unchanged and once, and the resolver nothing but the client's query, from a
  socket of the resolver's address family; it sends the reply exactly when nothing failed.\<close>

theorem forward_dns_query_spec:
  "let (trace, r) = forward_dns_query env peer query upstream in
     (tr_client trace = [] \<or>
        (\<exists>response source. fe_recv env = Response response source \<and> sa_ip source = sa_ip upstream \<and>
           tr_client trace = [(response, peer)] \<and> r = Ok () \<and> fe_bind_ok env \<and> fe_send_ok env \<and> fe_reply_ok env)) \<and>
     tr_upstream trace = (if fe_bind_ok env \<and> fe_send_ok env then [(query, upstream)] else []) \<and>
     tr_bound trace = (if fe_bind_ok env then Some (wildcard_bind_addr upstream) else None) \<and>
     is_ipv4 (wildcard_bind_addr upstream) = is_ipv4 upstream \<and>
     (tr_client trace \<noteq> [] \<longleftrightarrow> fe_bind_ok env \<and> fe_send_ok env \<and> fe_reply_ok env \<and>
        (case fe_recv env of Response response source \<Rightarrow> sa_ip source = sa_ip upstream | _ \<Rightarrow> False))"
  by (auto simp: forward_dns_query_def Let_def wildcard_bind_addr_def is_ipv4_def split: upstream_recv.splits)

end
