(* ===== verification/Gateway_Mode.thy ===== *)
theory Gateway_Mode
  imports Dns Datapath
begin

section \<open>Gateway mode from end to end\<close>

text \<open>
  The path of a client in gateway mode through three components: its DNS query is answered with the
  address of the gateway (\<open>Dns\<close>), its connection to that address passes the redirector unchanged
  (\<open>Redirector\<close>), and the listener on port 443 connects to the host its ClientHello names
  (\<open>Gateway\<close>, \<open>Tls\<close>). The lemmas show that the buffered reader gets what the client sends, however
  it is split into segments.
\<close>

subsection \<open>Reading from segments\<close>

lemma buf_read_chunks:
  assumes "list_all (\<lambda>b. b \<noteq> []) bs" "br_inner r = map Chunk bs @ tail" "n \<noteq> 0"
    and "br_buffer r @ concat bs \<noteq> []"
  obtains b r' bs' where "buf_read n r = Some (b, r')" "b \<noteq> []" "length b \<le> n"
    and "br_inner r' = map Chunk bs' @ tail" "list_all (\<lambda>b. b \<noteq> []) bs'"
    and "b @ br_buffer r' @ concat bs' = br_buffer r @ concat bs"
proof (cases "br_buffer r = []")
  case False
  with assms show thesis
    by (intro that [of "take n (br_buffer r)" "r\<lparr>br_buffer := drop n (br_buffer r)\<rparr>" bs])
      (simp_all add: buf_read_def)
next
  case True
  with assms(4) obtain x xs where bs: "bs = x # xs" by (cases bs) auto
  define left where "left = (\<lambda>m. if length x \<le> m then xs else drop m x # xs)"
  have left: "list_all (\<lambda>b. b \<noteq> []) (left m)" "take m x @ concat (left m) = concat bs" for m
    using assms(1) by (auto simp: left_def bs simp flip: append_assoc)
  have some: "read_some m (br_inner r) = Some (take m x, map Chunk (left m) @ tail)" for m
    by (simp add: assms(2) bs left_def)
  have x: "x \<noteq> []" using assms(1) bs by simp
  show thesis
  proof (cases "buf_capacity \<le> n")
    case big: True
    show thesis
      by (rule that [of "take n x" "r\<lparr>br_inner := map Chunk (left n) @ tail\<rparr>" "left n"])
        (use True big x left [of n] assms(3) in \<open>simp_all add: buf_read_def some\<close>)
  next
    case small: False
    have "take n (take buf_capacity x) @ drop n (take buf_capacity x) @ concat (left buf_capacity) = concat bs"
      using left(2) [of buf_capacity] by (metis append_assoc append_take_drop_id)
    moreover have "take n (take buf_capacity x) \<noteq> []" using x assms(3) small by simp
    ultimately show thesis
      by (intro that [of "take n (take buf_capacity x)"
            "r\<lparr>br_buffer := drop n (take buf_capacity x), br_inner := map Chunk (left buf_capacity) @ tail\<rparr>"
            "left buf_capacity"])
        (use True small left [of buf_capacity] in \<open>simp_all add: buf_read_def some\<close>)
  qed
qed

lemma buf_read_exact_chunks:
  assumes "list_all (\<lambda>b. b \<noteq> []) bs" "br_inner r = map Chunk bs @ tail"
    and "n \<le> length (br_buffer r @ concat bs)"
  shows "\<exists>r' bs'. buf_read_exact n r = Ok (take n (br_buffer r @ concat bs), r') \<and>
     br_inner r' = map Chunk bs' @ tail \<and> list_all (\<lambda>b. b \<noteq> []) bs' \<and>
     br_buffer r' @ concat bs' = drop n (br_buffer r @ concat bs)"
  using assms
proof (induction n r arbitrary: bs rule: buf_read_exact.induct)
  case (1 n r)
  show ?case
  proof (cases "n = 0")
    case True
    with 1(2,3) show ?thesis by (subst buf_read_exact.simps) auto
  next
    case False
    with 1(4) have "br_buffer r @ concat bs \<noteq> []" by (metis le_zero_eq list.size(3))
    from buf_read_chunks [OF 1(2,3) False this] obtain b r1 bs1 where
      b: "buf_read n r = Some (b, r1)" "b \<noteq> []" "length b \<le> n"
      and r1: "br_inner r1 = map Chunk bs1 @ tail" "list_all (\<lambda>b. b \<noteq> []) bs1"
      and all: "b @ br_buffer r1 @ concat bs1 = br_buffer r @ concat bs" .
    have "n - length b \<le> length (br_buffer r1 @ concat bs1)" using 1(4) by (simp add: flip: all)
    from 1(1) [OF False b(1) refl b(2) r1(2,1) this] obtain r' bs' where
      "buf_read_exact (n - length b) r1 = Ok (take (n - length b) (br_buffer r1 @ concat bs1), r')"
      "br_inner r' = map Chunk bs' @ tail" "list_all (\<lambda>b. b \<noteq> []) bs'"
      "br_buffer r' @ concat bs' = drop (n - length b) (br_buffer r1 @ concat bs1)"
      by blast
    moreover have "take n (br_buffer r @ concat bs) = b @ take (n - length b) (br_buffer r1 @ concat bs1)"
      "drop n (br_buffer r @ concat bs) = drop (n - length b) (br_buffer r1 @ concat bs1)"
      using b(3) by (simp_all flip: all)
    ultimately show ?thesis using False b
      by (subst buf_read_exact.simps) auto
  qed
qed

text \<open>A handshake record: its header and its body.\<close>

definition hello_record :: "byte \<Rightarrow> byte \<Rightarrow> byte list \<Rightarrow> byte list" where
  "hello_record major minor body = 0x16 # major # minor # to_be16 (word_of_nat (length body)) @ body"

lemma read_tls_sni_chunks:
  assumes "list_all (\<lambda>b. b \<noteq> []) bs" "concat bs = hello_record major minor body @ rest"
    and "1 \<le> length body" "length body \<le> 16384" "parse_tls_sni_from_record body = Ok sni"
  shows "\<exists>reader. read_tls_sni \<lparr>br_buffer = [], br_inner = map Chunk bs @ tail\<rparr> =
     Ok (sni, hello_record major minor body, reader)"
proof -
  let ?r = "\<lparr>br_buffer = [], br_inner = map Chunk bs @ tail\<rparr>"
  define header where "header = 0x16 # major # minor # to_be16 (word_of_nat (length body))"
  have h: "length header = 5" "header ! 0 = 0x16" by (simp_all add: header_def)
  have "to_be16 w ! 0 = ucast (drop_bit 8 w)" "to_be16 w ! 1 = ucast w" for w by (simp_all add: to_be16_def)
  then have len: "unat (from_be16 (header ! 3) (header ! 4)) = length body"
    using assms(4) by (simp add: header_def from_to_be16 len16_unat)
  have all: "concat bs = header @ body @ rest"
    by (simp add: assms(2) header_def hello_record_def)
  have "5 \<le> length (br_buffer ?r @ concat bs)" by (simp add: all h)
  from buf_read_exact_chunks [OF assms(1) _ this, of tail] obtain r1 bs1 where
    r1: "buf_read_exact 5 ?r = Ok (header, r1)" "br_inner r1 = map Chunk bs1 @ tail"
      "list_all (\<lambda>b. b \<noteq> []) bs1" "br_buffer r1 @ concat bs1 = body @ rest"
    by (auto simp: all h)
  have "length body \<le> length (br_buffer r1 @ concat bs1)" by (simp add: r1(4))
  from buf_read_exact_chunks [OF r1(3,2) this] obtain r2 where
    "buf_read_exact (length body) r1 = Ok (body, r2)"
    by (auto simp: r1(4))
  with r1(1) h len assms(3,4,5) show ?thesis
    by (auto simp: read_tls_sni_def Let_def hello_record_def header_def)
qed

text \<open>A ClientHello whose first server name extension lists a host as its first host name.\<close>

definition hello_for :: "str \<Rightarrow> byte list \<Rightarrow> bool" where
  "hello_for host body \<longleftrightarrow>
     (\<exists>len n version_random session ciphers compressions es ns trailing padding.
        body = client_hello len version_random session ciphers compressions es padding \<and>
        length len = 3 \<and> read_u24 len = Ok n \<and> n + 4 \<le> length body \<and>
        length version_random = 34 \<and> length session < 256 \<and> length ciphers < 65536 \<and>
        length compressions < 256 \<and> length (encode_extensions es) < 65536 \<and>
        first_zero es = Some (len16 (encode_names ns) @ trailing) \<and> length (encode_names ns) < 65536 \<and>
        first_zero ns = Some (as_bytes host) \<and> list_all scalar_value host)"

lemma hello_for_parses: "hello_for host body \<Longrightarrow> parse_tls_sni_from_record body = Ok host \<and> 1 \<le> length body"
  unfolding hello_for_def
proof (elim exE conjE)
  fix len n version_random session ciphers compressions es ns trailing padding
  assume b: "body = client_hello len version_random session ciphers compressions es padding"
    and l: "length len = 3" "read_u24 len = Ok n" "n + 4 \<le> length body" "length version_random = 34"
      "length session < 256" "length ciphers < 65536" "length compressions < 256" "length (encode_extensions es) < 65536"
    and f: "first_zero es = Some (len16 (encode_names ns) @ trailing)" "length (encode_names ns) < 65536"
      "first_zero ns = Some (as_bytes host)" "list_all scalar_value host"
  have "parse_tls_sni_from_record body = parse_sni_extension (len16 (encode_names ns) @ trailing)"
    using client_hello_sni [OF l(4-8,1,2)] l(3) f(1) by (simp add: b)
  also have "\<dots> = Ok host" using sni_extension_roundtrip [OF f(2)] f(3,4) by blast
  finally show "parse_tls_sni_from_record body = Ok host \<and> 1 \<le> length body" by (simp add: b client_hello_def)
qed

subsection \<open>Property\<close>

text \<open>C4: Gateway mode leads a client to the host it asks for. Its query for an IPv4 address is answered,
  on the spot, with a message from which it reads the address of the gateway; its packets to port
  443 of that address pass the inbound worker untouched and leave no flow behind; and when it
  sends a ClientHello that names a host, split into segments in any way, the listener connects to
  this host on port 443 and replays the record to it byte for byte.\<close>

theorem gateway_mode_reaches_host:
  assumes "rt_gateway_ip (rc_hotspot c) = V4 g"
    and "dns_mode_of (srv_config srv) = Gateway" "srv_gateway_ip srv = Some g"
    and "parse_single_question query = Ok q" "q_qtype q = 1"
    and "parse_ipv4_packet_meta p = Ok m" "pm_dst_ip m = V4 g" "pm_dst_port m = 443"
    and "hello_for host body" "length body \<le> 16384"
    and "list_all (\<lambda>b. b \<noteq> []) bs" "concat bs = hello_record major minor body @ rest"
    and "dial (from_domain host 443) = Ok upstream" "writes_left upstream \<noteq> 0"
  shows "(\<exists>response. dns_dispatch srv (query, peer) = Ok (Answer (response, peer)) \<and> read_address response = Some g) \<and>
    process_forward_packet c now t p = Ok (Send_packet, t, p) \<and>
    (\<exists>r. relay_gateway dial 443 (map Chunk bs @ tail) = Ok r \<and> rl_destination r = from_domain host 443 \<and>
       outbound (rl_upstream r) = outbound upstream @ hello_record major minor body)"
proof (intro conjI)
  show "\<exists>response. dns_dispatch srv (query, peer) = Ok (Answer (response, peer)) \<and> read_address response = Some g"
    using gateway_response_spec [OF assms(4), of g] assms(2,3,5) by (auto simp: dns_dispatch_def)
  show "process_forward_packet c now t p = Ok (Send_packet, t, p)"
    using assms(1,6,7,8) by (simp add: process_forward_packet_def classify_packet_def)
  from hello_for_parses [OF assms(9)] obtain reader where
    "read_tls_sni \<lparr>br_buffer = [], br_inner = map Chunk bs @ tail\<rparr> = Ok (host, hello_record major minor body, reader)"
    using read_tls_sni_chunks [OF assms(11,12) _ assms(10), of host tail] by blast
  with assms(13,14) show "\<exists>r. relay_gateway dial 443 (map Chunk bs @ tail) = Ok r \<and>
      rl_destination r = from_domain host 443 \<and>
      outbound (rl_upstream r) = outbound upstream @ hello_record major minor body"
    by (simp add: relay_gateway_def relay_tls_gateway_def Let_def upstream_write_Ok attempt_eq_Ok)
qed

text \<open>A connection to port 443 of the gateway, and a ClientHello for a.b.\<close>

definition sample_gateway_tcp :: "byte list" where
  "sample_gateway_tcp =
     [0x45, 0, 0, 40, 0, 0, 0, 0, 64, 6, 0, 0, 192, 168, 137, 20, 192, 168, 137, 1,
      0xc7, 0x38, 0x01, 0xbb, 0, 0, 0, 0, 0, 0, 0, 0, 0x50, 0x02, 0, 0, 0, 0, 0, 0]"

definition sample_hello_for :: "byte list" where
  "sample_hello_for =
     client_hello [0, 0, 61] (replicate 34 0) [] [0x13, 0x01] [0]
       [(10, [0, 0]), (0, len16 (encode_names [(0, as_bytes (lit ''a.b''))]))] []"

lemma hello_forI:
  assumes "body = client_hello len version_random session ciphers compressions es padding"
    and "length len = 3" "read_u24 len = Ok n" "n + 4 \<le> length body"
    and "length version_random = 34" "length session < 256" "length ciphers < 65536" "length compressions < 256"
    and "length (encode_extensions es) < 65536" "first_zero es = Some (len16 (encode_names ns) @ trailing)"
    and "length (encode_names ns) < 65536" "first_zero ns = Some (as_bytes host)" "list_all scalar_value host"
  shows "hello_for host body"
  using assms unfolding hello_for_def by blast

lemma sample_hello_names: "length sample_hello_for = 65" "hello_for (lit ''a.b'') sample_hello_for"
proof -
  let ?es = "[(10, [0, 0]), (0, len16 (encode_names [(0, as_bytes (lit ''a.b''))]))]"
  have "length (as_bytes (lit ''a.b'')) = 3" by code_simp
  then have ns: "length (encode_names [(0, as_bytes (lit ''a.b''))]) = 6" by (simp add: encode_names_def)
  then have es: "length (encode_extensions ?es) = 18" by (simp add: encode_extensions_def)
  then show len: "length sample_hello_for = 65" by (simp add: sample_hello_for_def client_hello_def)
  show "hello_for (lit ''a.b'') sample_hello_for"
    by (rule hello_forI [OF sample_hello_for_def, where n = 61 and ns = "[(0, as_bytes (lit ''a.b''))]" and trailing = "[]"])
      (simp_all only: len es ns, simp_all add: read_u24_def lit_def scalar_value_def)
qed

theorem gateway_mode_reaches_host_witness:
  "\<exists>r. relay_gateway sample_dial 443 [Chunk (hello_record 3 1 sample_hello_for)] = Ok r \<and>
     rl_destination r = from_domain (lit ''a.b'') 443"
proof -
  let ?m = "\<lparr>pm_protocol = Tcp, pm_src_ip = V4 (Ipv4Addr 192 168 137 20), pm_src_port = 51000,
      pm_dst_ip = V4 (Ipv4Addr 192 168 137 1), pm_dst_port = 443\<rparr>"
  let ?upstream = "\<lparr>inbound = [], outbound = [], writes_left = 9\<rparr>"
  have p: "parse_ipv4_packet_meta sample_gateway_tcp = Ok ?m" by code_simp
  have s: "dns_mode_of (srv_config sample_server) = Gateway" "srv_gateway_ip sample_server = Some (Ipv4Addr 192 168 137 1)"
    by (simp_all add: sample_server_def)
  have q: "q_qtype \<lparr>q_qtype = 1, q_question_end = 21\<rparr> = 1" by simp
  have l: "length sample_hello_for \<le> 16384" by (simp add: sample_hello_names)
  have c: "list_all (\<lambda>b. b \<noteq> []) [hello_record 3 1 sample_hello_for]"
    "concat [hello_record 3 1 sample_hello_for] = hello_record 3 1 sample_hello_for @ []"
    by (simp_all add: hello_record_def)
  have d: "sample_dial (from_domain (lit ''a.b'') 443) = Ok ?upstream" "writes_left ?upstream \<noteq> 0"
    by (simp_all add: sample_dial_def)
  have m: "pm_dst_ip ?m = V4 (Ipv4Addr 192 168 137 1)" "pm_dst_port ?m = 443" by simp_all
  from gateway_mode_reaches_host [where peer = sample_peer and now = 5 and t = "ft_new 4" and
      bs = "[hello_record 3 1 sample_hello_for]" and major = 3 and minor = 1 and
      rest = "[]" and tail = "[]" and m = ?m and dial = sample_dial and upstream = ?upstream and body = sample_hello_for,
      OF sample_fields(1) s sample_query_parses q p m sample_hello_names(2) l c d]
  show ?thesis by auto
qed

end
