(* ===== verification/Relay_Log.thy ===== *)
theory Relay_Log
  imports Datapath
begin

section \<open>The diagnostic lines of the relays (src/src/proxy.rs, src/src/flow.rs)\<close>

text \<open>
  A relay reports the flow it has found and the host it connects to through a bounded log: a
  counter shared by all relay tasks and a line below the limit. The counter is a natural number
  here, the code's \<open>AtomicUsize\<close> would wrap around after \<open>2 ^ 64\<close> lines. The lemmas show that
  exactly the first calls print, in whatever order the tasks make them, and what a relay says.
\<close>

definition tcp_relay_diag_limit :: nat where
  "tcp_relay_diag_limit = 64"

definition show_flow_key :: "flow_key \<Rightarrow> str" where
  "show_flow_key key =
     show_protocol (fk_protocol key) @ lit ''/'' @ show_ip (fk_client_ip key) @ lit '':'' @
     show_nat (unat (fk_client_port key))"

definition log_tcp_relay_diag :: "nat \<Rightarrow> str \<Rightarrow> nat \<times> str option" where
  "log_tcp_relay_diag line args =
     (line + 1,
      if tcp_relay_diag_limit \<le> line then None else Some (lit ''hproxy tcp relay: '' @ args))"

text \<open>What \<open>relay_one\<close> and the two gateway relays hand to the log before they connect.\<close>

definition relay_one_line :: "instant \<Rightarrow> flow_table \<Rightarrow> flow_key \<Rightarrow> str" where
  "relay_one_line now table key =
     (case ft_get now table key of
        (None, _) \<Rightarrow> lit ''missing flow for accepted client '' @ show_flow_key key
      | (Some flow, _) \<Rightarrow>
          lit ''accepted '' @ show_flow_key key @ lit ''; connecting upstream '' @
          show_destination (from_ip (original_dst_ip flow) (original_dst_port flow)))"

definition gateway_http_line :: "destination \<Rightarrow> str" where
  "gateway_http_line destination = lit ''gateway http; connecting upstream '' @ show_destination destination"

definition gateway_tls_line :: "destination \<Rightarrow> str" where
  "gateway_tls_line destination = lit ''gateway tls; connecting upstream '' @ show_destination destination"

text \<open>The lines that appear for a sequence of calls, from a value of the counter.\<close>

fun printed_lines :: "nat \<Rightarrow> str list \<Rightarrow> str list" where
  "printed_lines line [] = []"
| "printed_lines line (args # rest) =
     (case log_tcp_relay_diag line args of
        (line', Some printed) \<Rightarrow> printed # printed_lines line' rest
      | (line', None) \<Rightarrow> printed_lines line' rest)"

lemma printed_lines_take:
  "printed_lines line calls = map ((@) (lit ''hproxy tcp relay: '')) (take (tcp_relay_diag_limit - line) calls)"
proof (induction calls arbitrary: line)
  case (Cons args rest)
  show ?case
  proof (cases "tcp_relay_diag_limit \<le> line")
    case False
    then have "tcp_relay_diag_limit - line = Suc (tcp_relay_diag_limit - (line + 1))" by simp
    with Cons False show ?thesis by (simp add: log_tcp_relay_diag_def)
  qed (use Cons in \<open>simp add: log_tcp_relay_diag_def\<close>)
qed simp

text \<open>The log prints the first 64 calls of the process and no other, each with its own words.\<close>

theorem first_relays_are_logged:
  "printed_lines 0 calls = map ((@) (lit ''hproxy tcp relay: '')) (take 64 calls) \<and>
   length (printed_lines 0 calls) \<le> 64"
  using printed_lines_take [of 0 calls] by (simp add: tcp_relay_diag_limit_def)

text \<open>What a transparent relay says is what it does: it names the destination it connects to exactly if
  it connects to one.\<close>

theorem relay_line_is_true:
  "(\<exists>d. relay_one_line now table key = lit ''accepted '' @ show_flow_key key @ lit ''; connecting upstream '' @
       show_destination d \<and> snd (relay_begin dial now table client key) =
         attempt (map_err Connecting (dial d)) (\<lambda>upstream.
           Ok \<lparr>rl_destination = d, rl_upstream = upstream, rl_client = client\<rparr>)) \<or>
   (relay_one_line now table key = lit ''missing flow for accepted client '' @ show_flow_key key \<and>
     snd (relay_begin dial now table client key) = Err Missing_flow)"
  by (cases "ft_get now table key"; cases "fst (ft_get now table key)")
    (auto simp: relay_one_line_def relay_begin_def Let_def)

end
