(* ===== verification/Diagnostics.thy ===== *)
theory Diagnostics
  imports App
begin

section \<open>The doctor command (src/src/app.rs)\<close>

text \<open>
  \<open>hproxy doctor\<close> prints what the probes of \<open>Doctor\<close> found and, when it is asked to, opens and
  closes the capture handles, starts and stops the hotspot and dials through the outbound proxy.
  The text of an error, which the live probe prints, is the argument \<open>describe\<close>.

  The lemmas show that the command leaves nothing behind: it acts only on what it was asked to,
  holds no handle afterwards, and the live probe stops every hotspot it has started.
\<close>

datatype doctor_error =
  Dns_probe_port_zero
| Open_probe_failed driver_error
| Host_probe_failed probe_error
| Live_start_failed control_error
| Live_query_failed control_error
| Live_not_running hotspot_status
| Live_not_discovered control_error
| Live_stop_failed control_error
| Live_stop_failed_too control_error
| Build_probe_failed probe_error
| Doctor_proxy config_error
| Doctor_connector connect_error
| Doctor_timeout_zero
| Doctor_outbound outbound_error

subsection \<open>The report\<close>

definition format_bool :: "bool \<Rightarrow> str" where
  "format_bool b = (if b then lit ''yes'' else lit ''no'')"

definition format_optional_bool :: "bool option \<Rightarrow> str" where
  "format_optional_bool b =
     (case b of
        Some True \<Rightarrow> lit ''yes''
      | Some False \<Rightarrow> lit ''no''
      | None \<Rightarrow> lit ''unknown'')"

definition or_else :: "str option \<Rightarrow> str \<Rightarrow> str" where
  "or_else x d = (case x of Some s \<Rightarrow> s | None \<Rightarrow> d)"

text \<open>\<open>SocketAddr\<close> as it is displayed.\<close>

definition show_socket_addr :: "socket_addr \<Rightarrow> str" where
  "show_socket_addr a =
     (case sa_ip a of
        V4 ip \<Rightarrow> show_ipv4 ip
      | V6 ip \<Rightarrow> lit ''['' @ show_ipv6 ip @ lit '']'') @ lit '':'' @ show_nat (unat (sa_port a))"

definition windivert_lines :: "windivert_probe \<Rightarrow> str list" where
  "windivert_lines w =
     [lit ''WinDivert files present: '' @ format_bool (files_present w),
      lit ''WinDivert usable on this host: '' @ format_bool (usable_on_this_host w),
      lit ''WinDivert.dll: '' @ or_else (wp_dll_path w) (lit ''missing''),
      lit ''WinDivert64.sys: '' @ or_else (wp_driver_path w) (lit ''missing'')]"

definition host_probe_lines :: "host_probe \<Rightarrow> str list" where
  "host_probe_lines p =
     (if hp_probe_available p
      then
        [lit ''host probe: available through powershell.exe'',
         lit ''wifi driver: '' @ or_else (hp_wifi_driver p) (lit ''unknown''),
         lit ''legacy hostednetwork supported: '' @ format_optional_bool (hp_hosted_network_supported p),
         lit ''station mode supported: '' @ format_optional_bool (hp_station_supported p),
         lit ''classic soft ap supported: '' @ format_optional_bool (hp_soft_ap_supported p),
         lit ''wi-fi direct go supported: '' @ format_optional_bool (hp_wifi_direct_go_supported p),
         lit ''p2p max mobile ap clients: '' @
           or_else (map_option (\<lambda>n. show_nat (unat n)) (hp_p2p_max_mobile_ap_clients p)) (lit ''unknown''),
         lit ''wi-fi direct virtual adapters: '' @ show_nat (hp_wifi_direct_virtual_adapters p),
         lit ''mobile hotspot service: '' @ or_else (hp_mobile_hotspot_service_status p) (lit ''unknown''),
         lit ''mobile hotspot path likely supported: '' @ format_optional_bool (mobile_hotspot_likely_supported p)]
      else [lit ''host probe: unavailable; powershell.exe was not found''])"

definition build_tool_lines :: "build_tool_probe \<Rightarrow> str list" where
  "build_tool_lines b =
     (if bt_probe_available b
      then
        [lit ''windows native toolchain ready: '' @ format_optional_bool (native_windows_toolchain_ready b),
         lit ''wfp driver sdk ready: '' @ format_optional_bool (wfp_driver_sdk_ready b),
         lit ''windows rustc: '' @ or_else (bt_rustc_version b) (lit ''missing''),
         lit ''windows cargo: '' @ or_else (bt_cargo_version b) (lit ''missing''),
         lit ''windows dotnet sdk: '' @ or_else (bt_dotnet_sdk_version b) (lit ''missing''),
         lit ''visual studio: '' @ or_else (bt_visual_studio_path b) (lit ''missing''),
         lit ''msvc toolset: '' @ or_else (bt_msvc_version b) (lit ''missing''),
         lit ''cl.exe: '' @ or_else (bt_cl_path b) (lit ''missing''),
         lit ''msbuild: '' @ or_else (bt_msbuild_path b) (lit ''missing''),
         lit ''windows sdk: '' @ or_else (bt_windows_sdk_version b) (lit ''missing''),
         lit ''signtool: '' @ or_else (bt_signtool_path b) (lit ''missing''),
         lit ''wfp header: '' @ or_else (bt_wfp_header_path b) (lit ''missing'')]
      else [lit ''windows build tool probe: unavailable; powershell.exe was not found''])"

subsection \<open>The live probe of the hotspot\<close>

definition live_checks :: "'w h_proxy_app \<Rightarrow> ('w host, unit, doctor_error) io" where
  "live_checks app =
     perform (wrap Live_query_failed (hc_status (app_hotspot app))) (\<lambda>status.
     perform (println (lit ''hotspot live probe status: '' @ show_status status)) (\<lambda>_.
     perform (if status \<noteq> Running then fail (Live_not_running status) else give ()) (\<lambda>_.
     perform (wrap Live_query_failed (hc_access_point (app_hotspot app))) (\<lambda>access_point.
     perform (println (case access_point of
         Some ap \<Rightarrow> lit ''hotspot live probe SSID: '' @ ap_ssid ap
       | None \<Rightarrow> lit ''hotspot live probe SSID: unknown'')) (\<lambda>_.
     perform (wrap Live_not_discovered (app_discover_hotspot app)) (\<lambda>runtime.
     for_each println
       [lit ''hotspot live probe private interface index: '' @ show_nat (unat (rt_interface_index runtime)),
        lit ''hotspot live probe gateway: '' @ show_ip (rt_gateway_ip runtime),
        lit ''hotspot live probe subnet: '' @ show_ipv4 (cidr_address (rt_subnet runtime)) @ lit ''/'' @
          show_nat (unat (cidr_prefix_len (rt_subnet runtime)))]))))))"

definition run_hotspot_live_probe ::
  "(doctor_error \<Rightarrow> str) \<Rightarrow> 'w h_proxy_app \<Rightarrow> hotspot_config \<Rightarrow> ('w host, unit, doctor_error) io" where
  "run_hotspot_live_probe describe app config =
     perform (println (lit ''hotspot live probe: starting SSID '' @ hs_ssid config)) (\<lambda>_.
     perform (wrap Live_start_failed (hc_start (app_hotspot app) config)) (\<lambda>_.
     caught (live_checks app) (\<lambda>probe_result.
     perform (case probe_result of
         Err x \<Rightarrow> println (lit ''hotspot live probe: failed before cleanup: '' @ describe x)
       | _ \<Rightarrow> give ()) (\<lambda>_.
     caught (hc_stop (app_hotspot app)) (\<lambda>stop_result.
     case stop_result of
       Ok _ \<Rightarrow>
         perform (println (lit ''hotspot live probe cleanup: stopped'')) (\<lambda>_.
         perform (from_res probe_result) (\<lambda>_.
         println (lit ''hotspot live probe: ok'')))
     | Err x \<Rightarrow>
         if \<not> is_ok probe_result then fail (Live_stop_failed_too x) else fail (Live_stop_failed x)
     | Panic \<Rightarrow> from_res Panic)))))"

subsection \<open>The command\<close>

definition check_outbound ::
  "'w outside \<Rightarrow> proxy_config \<Rightarrow> socket_addr option \<Rightarrow> u64 \<Rightarrow> ('w host, unit, doctor_error) io" where
  "check_outbound out proxy proxy_probe_target proxy_probe_timeout_ms =
     perform (wrap Doctor_proxy (from_res (validate_proxy proxy))) (\<lambda>_.
     perform (wrap Doctor_connector (from_res (connector_from_config proxy))) (\<lambda>connector.
     perform (println (lit ''outbound proxy config: ok'')) (\<lambda>_.
     case proxy_probe_target of
       Some target \<Rightarrow>
         perform (if proxy_probe_timeout_ms = 0 then fail Doctor_timeout_zero else give ()) (\<lambda>_.
         perform (wrap Doctor_outbound (probe_outbound_connector out connector target proxy_probe_timeout_ms)) (\<lambda>_.
         println (lit ''outbound proxy probe to '' @ show_socket_addr target @ lit '': ok'')))
     | None \<Rightarrow>
         println (lit ''outbound proxy probe: skipped; pass --proxy-probe-target to test it''))))"

definition doctor ::
  "(doctor_error \<Rightarrow> str) \<Rightarrow> 'w shell \<Rightarrow> search_env \<Rightarrow> 'w outside \<Rightarrow> 'w h_proxy_app \<Rightarrow>
     proxy_config option \<Rightarrow> socket_addr option \<Rightarrow> u64 \<Rightarrow> bool \<Rightarrow> u16 \<Rightarrow> hotspot_config option \<Rightarrow>
     ('w host, unit, doctor_error) io" where
  "doctor describe sh search out app outbound_proxy proxy_probe_target proxy_probe_timeout_ms
     windivert_open_probe windivert_probe_dns_port hotspot_live_probe =
     perform (for_each println
       ([lit ''host OS: windows'', lit ''windows hotspot control: true'', lit ''WinDivert datapath: true''] @
        windivert_lines (run_windivert_probe search))) (\<lambda>_.
     perform (if windivert_open_probe
       then
         perform (if windivert_probe_dns_port = 0 then fail Dns_probe_port_zero else give ()) (\<lambda>_.
         perform (wrap Open_probe_failed
           (pr_preflight (app_redirector app) \<lparr>rpc_dns_proxy_port = windivert_probe_dns_port\<rparr>)) (\<lambda>_.
         println (lit ''WinDivert open probe: ok'')))
       else println (lit ''WinDivert open probe: skipped; pass --windivert-open-probe to test it'')) (\<lambda>_.
     perform (wrap Host_probe_failed (run_host_probe sh)) (\<lambda>probe.
     perform (for_each println (host_probe_lines probe)) (\<lambda>_.
     perform (case hotspot_live_probe of
         Some hotspot_config \<Rightarrow> run_hotspot_live_probe describe app hotspot_config
       | None \<Rightarrow> println (lit ''hotspot live probe: skipped; pass --hotspot-live-probe to start and stop it'')) (\<lambda>_.
     perform (wrap Build_probe_failed (run_build_tool_probe sh)) (\<lambda>build_tools.
     perform (for_each println (build_tool_lines build_tools)) (\<lambda>_.
     case outbound_proxy of
       Some proxy \<Rightarrow> check_outbound out proxy proxy_probe_target proxy_probe_timeout_ms
     | None \<Rightarrow> give ())))))))"

subsection \<open>What the command may act on\<close>

definition doctor_action :: "bool \<Rightarrow> bool \<Rightarrow> action \<Rightarrow> bool" where
  "doctor_action open live a =
     (case a of
        Printed s \<Rightarrow> True
      | Run_powershell s \<Rightarrow> True
      | Dialed d \<Rightarrow> True
      | Opened i f \<Rightarrow> open
      | Shut_down i \<Rightarrow> open
      | Closed i \<Rightarrow> open
      | Configure_tethering s \<Rightarrow> live
      | Start_tethering \<Rightarrow> live
      | Stop_tethering \<Rightarrow> live
      | _ \<Rightarrow> False)"

text \<open>The redirector in a state, everything else of the process as before, and only such actions.\<close>

definition diagnosed :: "(nat list \<Rightarrow> 'w host \<Rightarrow> bool) \<Rightarrow> bool \<Rightarrow> bool \<Rightarrow> 'w host \<Rightarrow> 'w host \<Rightarrow> bool" where
  "diagnosed idle open live h h' \<longleftrightarrow>
     (\<forall>B. idle B h \<longrightarrow> idle B h' \<and> sockets h' = sockets h \<and> tasks h' = tasks h \<and>
       (\<exists>new. actions h' = actions h @ new \<and> list_all (doctor_action open live) new))"

lemma reflp_diagnosed: "reflp (diagnosed idle open live)"
  by (rule reflpI) (simp add: diagnosed_def)

lemma transp_diagnosed: "transp (diagnosed idle open live)"
  by (rule transpI) (fastforce simp: diagnosed_def)

lemmas keeps_diagnosed =
  keeps_give [OF reflp_diagnosed] keeps_fail [OF reflp_diagnosed]
  keeps_from_res [OF reflp_diagnosed] keeps_perform [OF transp_diagnosed] keeps_wrap
  keeps_caught [OF transp_diagnosed] keeps_if

lemma keeps_mono: "keeps R m \<Longrightarrow> (\<And>s s'. R s s' \<Longrightarrow> S s s') \<Longrightarrow> keeps S m"
  by (simp add: keeps_def)

lemma doctor_action_simps [simp]:
  "doctor_action open live (Printed s)" "doctor_action open live (Run_powershell s)"
  "doctor_action open live (Dialed d)"
  "hotspot_action a \<Longrightarrow> doctor_action open True a" "capture_action a \<Longrightarrow> doctor_action True live a"
  by (auto simp: doctor_action_def hotspot_action_def capture_action_def split: action.splits)

lemma keeps_run_host_probe: "keeps (only_acts (doctor_action False False)) (run_host_probe sh)"
  unfolding run_host_probe_def powershell_def powershell_named_def
  by (intro keeps_acts keeps_powershell_available keeps_powershell) simp_all

lemma keeps_run_build_tool_probe: "keeps (only_acts (doctor_action False False)) (run_build_tool_probe sh)"
  unfolding run_build_tool_probe_def powershell_def powershell_named_def
  by (intro keeps_acts keeps_powershell_available keeps_powershell) simp_all

lemma keeps_probe_connector:
  "keeps (only_acts (doctor_action False False)) (probe_outbound_connector out k target ms)"
proof -
  have "keeps (only_acts (doctor_action False False)) (\<lambda>h. case out_connect_time out k d (world h) of
        (elapsed, w) \<Rightarrow>
              if unat t < elapsed
              then (Err (Probe_timed_out target), h\<lparr>clock := clock h + unat t, world := w\<rparr>)
              else
                (map_err (Probe_connect_failed target)
                   (attempt (connect (out_net out (world h)) k d) (\<lambda>_. Ok ())),
                 h\<lparr>clock := clock h + elapsed, world := w\<rparr>))" for d t
    by (auto simp: keeps_def only_acts_def split: prod.split)
  then show ?thesis
    unfolding probe_outbound_connector_def Let_def
    by (intro keeps_acts) simp_all
qed

lemma keeps_println_each: "keeps (only_acts (doctor_action open live)) (for_each println xs)"
  by (induction xs) (auto intro!: keeps_acts)

lemma keeps_check_outbound:
  "keeps (only_acts (doctor_action False False)) (check_outbound out proxy target ms)"
  unfolding check_outbound_def
  by (intro keeps_acts keeps_probe_connector) (auto intro!: keeps_acts keeps_probe_connector split: option.split)

context application
begin

lemma acts_diagnosed:
  "keeps (only_acts A) m \<Longrightarrow> (\<And>a. A a \<Longrightarrow> doctor_action open live a) \<Longrightarrow> keeps (diagnosed idle open live) m"
proof (erule keeps_mono)
  fix h h' :: "'w host"
  assume "only_acts A h h'" and "\<And>a. A a \<Longrightarrow> doctor_action open live a"
  then show "diagnosed idle open live h h'"
    using red.idle_local [OF only_acts_untouched] list.pred_mono_strong
    by (fastforce simp: diagnosed_def only_acts_def)
qed

lemma preflight_diagnosed: "keeps (diagnosed idle True live) (pr_preflight (app_redirector app) c)"
  unfolding keeps_def
proof
  fix h
  have "capture_frame h (snd (pr_preflight (app_redirector app) c h))"
    using red.preflight_frame unfolding keeps_def by blast
  then show "diagnosed idle True live h (snd (pr_preflight (app_redirector app) c h))"
    using red.preflight_idle list.pred_mono_strong
    by (fastforce simp: diagnosed_def capture_frame_def)
qed

lemma live_probe_diagnosed: "keeps (diagnosed idle open True) (run_hotspot_live_probe describe app config)"
proof -
  have q: "keeps (diagnosed idle open True) (println x)" "keeps (diagnosed idle open True) (for_each println xs)" for x xs
    by (rule acts_diagnosed [OF keeps_println], auto) (rule acts_diagnosed [OF keeps_println_each], auto)
  have hs: "keeps (diagnosed idle open True) (hc_start (app_hotspot app) config)"
    "keeps (diagnosed idle open True) (hc_stop (app_hotspot app))"
    "keeps (diagnosed idle open True) (hc_status (app_hotspot app))"
    "keeps (diagnosed idle open True) (hc_access_point (app_hotspot app))"
    "keeps (diagnosed idle open True) (app_discover_hotspot app)"
    by (rule acts_diagnosed [OF start_acts] acts_diagnosed [OF stop_acts] acts_diagnosed [OF status_acts]
        acts_diagnosed [OF access_point_acts] acts_diagnosed [OF discover_acts], simp)+
  have "keeps (diagnosed idle open True) (live_checks app)"
    unfolding live_checks_def by (intro keeps_diagnosed q hs)
  then show ?thesis
    unfolding run_hotspot_live_probe_def
    by (intro keeps_diagnosed q hs) (auto intro!: keeps_diagnosed q split: res.split)
qed

lemma doctor_diagnosed:
  "keeps (diagnosed idle open_probe (live \<noteq> None))
     (doctor describe sh search out app proxy target ms open_probe port live)"
proof -
  let ?R = "diagnosed idle open_probe (live \<noteq> None)"
  have q: "keeps ?R (println x)" "keeps ?R (for_each println xs)" for x xs
    by (rule acts_diagnosed [OF keeps_println], auto) (rule acts_diagnosed [OF keeps_println_each], auto)
  have mono: "doctor_action False False a \<Longrightarrow> doctor_action open_probe (live \<noteq> None) a" for a
    by (auto simp: doctor_action_def split: action.splits)
  have probes: "keeps ?R (run_host_probe sh)" "keeps ?R (run_build_tool_probe sh)"
    "keeps ?R (check_outbound out p target ms)" for p
    by (rule acts_diagnosed [OF keeps_run_host_probe mono] acts_diagnosed [OF keeps_run_build_tool_probe mono]
        acts_diagnosed [OF keeps_check_outbound mono], assumption)+
  have proxied: "keeps ?R (case proxy of Some p \<Rightarrow> check_outbound out p target ms | None \<Rightarrow> give ())"
    using probes(3) keeps_diagnosed(1) by (cases proxy) simp_all
  have opened: "keeps ?R (if open_probe
       then
         perform (if port = 0 then fail Dns_probe_port_zero else give ()) (\<lambda>_.
         perform (wrap Open_probe_failed
           (pr_preflight (app_redirector app) \<lparr>rpc_dns_proxy_port = port\<rparr>)) (\<lambda>_.
         println x))
       else println y)" for x y
  proof (cases open_probe)
    case True
    have "keeps ?R (pr_preflight (app_redirector app) \<lparr>rpc_dns_proxy_port = port\<rparr>)"
      unfolding eqTrueI [OF True] by (rule preflight_diagnosed)
    then show ?thesis unfolding if_P [OF True] by (intro keeps_diagnosed q)
  qed (use q in simp)
  have live: "keeps ?R (case live of Some c \<Rightarrow> run_hotspot_live_probe describe app c | None \<Rightarrow> println x)" for x
    using live_probe_diagnosed [of open_probe] q by (cases live) simp_all
  show ?thesis
    unfolding doctor_def
    by (rule opened q live probes proxied keeps_perform [OF transp_diagnosed] keeps_wrap)+
qed

lemma live_checks_return: "never_panics (live_checks app)"
proof -
  have "never_panics (for_each println xs)" for xs
    by (induction xs) (auto intro!: panics_never)
  then show ?thesis
    unfolding live_checks_def by (intro panics_never hotspot_returns)
qed

text \<open>The live probe ends with a stop of the hotspot and a message, if the start succeeded.\<close>

lemma live_probe_stops:
  assumes "run_hotspot_live_probe describe app config h = (r, h')"
  shows "(\<exists>x. r = Err (Live_start_failed x)) \<or>
     (\<exists>h1 y h2. hc_stop (app_hotspot app) h1 = (y, h2) \<and> world h' = world h2 \<and>
       (case r of
          Ok _ \<Rightarrow> y = Ok ()
        | Err x \<Rightarrow> y = Ok () \<or> (\<exists>z. y = Err z \<and> (x = Live_stop_failed z \<or> x = Live_stop_failed_too z))
        | Panic \<Rightarrow> False))"
proof -
  let ?h = "h\<lparr>actions := actions h @ [Printed (lit ''hotspot live probe: starting SSID '' @ hs_ssid config)]\<rparr>"
  obtain r1 h1 where st: "hc_start (app_hotspot app) config ?h = (r1, h1)" by fastforce
  have "r1 \<noteq> Panic" using hotspot_returns(1) st unfolding never_panics_def by (metis fst_conv)
  obtain r2 h2 where ch: "live_checks app h1 = (r2, h2)" by fastforce
  have r2: "r2 \<noteq> Panic" using live_checks_return ch unfolding never_panics_def by (metis fst_conv)
  let ?h3 = "case r2 of
      Err x \<Rightarrow> h2\<lparr>actions := actions h2 @ [Printed (lit ''hotspot live probe: failed before cleanup: '' @ describe x)]\<rparr>
    | _ \<Rightarrow> h2"
  obtain y h4 where sp: "hc_stop (app_hotspot app) ?h3 = (y, h4)" by fastforce
  have y: "y \<noteq> Panic" using hotspot_returns(2) sp unfolding never_panics_def by (metis fst_conv)
  show ?thesis
  proof (cases r1)
    case (Err x)
    with st assms have "r = Err (Live_start_failed x)"
      by (simp add: run_hotspot_live_probe_def perform_def println_def emit_def wrap_def)
    then show ?thesis by blast
  next
    case Ok
    with st ch sp r2 y assms have "world h' = world h4 \<and>
       (case r of
          Ok _ \<Rightarrow> y = Ok ()
        | Err x \<Rightarrow> y = Ok () \<or> (\<exists>z. y = Err z \<and> (x = Live_stop_failed z \<or> x = Live_stop_failed_too z))
        | Panic \<Rightarrow> False)"
      by (cases r2; cases y)
        (auto simp: run_hotspot_live_probe_def perform_def println_def emit_def wrap_def caught_def give_def
          from_res_def fail_def)
    with sp show ?thesis by blast
  qed (use \<open>r1 \<noteq> Panic\<close> in simp)
qed

text \<open>Where the redirector is idle, the doctor command returns whatever its probes answer.\<close>

lemma returns_idle:
  assumes "never_panics m" and "keeps (only_acts A) m"
  shows "holds (idle B) m (\<lambda>_. idle B) (\<lambda>_. idle B)"
  by (rule holds_keeps [OF assms]) (auto intro: red.idle_local only_acts_untouched)

lemma preflight_returns:
  "holds (idle B) (pr_preflight (app_redirector app) c) (\<lambda>_. idle B) (\<lambda>_. idle B)"
proof (rule holdsI)
  fix h assume "idle B h"
  then show "(\<exists>a s'. pr_preflight (app_redirector app) c h = (Ok a, s') \<and> idle B s') \<or>
      (\<exists>e s'. pr_preflight (app_redirector app) c h = (Err e, s') \<and> idle B s')"
    using red.preflight_idle [of B h c]
    by (cases "pr_preflight (app_redirector app) c h"; cases "fst (pr_preflight (app_redirector app) c h)") auto
qed

lemma probes_return:
  "never_panics (run_host_probe sh)" "never_panics (run_build_tool_probe sh)"
  unfolding run_host_probe_def run_build_tool_probe_def
  by (intro panics_never never_panics_shell)+

lemma live_probe_returns: "never_panics (run_hotspot_live_probe describe app config)"
proof -
  have "never_panics (case r of
         Err x \<Rightarrow> println (lit ''hotspot live probe: failed before cleanup: '' @ describe x)
       | _ \<Rightarrow> give ())" for r :: "(unit, doctor_error) res"
    by (cases r) (auto intro: panics_never)
  then show ?thesis
    unfolding run_hotspot_live_probe_def
    by (intro panics_never hotspot_returns live_checks_return)
      (auto intro!: panics_never)
qed

end

lemma probe_connector_returns: "net_returns out \<Longrightarrow> never_panics (probe_outbound_connector out k target ms)"
  using probe_returns [of out k "\<lparr>pf_enabled = True, pf_target = target, pf_timeout_ms = ms\<rparr>"]
  by (simp add: probe_outbound_if_enabled_def)

lemma check_outbound_returns:
  assumes "net_returns out"
  shows "never_panics (check_outbound out proxy target ms)"
proof -
  have "never_panics (case target of
       Some target \<Rightarrow>
         perform (if ms = 0 then fail Doctor_timeout_zero else give ()) (\<lambda>_.
         perform (wrap Doctor_outbound (probe_outbound_connector out k target ms)) (\<lambda>_.
         println (lit ''outbound proxy probe to '' @ show_socket_addr target @ lit '': ok'')))
     | None \<Rightarrow>
         println (lit ''outbound proxy probe: skipped; pass --proxy-probe-target to test it''))" for k
    by (cases target) (auto intro!: panics_never probe_connector_returns [OF assms])
  then show ?thesis
    unfolding check_outbound_def
    by (intro panics_never validate_proxy_no_panic connector_no_panic)
qed

context application
begin

lemma doctor_returns:
  assumes "net_returns out" and "idle B h"
  shows "fst (doctor describe sh search out app proxy target ms open_probe port live h) \<noteq> Panic"
proof -
  let ?I = "\<lambda>_. idle B"
  have say: "holds (idle B) (println x) ?I ?I" "holds (idle B) (for_each println xs) ?I ?I" for x xs
  proof -
    have "never_panics (for_each println xs)" by (induction xs) (auto intro!: panics_never)
    then show "holds (idle B) (for_each println xs) ?I ?I" by (rule returns_idle [OF _ keeps_println_each])
    show "holds (idle B) (println x) ?I ?I" by (rule returns_idle [OF panics_never(7) keeps_println]) simp
  qed
  note probe = returns_idle [OF probes_return(1) keeps_run_host_probe]
    returns_idle [OF probes_return(2) keeps_run_build_tool_probe]
  have outbound: "holds (idle B) (case proxy of Some p \<Rightarrow> check_outbound out p target ms | None \<Rightarrow> give ()) ?I ?I"
    using returns_idle [OF check_outbound_returns [OF assms(1)] keeps_check_outbound]
    by (cases proxy) (auto intro: holds_give)
  have opened: "holds (idle B) (if open_probe
       then
         perform (if port = 0 then fail Dns_probe_port_zero else give ()) (\<lambda>_.
         perform (wrap Open_probe_failed
           (pr_preflight (app_redirector app) \<lparr>rpc_dns_proxy_port = port\<rparr>)) (\<lambda>_.
         println x))
       else println y) ?I ?I" for x y
    by (intro holds_if holds_perform [where Q = ?I] holds_fail holds_give holds_wrap preflight_returns say)
  have probed: "holds (idle B) (run_hotspot_live_probe describe app c) ?I ?I" for c
    by (rule holds_keeps [OF live_probe_returns live_probe_diagnosed [of True]]) (auto simp: diagnosed_def)
  have live: "holds (idle B) (case live of Some c \<Rightarrow> run_hotspot_live_probe describe app c | None \<Rightarrow> println x) ?I ?I" for x
    using probed say by (cases live) simp_all
  have "holds (idle B) (doctor describe sh search out app proxy target ms open_probe port live) ?I ?I"
    unfolding doctor_def
    by (intro holds_perform [where Q = ?I] holds_wrap say opened live probe outbound)
  then show ?thesis using assms(2) by (cases rule: holds_cases) simp_all
qed

end

subsection \<open>Properties\<close>

text \<open>C24: The doctor command leaves nothing behind and does only what it was asked to. Whatever its
  probes answer, when it returns the process holds no capture handle, no worker, no socket and no
  task, and the handles of other processes are as they were; without its option for the open probe
  it has opened no handle, and without the option for the live probe it has neither configured,
  started nor stopped the hotspot.\<close>

theorem doctor_leaves_nothing:
  assumes "fresh_bound h"
    and "doctor describe sh search out (windows_app rt adapters sh e) proxy target ms open_probe port live
      (fresh_process h) = (r, h')"
  shows "handles h' = handles h \<and> workers h' = [] \<and> running h' = None \<and> sockets h' = [] \<and> tasks h' = [] \<and>
     list_all (doctor_action open_probe (live \<noteq> None)) (actions h')"
proof -
  have "idle_redirector (handles h) (fresh_process h)"
    using fresh_settled [OF assms(1)] by (simp add: settled_def)
  moreover have "diagnosed idle_redirector open_probe (live \<noteq> None) (fresh_process h) h'"
    using win.doctor_diagnosed assms(2) by (rule keepsD)
  ultimately show ?thesis
    by (auto simp: diagnosed_def idle_redirector_def fresh_process_def)
qed

theorem doctor_leaves_nothing_witness:
  "handles (snd (doctor (\<lambda>x. []) sample_shell sample_search (sample_outside True) (sample_app sample_winrt) None None 5
     True 53 (Some sample_hotspot_config) (fresh_process sample_machine))) = [3]"
proof -
  obtain r h where d: "doctor (\<lambda>x. []) sample_shell sample_search (sample_outside True) (sample_app sample_winrt) None None 5
     True 53 (Some sample_hotspot_config) (fresh_process sample_machine) = (r, h)" by fastforce
  with doctor_leaves_nothing [OF sample_facts(1) d [unfolded sample_app_def]] show ?thesis
    by (simp add: sample_machine_def)
qed

lemma sample_hotspot_queries:
  assumes "world h = State_on"
  shows "\<exists>h'. windows_hotspot_status sample_winrt sample_shell h = (Ok Running, h') \<and> world h' = State_on"
    and "\<exists>a h'. windows_hotspot_access_point sample_winrt sample_shell h = (Ok a, h') \<and> world h' = State_on"
  using assms
  by (simp_all add: windows_hotspot_status_def windows_hotspot_access_point_def query_with_fallback_def
      native_hotspot_status_def native_hotspot_access_point_def native_eval sample_winrt_def)

lemma sample_live_run:
  obtains h where "run_hotspot_live_probe (\<lambda>x. []) (sample_app sample_winrt) sample_hotspot_config (host_in State_off) = (Ok (), h)"
proof -
  let ?h = "(host_in State_off)\<lparr>actions := [Printed (lit ''hotspot live probe: starting SSID '' @ hs_ssid sample_hotspot_config)]\<rparr>"
  obtain h1 where 1: "windows_hotspot_start sample_winrt sample_shell sample_hotspot_config ?h = (Ok (), h1)" "world h1 = State_on"
    using sample_hotspot_start [of ?h] by (auto simp: host_in_def)
  obtain h2 where 2: "windows_hotspot_status sample_winrt sample_shell h1 = (Ok Running, h2)" "world h2 = State_on"
    using sample_hotspot_queries(1) 1(2) by blast
  let ?h2 = "h2\<lparr>actions := actions h2 @ [Printed (lit ''hotspot live probe status: '' @ show_status Running)]\<rparr>"
  obtain a h3 where 3: "windows_hotspot_access_point sample_winrt sample_shell ?h2 = (Ok a, h3)" "world h3 = State_on"
    using sample_hotspot_queries(2) [of ?h2] 2(2) by auto
  obtain r where "\<forall>h :: tethering_state host. windows_discover_hotspot (\<lambda>w n. Adapters [sample_adapter]) sample_shell h = (Ok r, h)"
    using sample_discover by blast
  then have "\<exists>h4. live_checks (sample_app sample_winrt) h1 = (Ok (), h4) \<and> world h4 = State_on"
    using 2 3
    by (simp add: live_checks_def sample_app_def perform_def wrap_def println_def emit_def give_def)
  then obtain h4 where 4: "live_checks (sample_app sample_winrt) h1 = (Ok (), h4)" "world h4 = State_on" by blast
  obtain h5 where 5: "windows_hotspot_stop sample_winrt sample_shell h4 = (Ok (), h5)"
    using sample_hotspot_stop [OF 4(2)] by blast
  show thesis
    by (rule that, insert 1 4 5)
      (simp add: run_hotspot_live_probe_def sample_app_def perform_def wrap_def println_def emit_def give_def caught_def
        from_res_def host_in_def)
qed

text \<open>C25: The live probe stops every hotspot that it has started. Unless the start itself failed, the
  last thing it does to the world outside is a stop of the hotspot, after whatever check failed;
  it reports success only if that stop succeeded, and a failed stop in any case.\<close>

theorem live_probe_stops_hotspot:
  assumes "run_hotspot_live_probe describe (windows_app rt adapters sh e) config h = (r, h')"
    and "\<And>x. r \<noteq> Err (Live_start_failed x)"
  shows "\<exists>h1 y h2. windows_hotspot_stop rt sh h1 = (y, h2) \<and> world h' = world h2 \<and>
       (case r of
          Ok _ \<Rightarrow> y = Ok ()
        | Err x \<Rightarrow> y = Ok () \<or> (\<exists>z. y = Err z \<and> (x = Live_stop_failed z \<or> x = Live_stop_failed_too z))
        | Panic \<Rightarrow> False)"
  using win.live_probe_stops [OF assms(1)] assms(2) by simp

theorem live_probe_stops_hotspot_witness:
  "\<exists>h h1 y h2. run_hotspot_live_probe (\<lambda>x. []) (sample_app sample_winrt) sample_hotspot_config (host_in State_off) = (Ok (), h) \<and>
     windows_hotspot_stop sample_winrt sample_shell h1 = (y, h2) \<and> y = Ok () \<and> world h = world h2"
proof -
  obtain h where h: "run_hotspot_live_probe (\<lambda>x. []) (sample_app sample_winrt) sample_hotspot_config (host_in State_off) = (Ok (), h)"
    by (rule sample_live_run)
  with live_probe_stops_hotspot [OF h [unfolded sample_app_def]] show ?thesis by fastforce
qed

end
