(* ===== verification/Cli.thy ===== *)
theory Cli
  imports Diagnostics
begin

section \<open>The command line (src/src/main.rs)\<close>

text \<open>
  What the program does with its parsed command line: the types of the arguments, their default
  values, the configuration \<open>hproxy up\<close> builds from them, logging and the dispatch of the
  commands on the Windows implementation. Parsing the command line itself is \<open>clap\<close>'s. Where the
  log goes is not modelled beyond the one thing that can fail, opening the log file.

  The lemmas show which command lines give an accepted configuration, and what the process still
  holds when a command has run: nothing, unless \<open>up\<close> could not wait for Ctrl+C.
\<close>

datatype band_arg = Band_arg_auto | Band_arg_two_ghz | Band_arg_five_ghz

datatype dns_mode_arg = Dns_arg_forward | Dns_arg_gateway

record up_args =
  ua_ssid :: str
  ua_password :: str
  ua_band :: band_arg
  ua_outbound :: proxy_config
  ua_proxy_tls_insecure :: bool
  ua_skip_proxy_probe :: bool
  ua_proxy_probe_target :: socket_addr
  ua_proxy_probe_timeout_ms :: u64
  ua_transparent_tcp_port :: u16
  ua_dns_proxy_port :: u16
  ua_dns_upstream :: socket_addr
  ua_dns_timeout_ms :: u64
  ua_dns_mode :: dns_mode_arg

record doctor_args =
  da_outbound :: "proxy_config option"
  da_proxy_tls_insecure :: bool
  da_proxy_probe_target :: "socket_addr option"
  da_proxy_probe_timeout_ms :: u64
  da_windivert_open_probe :: bool
  da_windivert_probe_dns_port :: u16
  da_hotspot_live_probe :: bool
  da_hotspot_ssid :: str
  da_hotspot_password :: str
  da_hotspot_band :: band_arg

datatype command = Up up_args | Down | Status | Recover | Doctor doctor_args

record cli =
  cli_log_file :: "path option"
  cli_log_stderr :: bool
  cli_command :: command

text \<open>The values of arguments that are not given.\<close>

definition up_args_default :: up_args where
  "up_args_default =
     \<lparr>ua_ssid = lit ''VirtualProxyAP'', ua_password = lit ''11102017'', ua_band = Band_arg_two_ghz,
      ua_outbound = proxy_config_direct, ua_proxy_tls_insecure = False, ua_skip_proxy_probe = False,
      ua_proxy_probe_target = \<lparr>sa_ip = V4 (Ipv4Addr 1 1 1 1), sa_port = 443\<rparr>,
      ua_proxy_probe_timeout_ms = 5000, ua_transparent_tcp_port = 16000, ua_dns_proxy_port = 1053,
      ua_dns_upstream = \<lparr>sa_ip = V4 (Ipv4Addr 1 1 1 1), sa_port = 53\<rparr>,
      ua_dns_timeout_ms = 5000, ua_dns_mode = Dns_arg_forward\<rparr>"

definition doctor_args_default :: doctor_args where
  "doctor_args_default =
     \<lparr>da_outbound = None, da_proxy_tls_insecure = False, da_proxy_probe_target = None,
      da_proxy_probe_timeout_ms = 5000, da_windivert_open_probe = False,
      da_windivert_probe_dns_port = 1053, da_hotspot_live_probe = False,
      da_hotspot_ssid = lit ''VirtualProxyAP'', da_hotspot_password = lit ''11102017'',
      da_hotspot_band = Band_arg_two_ghz\<rparr>"

fun dns_mode_from :: "dns_mode_arg \<Rightarrow> dns_mode" where
  "dns_mode_from Dns_arg_forward = Forward"
| "dns_mode_from Dns_arg_gateway = Gateway"

fun hotspot_band_from :: "band_arg \<Rightarrow> hotspot_band" where
  "hotspot_band_from Band_arg_auto = Auto"
| "hotspot_band_from Band_arg_two_ghz = TwoGhz"
| "hotspot_band_from Band_arg_five_ghz = FiveGhz"

definition apply_tls_flag :: "proxy_config \<Rightarrow> bool \<Rightarrow> proxy_config" where
  "apply_tls_flag proxy proxy_tls_insecure =
     (if proxy_tls_insecure then with_tls_skip_verify proxy True else proxy)"

definition up_config :: "up_args \<Rightarrow> app_config" where
  "up_config args =
     (let outbound_proxy = apply_tls_flag (ua_outbound args) (ua_proxy_tls_insecure args);
          proxy_preflight =
            \<lparr>pf_enabled = (\<not> ua_skip_proxy_probe args \<and> \<not> is_direct outbound_proxy),
             pf_target = ua_proxy_probe_target args, pf_timeout_ms = ua_proxy_probe_timeout_ms args\<rparr>
      in
        \<lparr>cfg_hotspot =
           \<lparr>hs_ssid = ua_ssid args, hs_password = ua_password args,
            hs_band = hotspot_band_from (ua_band args)\<rparr>,
         cfg_outbound_proxy = outbound_proxy,
         cfg_proxy_preflight = proxy_preflight,
         cfg_dns =
           \<lparr>dns_upstream = ua_dns_upstream args, dns_timeout_ms = ua_dns_timeout_ms args,
            dns_mode_of = dns_mode_from (ua_dns_mode args)\<rparr>,
         cfg_policy = transparent_policy_default,
         cfg_ports =
           \<lparr>transparent_tcp = ua_transparent_tcp_port args, dns_proxy = ua_dns_proxy_port args\<rparr>\<rparr>)"

subsection \<open>Running a command\<close>

text \<open>Everything around the process.\<close>

record 'w environment =
  env_winrt :: "'w winrt"
  env_adapters :: "'w \<Rightarrow> nat \<Rightarrow> adapters_result"
  env_shell :: "'w shell"
  env_driver :: "'w driver_env"
  env_outside :: "'w outside"
  env_open_log :: "path \<Rightarrow> ('w, bool) external"
  env_describe :: "doctor_error \<Rightarrow> str"

datatype main_error = Log_not_opened path | App_failed app_error | Doctor_failed doctor_error

definition init_logging :: "'w environment \<Rightarrow> cli \<Rightarrow> ('w host, unit, main_error) io" where
  "init_logging env c =
     (case cli_log_file c of
        Some path \<Rightarrow>
          call (\<lambda>w. case env_open_log env path w of
            (ok, t, w') \<Rightarrow> (if ok then Ok () else Err (Log_not_opened path), t, w'))
      | None \<Rightarrow> give ())"

definition default_app :: "'w environment \<Rightarrow> 'w h_proxy_app" where
  "default_app env = windows_app (env_winrt env) (env_adapters env) (env_shell env) (env_driver env)"

definition run_doctor :: "'w environment \<Rightarrow> doctor_args \<Rightarrow> ('w host, unit, doctor_error) io" where
  "run_doctor env args =
     doctor (env_describe env) (env_shell env) (de_search (env_driver env)) (env_outside env) (default_app env)
       (map_option (\<lambda>proxy. apply_tls_flag proxy (da_proxy_tls_insecure args)) (da_outbound args))
       (da_proxy_probe_target args) (da_proxy_probe_timeout_ms args)
       (da_windivert_open_probe args) (da_windivert_probe_dns_port args)
       (if da_hotspot_live_probe args
        then Some
          \<lparr>hs_ssid = da_hotspot_ssid args, hs_password = da_hotspot_password args,
           hs_band = hotspot_band_from (da_hotspot_band args)\<rparr>
        else None)"

fun run_command :: "'w environment \<Rightarrow> command \<Rightarrow> ('w host, unit, main_error) io" where
  "run_command env (Up args) = wrap App_failed (up (env_outside env) (default_app env) (up_config args))"
| "run_command env Down = wrap App_failed (down (default_app env))"
| "run_command env Status = wrap App_failed (status (default_app env))"
| "run_command env Recover = wrap App_failed (recover (default_app env))"
| "run_command env (Doctor args) = wrap Doctor_failed (run_doctor env args)"

definition main :: "'w environment \<Rightarrow> cli \<Rightarrow> ('w host, unit, main_error) io" where
  "main env c = perform (init_logging env c) (\<lambda>_. run_command env (cli_command c))"

subsection \<open>The configuration\<close>

lemma up_config_fields:
  "cfg_policy (up_config args) = transparent_policy_default"
  "px_kind (cfg_outbound_proxy (up_config args)) = px_kind (ua_outbound args)"
  "px_endpoint (cfg_outbound_proxy (up_config args)) = px_endpoint (ua_outbound args)"
  by (simp_all add: up_config_def Let_def apply_tls_flag_def with_tls_skip_verify_def)

lemma validate_with_flag:
  "validate_proxy p = Ok () \<Longrightarrow>
     validate_proxy (apply_tls_flag p b) = Ok () \<longleftrightarrow> (b \<longrightarrow> px_kind p = HttpsConnect)"
  by (auto simp: validate_proxy_iff apply_tls_flag_def with_tls_skip_verify_def)

lemma default_parts:
  assumes "args = up_args_default\<lparr>ua_outbound := p, ua_proxy_tls_insecure := b\<rparr>"
  shows "validate_hotspot (cfg_hotspot (up_config args)) = Ok ()"
    and "validate_preflight (cfg_proxy_preflight (up_config args)) = Ok ()"
    and "validate_dns (cfg_dns (up_config args)) = Ok ()" and "validate_ports (cfg_ports (up_config args)) = Ok ()"
    and "cfg_outbound_proxy (up_config args) = apply_tls_flag p b"
proof -
  have "str_len (lit ''VirtualProxyAP'') = 14" "str_len (lit ''11102017'') = 8" by code_simp+
  then show "validate_hotspot (cfg_hotspot (up_config args)) = Ok ()"
    by (simp add: assms validate_hotspot_iff up_config_def Let_def up_args_default_def)
qed (simp_all add: assms validate_preflight_iff validate_dns_iff validate_ports_iff up_config_def Let_def up_args_default_def)

subsection \<open>Every command ends settled\<close>

context application
begin

lemma redirector_stop_settles:
  assumes "settled idle B h" and "pr_stop (app_redirector app) h = (r, h')"
  shows "settled idle B h' \<and> r = Ok ()"
  using red.stop_idle [of B h] keepsD [OF red.stop_frame assms(2)] assms
  by (auto simp: settled_def capture_frame_def)

lemma stop_commands_settle:
  assumes "settled idle B h"
  shows "settled idle B (snd (down app h))" and "settled idle B (snd (recover app h))"
proof -
  obtain r h1 where s: "pr_stop (app_redirector app) h = (r, h1)" by fastforce
  have h1: "settled idle B h1" "r = Ok ()" using redirector_stop_settles [OF assms s] by simp_all
  let ?h1 = "h1\<lparr>clock := clock h1 + 100 + late h1 (clock h1)\<rparr>"
  have "untouched_capture h1 ?h1" by (simp add: untouched_capture_def)
  then have h1': "settled idle B ?h1" using h1(1) red.idle_local by (auto simp: settled_def)
  obtain r2 h2 where t: "hc_stop (app_hotspot app) h1 = (r2, h2)" by fastforce
  obtain r3 h3 where u: "hc_stop (app_hotspot app) ?h1 = (r3, h3)" by fastforce
  show "settled idle B (snd (down app h))"
    using hotspot_stop_settles [OF h1(1) t] s t h1(2) by (simp add: down_def perform_def wrap_def)
  show "settled idle B (snd (recover app h))"
    using hotspot_stop_settles [OF h1' u] s u h1(2) by (simp add: recover_def perform_def wrap_def sleep_def)
qed

lemma acts_settle:
  assumes "keeps (only_acts A) m" and "settled idle B h"
  shows "settled idle B (snd (m h))"
proof -
  have "only_acts A h (snd (m h))" using assms(1) by (simp add: keeps_def)
  then show ?thesis
    using assms(2) red.idle_local [OF only_acts_untouched] by (fastforce simp: settled_def only_acts_def)
qed

lemma status_acts_only: "keeps (only_acts (doctor_action False True)) (status app)"
proof -
  have m: "keeps (only_acts hotspot_action) n \<Longrightarrow> keeps (only_acts (doctor_action False True)) n"
    for n :: "('w host, 'x, 'y) io"
    by (erule keeps_mono, erule only_acts_mono) simp
  show ?thesis
    unfolding status_def
    by (intro keeps_acts m [OF status_acts] m [OF access_point_acts]) (auto intro!: keeps_acts split: option.split)
qed

lemma diagnosed_settles: "keeps (diagnosed idle open live) m \<Longrightarrow> settled idle B h \<Longrightarrow> settled idle B (snd (m h))"
  by (auto simp: keeps_def diagnosed_def settled_def)

lemma up_settles:
  assumes "settled idle B h" and "net_returns out" and "fst (up out app config h) \<noteq> Err Ctrl_c_failed"
  shows "settled idle B (snd (up out app config h))"
  using up_states [OF assms(1,2), of config] assms(3)
  by (auto simp: up_outcome_def split: res.splits if_splits)

lemma stop_commands_return:
  assumes "settled idle B h"
  shows "fst (down app h) \<noteq> Panic" and "fst (recover app h) \<noteq> Panic"
proof -
  obtain h1 where s: "pr_stop (app_redirector app) h = (Ok (), h1)"
    using redirector_stop_settles [OF assms] by (metis prod.collapse)
  have "fst (hc_stop (app_hotspot app) k) \<noteq> Panic" for k
    using hotspot_returns(2) by (simp add: never_panics_def)
  then show "fst (down app h) \<noteq> Panic" "fst (recover app h) \<noteq> Panic"
    using s by (simp_all add: down_def recover_def perform_def wrap_def sleep_def split_beta)
qed

lemma status_returns: "never_panics (status app)"
proof -
  have "never_panics (case a of Some ap \<Rightarrow> println (lit ''hotspot SSID: '' @ ap_ssid ap) | None \<Rightarrow> give ())"
    for a :: "hotspot_access_point option"
    by (cases a) (auto intro: panics_never)
  then show ?thesis
    unfolding status_def by (intro panics_never hotspot_returns)
qed

lemma up_returns:
  "settled idle B h \<Longrightarrow> net_returns out \<Longrightarrow> fst (up out app config h) \<noteq> Panic"
  using up_states [of B h out config] by (auto simp: up_outcome_def split: res.splits)

end

text \<open>The one way to return with something running: \<open>up\<close> that could not wait for Ctrl+C.\<close>

fun stranded :: "command \<Rightarrow> (unit, main_error) res \<Rightarrow> app_config option" where
  "stranded (Up args) (Err (App_failed Ctrl_c_failed)) = Some (up_config args)"
| "stranded c r = None"

lemma stranded_Some:
  "stranded c r = Some config \<longleftrightarrow> (\<exists>args. c = Up args \<and> config = up_config args \<and> r = Err (App_failed Ctrl_c_failed))"
  by (cases "(c, r)" rule: stranded.cases) auto

lemma run_command_stranded:
  assumes "settled idle_redirector B h" and "net_returns (env_outside env)"
    and "stranded c (fst (run_command env c h)) = Some config"
  shows "listening active_redirector B (listeners config) (snd (run_command env c h))"
proof -
  obtain args where c: "c = Up args" "config = up_config args"
    and r: "fst (run_command env c h) = Err (App_failed Ctrl_c_failed)"
    using assms(3) by (auto simp: stranded_Some)
  let ?m = "up (env_outside env) (default_app env) (up_config args)"
  have "fst (?m h) = Err Ctrl_c_failed"
    using r c by (cases "fst (?m h)") (auto simp: wrap_def split: prod.splits)
  moreover have "up_outcome idle_redirector active_redirector B (default_app env) (up_config args) h (fst (?m h)) (snd (?m h))"
    unfolding default_app_def by (rule win.up_states [OF assms(1,2)])
  ultimately show ?thesis using c by (simp add: up_outcome_def wrap_def split_beta)
qed

lemma run_command_settles:
  assumes "settled idle_redirector B h" and "net_returns (env_outside env)"
    and "stranded c (fst (run_command env c h)) = None"
  shows "settled idle_redirector B (snd (run_command env c h))"
proof (cases c)
  case (Up args)
  let ?m = "up (env_outside env) (default_app env) (up_config args)"
  have "fst (?m h) \<noteq> Err Ctrl_c_failed" using assms(3) Up by (auto simp: wrap_def split: prod.splits)
  then have "settled idle_redirector B (snd (?m h))"
    unfolding default_app_def using assms(1,2) by (intro win.up_settles)
  with Up show ?thesis by (simp add: wrap_def split_beta)
next
  case (Doctor args)
  have "settled idle_redirector B (snd (run_doctor env args h))"
    unfolding run_doctor_def default_app_def
    by (rule win.diagnosed_settles [OF win.doctor_diagnosed assms(1)])
  with Doctor show ?thesis by (simp add: wrap_def split_beta)
next
  case Status
  have "settled idle_redirector B (snd (status (default_app env) h))"
    unfolding default_app_def by (rule win.acts_settle [OF win.status_acts_only assms(1)])
  with Status show ?thesis by (simp add: wrap_def split_beta)
qed (use assms(1) in \<open>simp_all add: wrap_def split_beta default_app_def win.stop_commands_settle\<close>)

lemma run_command_returns:
  assumes "settled idle_redirector B h" and "net_returns (env_outside env)"
  shows "fst (run_command env c h) \<noteq> Panic"
proof (cases c)
  case (Up args)
  then show ?thesis
    using win.up_returns [OF assms] by (simp add: wrap_def split_beta default_app_def)
next
  case (Doctor args)
  have "idle_redirector B h" using assms(1) by (simp add: settled_def)
  from win.doctor_returns [OF assms(2) this] have "fst (run_doctor env args h) \<noteq> Panic"
    unfolding run_doctor_def default_app_def .
  with Doctor show ?thesis by (simp add: wrap_def split_beta)
next
  case Status
  have "fst (status (default_app env) h) \<noteq> Panic"
    unfolding default_app_def by (rule win.status_returns [unfolded never_panics_def, rule_format])
  with Status show ?thesis by (simp add: wrap_def split_beta)
qed (use win.stop_commands_return [OF assms(1)] in \<open>simp_all add: wrap_def split_beta default_app_def\<close>)

text \<open>The state in which the log is set up, and in which it leaves the process.\<close>

lemma init_logging_settles:
  assumes "fresh_bound h"
  shows "settled idle_redirector (handles h) (snd (init_logging env c (fresh_process h)))"
    and "fst (init_logging env c (fresh_process h)) \<noteq> Panic"
proof -
  have k: "keeps (only_acts (\<lambda>a. False)) (init_logging env c)"
    unfolding init_logging_def by (auto intro!: keeps_acts split: option.split)
  show "settled idle_redirector (handles h) (snd (init_logging env c (fresh_process h)))"
    by (rule win.acts_settle [OF k fresh_settled [OF assms]])
  show "fst (init_logging env c (fresh_process h)) \<noteq> Panic"
    by (auto simp: init_logging_def give_def call_def split: option.split prod.split)
qed

subsection \<open>Properties\<close>

text \<open>C5: What a process still holds when its command line has run, whatever that is and whatever
  fails. With one exception it holds nothing: no capture handle, no worker, no listener and no
  socket of a listener is left, and the handles of other processes are as they were. The exception
  is an up that fails to wait for Ctrl+C: it returns with both its capture handles open on top of
  those of other processes, both workers on them, and every listener of its configuration on its
  socket. The sockets are those the startup block and the listener tasks hold; a query that the DNS
  listener has passed on in a task of its own shares the listener's socket until it is answered or
  times out.\<close>

theorem every_command_releases:
  assumes "fresh_bound h" and "net_returns (env_outside env)" and "main env c (fresh_process h) = (r, h')"
  shows "case stranded (cli_command c) r of
      None \<Rightarrow> handles h' = handles h \<and> workers h' = [] \<and> running h' = None \<and> tasks h' = [] \<and> sockets h' = []
    | Some config \<Rightarrow>
        \<exists>i j. i \<notin> set (handles h) \<and> j \<notin> set (handles h) \<and> handles h' = handles h @ [i, j] \<and>
          running h' = Some (pair_redirector i j) \<and> workers h' = rr_workers (pair_redirector i j) \<and>
          tasks h' = listeners config \<and> sockets h' = map socket_of (listeners config)"
proof -
  obtain r1 h1 where i: "init_logging env c (fresh_process h) = (r1, h1)" by fastforce
  have h1: "settled idle_redirector (handles h) h1" using init_logging_settles(1) [OF assms(1), of env c] i by simp
  show ?thesis
  proof (cases r1)
    case (Ok u)
    with i assms(3) have m: "run_command env (cli_command c) h1 = (r, h')" by (simp add: main_def perform_def)
    show ?thesis
    proof (cases "stranded (cli_command c) r")
      case None
      with run_command_settles [OF h1 assms(2), of "cli_command c"] m show ?thesis
        by (simp add: settled_def idle_redirector_def)
    next
      case (Some config)
      with run_command_stranded [OF h1 assms(2), of "cli_command c" config] m show ?thesis
        by (auto simp: listening_def active_redirector_def)
    qed
  next
    case (Err x)
    with i assms(3) have "r = Err x" "h' = h1" "\<nexists>y. x = App_failed y"
      by (auto simp: main_def perform_def init_logging_def give_def call_def split: option.splits prod.splits if_splits)
    then have "stranded (cli_command c) r = None"
      by (cases "stranded (cli_command c) r") (auto simp: stranded_Some)
    with h1 \<open>h' = h1\<close> show ?thesis by (simp add: settled_def idle_redirector_def)
  next
    case Panic
    then show ?thesis using init_logging_settles(2) [OF assms(1), of env c] i by simp
  qed
qed

definition sample_environment :: "tethering_state environment" where
  "sample_environment =
     \<lparr>env_winrt = sample_winrt, env_adapters = (\<lambda>w n. Adapters [sample_adapter]), env_shell = sample_shell,
      env_driver = sample_env, env_outside = sample_outside True, env_open_log = (\<lambda>p w. (True, 2, w)),
      env_describe = (\<lambda>x. [])\<rparr>"

theorem every_command_releases_witness:
  "\<exists>r h. main sample_environment
       \<lparr>cli_log_file = Some (lit ''x''), cli_log_stderr = False,
        cli_command = Doctor (doctor_args_default\<lparr>da_hotspot_live_probe := True\<rparr>)\<rparr> (fresh_process sample_machine) = (r, h) \<and>
     handles h = [3] \<and> sockets h = []"
proof -
  let ?c = "\<lparr>cli_log_file = Some (lit ''x''), cli_log_stderr = False,
        cli_command = Doctor (doctor_args_default\<lparr>da_hotspot_live_probe := True\<rparr>)\<rparr>"
  obtain r h where m: "main sample_environment ?c (fresh_process sample_machine) = (r, h)" by fastforce
  moreover have "net_returns (env_outside sample_environment)"
    by (simp add: sample_environment_def sample_facts(2))
  moreover have "handles sample_machine = [3]" by (simp add: sample_machine_def)
  ultimately show ?thesis
    using every_command_releases [OF sample_facts(1), of sample_environment ?c r h] by simp
qed

text \<open>No command panics on account of what Windows, the driver, PowerShell and the network answer,
  as long as connecting itself returns. This does not speak of the panics the model leaves out:
  those of println! when standard output has been closed, and of a lock whose holder panicked.\<close>

theorem no_command_panics:
  assumes "fresh_bound h" and "net_returns (env_outside env)"
  shows "fst (main env c (fresh_process h)) \<noteq> Panic"
proof -
  obtain r1 h1 where i: "init_logging env c (fresh_process h) = (r1, h1)" by fastforce
  with init_logging_settles [OF assms(1), of env c] run_command_returns [OF _ assms(2)]
  show ?thesis by (cases r1) (auto simp: main_def perform_def)
qed

theorem no_command_panics_witness:
  "fst (main sample_environment
     \<lparr>cli_log_file = None, cli_log_stderr = False, cli_command = Up up_args_default\<rparr> (fresh_process sample_machine)) \<noteq> Panic"
proof -
  have "net_returns (env_outside sample_environment)"
    by (simp add: sample_environment_def sample_facts(2))
  then show ?thesis by (rule no_command_panics [OF sample_facts(1)])
qed

text \<open>With the default values of all other arguments, every outbound proxy that can be written
  as a URI gives a configuration that hproxy up accepts; with the flag for insecure TLS, exactly
  those that are HTTPS proxies.\<close>

theorem default_arguments_accepted:
  assumes "proxy_config_from_str parse_url v = Ok p"
  shows "is_ok (validate_app (up_config (up_args_default\<lparr>ua_outbound := p, ua_proxy_tls_insecure := b\<rparr>))) \<longleftrightarrow>
     (b \<longrightarrow> px_kind p = HttpsConnect)"
  using default_parts [OF refl, where p = p and b = b] validate_with_flag [OF from_str_Ok [OF assms], of b]
  by (simp add: is_ok_iff validate_app_parts)

theorem default_arguments_accepted_witness:
  "\<not> is_ok (validate_app (up_config (up_args_default\<lparr>ua_outbound := proxy_config_direct, ua_proxy_tls_insecure := True\<rparr>)))"
proof -
  have "proxy_config_from_str (\<lambda>s. Err s) (lit ''direct'') = Ok proxy_config_direct" by code_simp
  from default_arguments_accepted [OF this, where b = True] show ?thesis by (simp add: proxy_config_direct_def)
qed

text \<open>C37: The policy of a run of hproxy up, which no argument changes. It drops exactly the UDP
  packets of hotspot clients to the internet that are neither DNS nor NTP, never a TCP packet; and
  it never takes the bypass for the address of the upstream proxy, which is never configured.\<close>

theorem policy_of_up:
  assumes "c = \<lparr>rc_hotspot = hotspot, rc_ports = ports, rc_policy = cfg_policy (up_config args)\<rparr>"
  shows "classify_packet c packet \<noteq> Bypass UpstreamProxy \<and>
     ((\<exists>x. classify_packet c packet = Drop x) \<longleftrightarrow>
        pm_protocol packet = Udp \<and> pm_dst_port packet \<notin> {53, 123} \<and>
        is_hotspot_client (rt_subnet hotspot) (pm_src_ip packet) \<and>
        pm_dst_ip packet \<noteq> rt_gateway_ip hotspot \<and> \<not> is_multicast_or_broadcast (pm_dst_ip packet) \<and>
        \<not> is_private_lan (pm_dst_ip packet))"
  by (auto simp: assms up_config_fields transparent_policy_default_def classify_packet_def classify_dns_def
      classify_tcp_def classify_udp_def split: transport_protocol.split)

theorem policy_of_up_witness:
  "\<exists>c. rc_policy c = transparent_policy_default \<and> classify_packet c sample_meta \<noteq> Bypass UpstreamProxy"
  using policy_of_up [OF refl, of "rc_hotspot sample_config" "rc_ports sample_config" up_args_default sample_meta]
    up_config_fields(1) [of up_args_default]
  by (intro exI [of _ "\<lparr>rc_hotspot = rc_hotspot sample_config, rc_ports = rc_ports sample_config,
    rc_policy = cfg_policy (up_config up_args_default)\<rparr>"]) simp

end
