(* ===== verification/Spec2Isabelle.thy ===== *)
theory Spec2Isabelle
  imports Adapters Hotspot_Scripts Build_Script Contracts Delivery Gateway_Mode Relay_Log Unit_Tests Cli
begin

text \<open>
  A model of hproxy, a transparent proxy for the clients of a Windows Mobile Hotspot, translated
  from its Rust sources under \<open>src/src/\<close>, with the theorems that make its parts correct.

  The program. \<open>hproxy up\<close> starts the hotspot, finds its private interface and opens two
  WinDivert capture handles. A worker on the inbound handle classifies the packets of hotspot
  clients: TCP is readdressed to a local listener, DNS to a local resolver, other UDP is dropped,
  and every redirected packet records where it was headed in the shared flow table. The listener
  looks the flow up, connects to the original destination through the configured outbound proxy
  (direct, SOCKS5, HTTP or HTTPS CONNECT) and relays. A worker on the outbound handle gives DNS
  answers their original source back. In gateway mode the resolver answers with the address of
  the gateway itself, and two more listeners find the destination in the Host header of a request
  or the server name of a TLS ClientHello. \<open>down\<close>, \<open>status\<close>, \<open>recover\<close> and \<open>doctor\<close> stop, query and
  examine.

  The theories, from the bottom up, with the files they translate:

    \<open>Prelude\<close>          results with errors and panics (\<open>res\<close>), association lists, hints
    \<open>Rust_Str\<close>         strings as code points, UTF-8, trimming, splitting, numbers (std)
    \<open>Rust_Net\<close>         IP addresses, their classes, parsing and display (std)
    \<open>Config\<close>           \<open>config.rs\<close>: the configuration, its validation, the proxy URI
    \<open>Flow\<close>             \<open>flow.rs\<close>: the flow table
    \<open>Hotspot\<close>          \<open>hotspot.rs\<close>: CIDR arithmetic, interface discovery, output parsers
    \<open>Adapters\<close>         \<open>hotspot.rs\<close>: the strings and addresses Windows reports for an adapter
    \<open>Packet\<close>           \<open>redirector.rs\<close>: IPv4 parsing, checksums, rewriting
    \<open>Redirector\<close>       \<open>redirector.rs\<close>: classification, the packet processors, the filters
    \<open>Dns\<close>              \<open>dns.rs\<close>: the question parser, the gateway answer, the server
    \<open>Tls\<close>              \<open>proxy.rs\<close>: the server name of a ClientHello
    \<open>Connect\<close>          \<open>proxy.rs\<close>: destinations and the outbound connectors
    \<open>Gateway\<close>          \<open>proxy.rs\<close>: the HTTP and TLS gateway relays, the transparent relay
    \<open>Host\<close>             \<open>hostcmd.rs\<close>: the machine, effects, PowerShell
    \<open>Doctor\<close>           \<open>doctor.rs\<close>: probes and report parsers
    \<open>Build_Script\<close>     \<open>doctor.rs\<close>: the embedded PowerShell script, with the probe that runs it
    \<open>Driver\<close>           \<open>redirector.rs\<close>: WinDivert handles, workers, start and stop
    \<open>Hotspot_Control\<close>  \<open>hotspot.rs\<close>: starting, stopping and querying the hotspot
    \<open>Hotspot_Scripts\<close>  \<open>hotspot.rs\<close>: the embedded PowerShell scripts, with the controller
    \<open>Datapath\<close>         \<open>redirector.rs\<close>, \<open>flow.rs\<close>, \<open>proxy.rs\<close>: the threads over the shared table
    \<open>Delivery\<close>         the same as runs of events: what becomes of a redirected packet
    \<open>Gateway_Mode\<close>     \<open>dns.rs\<close>, \<open>redirector.rs\<close>, \<open>proxy.rs\<close>: gateway mode from end to end
    \<open>Relay_Log\<close>        \<open>proxy.rs\<close>, \<open>flow.rs\<close>: the bounded diagnostic lines of the relays
    \<open>App\<close>              \<open>app.rs\<close>: up with its rollback, down, status, recover
    \<open>Diagnostics\<close>      \<open>app.rs\<close>: doctor and the live probe of the hotspot
    \<open>Cli\<close>              \<open>main.rs\<close>: arguments, defaults, dispatch
    \<open>Contracts\<close>        the configuration the redirector relies on, from \<open>up\<close> to the data path
    \<open>Unit_Tests\<close>       the tests of all files, as statements about the definitions

  How the code is written here. A struct is a record, an enum a datatype, a fixed width integer a
  word of that width, a slice or \<open>Vec\<close> a list, \<open>usize\<close> a natural number. A pure function is a
  function into \<open>res\<close>, with \<open>Err\<close> for an error or \<open>None\<close> that the question mark returns and
  \<open>Panic\<close> for an index out of range or a failed assertion, so that freedom from panics is a
  theorem. A connection is the bytes that will arrive, the bytes sent and what writing will do.
  What acts on the machine is a function on the record \<open>host\<close>: its clock, the actions taken, the
  capture handles of the system, the workers, sockets and tasks of the process, and a component
  of any type for the world outside. Everything outside the repository is an argument: the
  driver (\<open>driver_env\<close>), the tethering service (\<open>winrt\<close>), PowerShell (\<open>shell\<close>), the network
  (\<open>net\<close>, \<open>outside\<close>), the URL parser. Results of these calls are arbitrary, and the theorems
  hold for all of them; where an argument has to behave, that is a named hypothesis:
  \<open>net_returns\<close> (connecting returns instead of panicking) and \<open>fresh_bound\<close> (the system has not
  handed out handles with numbers it is still going to hand out).

  The interfaces are locales. \<open>flow_store\<close> (in \<open>Flow\<close>) is what the processors and relays rely on
  of the flow table; \<open>packet_redirector\<close> (in \<open>Driver\<close>) is the contract of the trait \<open>PacketRedirector\<close>
  and \<open>application\<close> (in \<open>App\<close>) what the commands rely on, with the former as a sublocale. Each is
  interpreted on the definitions of the model, and the properties are about those.

  What is shown, by groups:
    \<^item> Packets: a rewritten packet parses with the new address and port, its checksums verify and
      nothing else changed; rewriting there and back leaves the packet with its checksums computed
      afresh, so the same bytes exactly if they were right; no packet makes it panic.
    \<^item> Decisions: which packets are redirected, dropped or left alone; that the capture filter and
      the subnet test agree; both processors on every branch; a DNS query and its answer.
    \<^item> Flow table: it refines a bounded map and evicts a least recently seen flow.
    \<^item> Concurrency: an invariant over all interleavings of workers and relay tasks (\<open>dp_step\<close>) ties
      every connection and every changed answer to a redirected packet of the same client; and a
      redirected packet is delivered (\<open>Delivery\<close>) as long as the flows in use fit the table, no
      relay of its client port ends and no packet from that port goes elsewhere; what happens
      otherwise is shown there too.
    \<^item> Types: a predicate on the configuration of the redirector (\<open>wf_redirector_config\<close>) that \<open>up\<close>
      establishes, and from which every reachable state of the data path is well typed and every
      step of a worker succeeds (\<open>Contracts\<close>).
    \<^item> Protocols: when SOCKS5 and CONNECT handshakes succeed and what they send; the DNS parser and
      answers; the HTTP gateway neither loses nor invents bytes, and the TLS gateway loses exactly
      what its reader had fetched of the segment the ClientHello ends in; in gateway mode a client
      gets to the host it names (\<open>Gateway_Mode\<close>).
    \<^item> Control: all four waits for the hotspot end, within bounds that depend on how long a query of
      the service takes and how late a sleep ends; a reported success has been seen; nothing is
      leaked by any sequence of driver operations; what every command holds when it returns, which
      is nothing unless \<open>up\<close> fails to wait for Ctrl+C, and what every run of \<open>up\<close> does to the hotspot,
      which ends with a stop of it except after such a failure and after a failed start.
    \<^item> Probes: which command or file decides each field of the build tool report, script, console
      and parser together; the SDK it looks into is the one with the greatest name, which need not
      be a version.
    \<^item> Tests: the unit tests of the crate, all but one, computed on the model.
    \<^item> Configuration: exactly what is accepted, and what the command line builds.

  Recursion and bounds. The loops over slices recurse on the remaining bytes or count them down
  (\<open>name_loop\<close>, \<open>extension_loop\<close>, \<open>sni_loop\<close>, \<open>sum_chunks\<close>); \<open>fold_carry\<close> decreases its sum; \<open>poll_loop\<close>
  recurses on the time that is left, which every round of 250 ms shortens; a server or worker loop
  runs over the list of events it gets, of any length. No definition uses fuel.

  Not modelled. The call of \<open>GetAdaptersAddresses\<close> is an argument (its answer is read in \<open>Adapters\<close>).
  The stubs for other systems than Windows only return errors. Logging, apart from the
  diagnostic lines of the redirector and the relays, is left out, and writing a line is taken to
  succeed: the panics of \<open>println!\<close> on a closed standard output, and those of the \<open>expect\<close> on a lock
  whose holder panicked, are not in the model, and no theorem speaks of them. A timeout of the
  runtime fires exactly when it is due, while a sleep may end late (\<open>late\<close> in \<open>host\<close>). Left out is also the one test that searches the text of
  two scripts. \<open>copy_bidirectional\<close> is an argument of the relay. Windows closes what a process
  holds when it ends; the model is about what the process itself does before it returns. Aborting
  a task takes effect at once here, where the runtime drops it at its next turn; the sockets of
  \<open>host\<close> are the listening ones, not the connections of relays, and not the copies of the DNS
  socket that queries under way hold on to until they are answered or time out; a listener that
  ends by itself, after a failed accept, is in \<open>accept_loop\<close> and \<open>dns_run\<close> but not in the tasks
  of \<open>host\<close>. The driver's results of shutdown, close and send are ignored by the code and taken to
  be successes.
\<close>

end
